(* ===== verification/Prelude.thy ===== *)
theory Prelude
  imports Main "HOL-Library.Word" "HOL-Library.Code_Target_Nat"
begin

text \<open>
  Shared vocabulary of the development: bytes, the error values of the codecs, results
  (\<open>Result<T>\<close> of \<open>crates/fixedformat-core/src/lib.rs\<close> is \<open>error + 'a\<close>), fixed-width
  signed integers with their checked and wrapping arithmetic, and the list lemmas that several
  components use. The constructors of \<open>error\<close> stand for the error messages the code formats:
  one constructor per error site, with the values the message interpolates. The constructor
  \<open>Panic\<close> stands for a Rust panic (index out of bounds, failed \<open>expect\<close>), which is not an
  error value in the code.
\<close>

unbundle bit_operations_syntax

type_synonym byte = "8 word"
type_synonym bytes = "byte list"

text \<open>The byte of a number below 256 (\<open>n as u8\<close> truncates larger ones).\<close>

definition byte_of :: "nat \<Rightarrow> byte" where
  "byte_of n = word_of_nat n"

lemma unat_byte_of: "unat (byte_of n) = n mod 256"
  by (simp add: byte_of_def unat_of_nat)

lemma unat_byte_of_small [simp]: "n < 256 \<Longrightarrow> unat (byte_of n) = n"
  by (simp add: unat_byte_of)

lemma byte_of_unat [simp]: "byte_of (unat b) = b"
  by (simp add: byte_of_def)

lemma unat_byte_less [simp]: "unat (b :: byte) < 256"
  using unsigned_less [of b] by simp

lemma byte_of_inj: "m < 256 \<Longrightarrow> n < 256 \<Longrightarrow> byte_of m = byte_of n \<longleftrightarrow> m = n"
  using unat_byte_of_small by metis

lemma byte_eq_iff_unat: "(a :: byte) = b \<longleftrightarrow> unat a = unat b"
  by (simp add: word_unat_eq_iff)

text \<open>A Rust \<open>char\<close> is its Unicode scalar value, a Rust string its list of characters.\<close>

type_synonym rchar = nat
type_synonym rstr = "rchar list"

abbreviation ch :: "char \<Rightarrow> 'a::comm_semiring_1" where
  "ch c \<equiv> of_char c"

abbreviation lit :: "string \<Rightarrow> 'a::comm_semiring_1 list" where
  "lit s \<equiv> map of_char s"

named_theorems result_simps \<open>evaluation of the result monad\<close>
named_theorems codec_len \<open>lengths of encoded fields\<close>
named_theorems codec_rt \<open>round trips of the field codecs\<close>

section \<open>Errors and results\<close>

datatype (plugins only: code size) spec_error =
    PicUnbalanced rstr
  | PicRepeat rstr
  | PicSymbol rchar rstr
  | PicMixed rstr
  | BadLevel rstr
  | OccursCount
  | OccursUpper
  | DependingName
  | NestingTooDeep nat
  | RedefinesTarget rstr rstr
  | NoPic rstr
  | TemplateClose
  | TemplateOpen
  | TemplateGroup rstr
  | TemplateEmpty rstr
  | TemplateCountCode rstr
  | TemplateTrailing
  | TemplateCode rchar
  | CountParens rstr
  | InvalidCount rstr
  | InvalidJson
  | UnknownEndian rstr
  | NoType "rstr option"
  | GroupNeedsFields "rstr option"
  | UnknownType rstr
  | NeedsWidth "rstr option"
  | NeedsFormat "rstr option"
  | NeedsDigits "rstr option"
  | UnknownJustify rstr
  | EmptyPad
  | UnknownSign rstr
  | InvalidMultiSpec
  | DiscriminatorWidth
  | NoRecordTypes
  | DefaultNotInRecords rstr

text \<open>I/O errors: of the operating system, labelled by a reader, and the two size limits.\<close>

datatype (plugins only: code size) io_error =
    Interrupted
  | IoFailure rstr
  | Labelled rstr io_error
  | LimitExceeded nat
  | RecordTooBig nat

datatype (plugins only: code size) stream_error =
    FixedZero
  | FixedMultiple nat nat
  | DescriptorTruncated
  | DescriptorInvalid nat
  | RdwOverrun nat nat
  | BdwOverrun nat nat
  | RdwOverrunsBlock nat nat
  | RecordLengthMax nat nat
  | FixedPartial nat nat
  | ReadError io_error
  | CodecError rstr io_error

datatype (plugins only: code size) error =
    UnknownEncoding rstr
  | UnknownFraming rstr
  | UnknownCompression rstr
  | UnknownSpecFormat rstr
  | RecordTooShort nat nat
  | PackedEmpty
  | PackedBadDigit nat
  | PackedOverflow
  | PackedBadSign nat
  | PackedZeroWidth
  | PackedNoFit int nat
  | ZonedEmpty
  | ZonedBadDigit byte
  | ZonedOverflow
  | ZonedBadOverpunch byte
  | ZonedZeroWidth
  | ZonedNoFit int nat
  | FieldOverrun nat nat
  | OdoNotDecoded rstr
  | OdoNegative rstr int
  | OdoExceeds rstr int nat
  | OccursZero nat
  | InvalidNumeric rstr
  | InvalidDecimal rstr
  | BinaryWidth nat
  | FloatBytes nat
  | FloatWidth nat
  | InvalidEdited rstr
  | MissingFields "rstr list" "rstr list"
  | ExpectsList rstr
  | ExpectsStruct rstr
  | HexExpectsText
  | TextNoFit nat nat
  | NotInteger rstr
  | ExpectedInteger
  | ExpectedFloat
  | ExpectedDecimal
  | WidthForSign
  | NegativeUnsigned
  | DecimalNoFit nat
  | DigitsNoFit rstr nat
  | HexOdd
  | HexDigit rchar
  | HexNoFit nat nat
  | EditedFloating rstr
  | EditedNoFit int nat rstr
  | EditedChar rchar rstr
  | CannotParse rstr rstr bytes rstr
  | DateRange rstr int
  | TimeRange rstr int
  | TimestampRange rstr int
  | ExpectedTemporal rstr
  | FormattedNoFit rstr nat nat
  | Spec spec_error
  | RecordType rstr error
  | DiscriminatorShort nat nat nat
  | UnknownRecordType rstr
  | StreamErr stream_error
  | Panic string

abbreviation Ok :: "'a \<Rightarrow> error + 'a" where
  "Ok \<equiv> Inr"

abbreviation Err :: "error \<Rightarrow> error + 'a" where
  "Err \<equiv> Inl"

text \<open>The \<open>?\<close> operator: continue with the value, or return the error.\<close>

definition rbind :: "'e + 'a \<Rightarrow> ('a \<Rightarrow> 'e + 'b) \<Rightarrow> 'e + 'b" where
  "rbind r f = (case r of Inl e \<Rightarrow> Inl e | Inr a \<Rightarrow> f a)"

lemma rbind_Inl [simp, result_simps]: "rbind (Inl e) f = Inl e"
  by (simp add: rbind_def)

lemma rbind_Inr [simp, result_simps]: "rbind (Inr a) f = f a"
  by (simp add: rbind_def)

lemma rbind_eq_Inr_iff: "rbind r f = Inr b \<longleftrightarrow> (\<exists>a. r = Inr a \<and> f a = Inr b)"
  by (cases r) simp_all

lemma rbind_InrE [elim!]:
  assumes "rbind r f = Inr b"
  obtains a where "r = Inr a" and "f a = Inr b"
  using assms by (auto simp: rbind_eq_Inr_iff)

lemma rbind_cong [fundef_cong]:
  "r = r' \<Longrightarrow> (\<And>a. r' = Inr a \<Longrightarrow> f a = f' a) \<Longrightarrow> rbind r f = rbind r' f'"
  by (cases r') simp_all

text \<open>\<open>r.map_err(g)\<close>\<close>

definition map_err :: "('e \<Rightarrow> 'f) \<Rightarrow> 'e + 'a \<Rightarrow> 'f + 'a" where
  "map_err g r = (case r of Inl e \<Rightarrow> Inl (g e) | Inr a \<Rightarrow> Inr a)"

text \<open>\<open>opt.ok_or(e)\<close>\<close>

definition ok_or :: "'a option \<Rightarrow> 'e \<Rightarrow> 'e + 'a" where
  "ok_or x e = (case x of None \<Rightarrow> Inl e | Some a \<Rightarrow> Inr a)"

lemma ok_or_simps [simp, result_simps]:
  "ok_or None e = Inl e" "ok_or (Some a) e = Inr a"
  by (simp_all add: ok_or_def)

lemma ok_or_eq_Inr_iff [simp]: "ok_or x e = Inr a \<longleftrightarrow> x = Some a"
  by (cases x) simp_all

definition rmap_value :: "('a \<Rightarrow> 'b) \<Rightarrow> 'e + 'a \<Rightarrow> 'e + 'b" where
  "rmap_value f r = rbind r (\<lambda>a. Inr (f a))"

lemma rmap_value_simps [simp, result_simps]:
  "rmap_value f (Inl e) = Inl e" "rmap_value f (Inr a) = Inr (f a)"
  by (simp_all add: rmap_value_def)

lemma rmap_value_eq_Inr_iff [simp]: "rmap_value f r = Inr b \<longleftrightarrow> (\<exists>a. r = Inr a \<and> b = f a)"
  by (cases r) auto

text \<open>\<open>iter().map(f).collect::<Result<Vec<_>>>()\<close>: the first error wins.\<close>

fun rmap :: "('a \<Rightarrow> 'e + 'b) \<Rightarrow> 'a list \<Rightarrow> 'e + 'b list" where
  "rmap f [] = Inr []"
| "rmap f (x # xs) = rbind (f x) (\<lambda>y. rbind (rmap f xs) (\<lambda>ys. Inr (y # ys)))"

lemma rmap_append:
  "rmap f (xs @ ys) = rbind (rmap f xs) (\<lambda>as. rbind (rmap f ys) (\<lambda>bs. Inr (as @ bs)))"
  by (induction xs) (auto simp: rbind_def split: sum.splits)

lemma rmap_length: "rmap f xs = Inr ys \<Longrightarrow> length ys = length xs"
  by (induction xs arbitrary: ys) auto

lemma rmap_nth: "rmap f xs = Inr ys \<Longrightarrow> i < length xs \<Longrightarrow> f (xs ! i) = Inr (ys ! i)"
  by (induction xs arbitrary: ys i) (auto simp: nth_Cons split: nat.splits)

lemma rmap_eq_map: "(\<And>x. x \<in> set xs \<Longrightarrow> f x = Inr (g x)) \<Longrightarrow> rmap f xs = Inr (map g xs)"
  by (induction xs) auto

lemma rmap_cong [fundef_cong]:
  "xs = ys \<Longrightarrow> (\<And>x. x \<in> set ys \<Longrightarrow> f x = g x) \<Longrightarrow> rmap f xs = rmap g ys"
  by (induction ys arbitrary: xs) auto

section \<open>Fixed-width signed integers\<close>

text \<open>
  \<open>i64\<close> and \<open>i128\<close> values are \<open>int\<close>s in range. Checked operations return \<open>None\<close>
  outside the range; the unchecked operators of the release build wrap.
\<close>

definition in_i64 :: "int \<Rightarrow> bool" where
  "in_i64 x \<longleftrightarrow> - (2 ^ 63) \<le> x \<and> x < 2 ^ 63"

definition in_i128 :: "int \<Rightarrow> bool" where
  "in_i128 x \<longleftrightarrow> - (2 ^ 127) \<le> x \<and> x < 2 ^ 127"

definition wrap_i64 :: "int \<Rightarrow> int" where
  "wrap_i64 x = (x + 2 ^ 63) mod 2 ^ 64 - 2 ^ 63"

definition wrap_i128 :: "int \<Rightarrow> int" where
  "wrap_i128 x = (x + 2 ^ 127) mod 2 ^ 128 - 2 ^ 127"

definition checked_i128 :: "int \<Rightarrow> int option" where
  "checked_i128 x = (if in_i128 x then Some x else None)"

lemma wrap_i64_in: "in_i64 (wrap_i64 x)"
  by (simp add: in_i64_def wrap_i64_def)

lemma wrap_i128_in: "in_i128 (wrap_i128 x)"
  by (simp add: in_i128_def wrap_i128_def)

lemma wrap_i64_id [simp]: "in_i64 x \<Longrightarrow> wrap_i64 x = x"
  by (simp add: in_i64_def wrap_i64_def)

lemma wrap_i128_id [simp]: "in_i128 x \<Longrightarrow> wrap_i128 x = x"
  by (simp add: in_i128_def wrap_i128_def)

lemma checked_i128_Some [simp]: "in_i128 x \<Longrightarrow> checked_i128 x = Some x"
  by (simp add: checked_i128_def)

lemma in_i64_i128: "in_i64 x \<Longrightarrow> in_i128 x"
  by (simp add: in_i64_def in_i128_def)

section \<open>Lists\<close>

text \<open>\<open>bytes.get(at..at + width)\<close>\<close>

definition get_slice :: "'a list \<Rightarrow> nat \<Rightarrow> nat \<Rightarrow> 'a list option" where
  "get_slice xs i w = (if i + w \<le> length xs then Some (take w (drop i xs)) else None)"

lemma get_slice_length: "get_slice xs i w = Some ys \<Longrightarrow> length ys = w"
  by (auto simp: get_slice_def split: if_splits)

lemma get_slice_append1:
  "i + w \<le> length xs \<Longrightarrow> get_slice (xs @ ys) i w = get_slice xs i w"
  by (simp add: get_slice_def)

lemma get_slice_exact: "length b = w \<Longrightarrow> length a = i \<Longrightarrow> get_slice (a @ b @ c) i w = Some b"
  by (simp add: get_slice_def)

lemma list_all_byte_take: "list_all P xs \<Longrightarrow> list_all P (take n xs)"
  by (simp add: list_all_iff) (meson in_set_takeD)

end
