(* ===== verification/RustStr.thy ===== *)
theory RustStr
  imports Prelude
begin

text \<open>
  The part of Rust's \<open>str\<close> and integer parsing that the code uses: UTF-8 encoding
  (\<open>as_bytes\<close>), lossy decoding (\<open>String::from_utf8_lossy\<close>, one U+FFFD per maximal invalid
  prefix), white space (\<open>char::is_whitespace\<close>), trimming, splitting, ASCII case mapping,
  \<open>to_string\<close> and \<open>parse\<close> of integers. A string is the list of its scalar values.
\<close>

section \<open>Character classes\<close>

definition is_ascii_digit :: "rchar \<Rightarrow> bool" where
  "is_ascii_digit c \<longleftrightarrow> ch CHR ''0'' \<le> c \<and> c \<le> ch CHR ''9''"

definition is_ascii_upper :: "rchar \<Rightarrow> bool" where
  "is_ascii_upper c \<longleftrightarrow> ch CHR ''A'' \<le> c \<and> c \<le> ch CHR ''Z''"

definition is_ascii_lower :: "rchar \<Rightarrow> bool" where
  "is_ascii_lower c \<longleftrightarrow> ch CHR ''a'' \<le> c \<and> c \<le> ch CHR ''z''"

text \<open>The Unicode property White_Space.\<close>

definition is_white :: "rchar \<Rightarrow> bool" where
  "is_white c \<longleftrightarrow> (9 \<le> c \<and> c \<le> 13) \<or> c = 32 \<or> c = 0x85 \<or> c = 0xA0 \<or> c = 0x1680
     \<or> (0x2000 \<le> c \<and> c \<le> 0x200A) \<or> c = 0x2028 \<or> c = 0x2029 \<or> c = 0x202F \<or> c = 0x205F
     \<or> c = 0x3000"

definition upper_char :: "rchar \<Rightarrow> rchar" where
  "upper_char c = (if is_ascii_lower c then c - 32 else c)"

definition lower_char :: "rchar \<Rightarrow> rchar" where
  "lower_char c = (if is_ascii_upper c then c + 32 else c)"

definition to_ascii_uppercase :: "rstr \<Rightarrow> rstr" where
  "to_ascii_uppercase s = map upper_char s"

definition to_ascii_lowercase :: "rstr \<Rightarrow> rstr" where
  "to_ascii_lowercase s = map lower_char s"

definition eq_ignore_ascii_case :: "rstr \<Rightarrow> rstr \<Rightarrow> bool" where
  "eq_ignore_ascii_case s t \<longleftrightarrow> to_ascii_lowercase s = to_ascii_lowercase t"

lemma eq_ignore_ascii_case_refl [simp]: "eq_ignore_ascii_case s s"
  by (simp add: eq_ignore_ascii_case_def)

lemma eq_ignore_ascii_case_sym: "eq_ignore_ascii_case s t = eq_ignore_ascii_case t s"
  by (auto simp: eq_ignore_ascii_case_def)

lemma eq_ignore_ascii_case_trans:
  "eq_ignore_ascii_case s t \<Longrightarrow> eq_ignore_ascii_case t u \<Longrightarrow> eq_ignore_ascii_case s u"
  by (simp add: eq_ignore_ascii_case_def)

lemma lower_char_eq_iff_upper_char_eq: "lower_char c = lower_char d \<longleftrightarrow> upper_char c = upper_char d"
  by (auto simp: lower_char_def upper_char_def is_ascii_upper_def is_ascii_lower_def)

lemma upper_eq_iff: "to_ascii_uppercase s = to_ascii_uppercase t \<longleftrightarrow> eq_ignore_ascii_case s t"
proof -
  have "map upper_char s = map upper_char t \<longleftrightarrow> map lower_char s = map lower_char t"
    by (induction s t rule: list_induct2') (auto simp: lower_char_eq_iff_upper_char_eq)
  then show ?thesis
    by (simp add: eq_ignore_ascii_case_def to_ascii_uppercase_def to_ascii_lowercase_def)
qed

section \<open>Trimming, prefixes and splitting\<close>

definition trim_start_by :: "(rchar \<Rightarrow> bool) \<Rightarrow> rstr \<Rightarrow> rstr" where
  "trim_start_by p s = dropWhile p s"

definition trim_end_by :: "(rchar \<Rightarrow> bool) \<Rightarrow> rstr \<Rightarrow> rstr" where
  "trim_end_by p s = rev (dropWhile p (rev s))"

definition trim_start :: "rstr \<Rightarrow> rstr" where
  "trim_start s = trim_start_by is_white s"

definition trim_end :: "rstr \<Rightarrow> rstr" where
  "trim_end s = trim_end_by is_white s"

definition trim :: "rstr \<Rightarrow> rstr" where
  "trim s = trim_end (trim_start s)"

definition starts_with :: "rstr \<Rightarrow> rstr \<Rightarrow> bool" where
  "starts_with p s \<longleftrightarrow> take (length p) s = p"

definition ends_with :: "rstr \<Rightarrow> rstr \<Rightarrow> bool" where
  "ends_with p s \<longleftrightarrow> length p \<le> length s \<and> drop (length s - length p) s = p"

definition strip_prefix :: "rstr \<Rightarrow> rstr \<Rightarrow> rstr option" where
  "strip_prefix p s = (if starts_with p s then Some (drop (length p) s) else None)"

definition strip_suffix :: "rstr \<Rightarrow> rstr \<Rightarrow> rstr option" where
  "strip_suffix p s = (if ends_with p s then Some (take (length s - length p) s) else None)"

text \<open>\<open>split_whitespace\<close>: the maximal runs of characters that are not white space.\<close>

function split_whitespace :: "rstr \<Rightarrow> rstr list" where
  "split_whitespace s =
     (let t = dropWhile is_white s in
      if t = [] then []
      else takeWhile (\<lambda>c. \<not> is_white c) t # split_whitespace (dropWhile (\<lambda>c. \<not> is_white c) t))"
  by pat_completeness auto
termination
proof (relation "measure length")
  fix s t
  assume t: "t = dropWhile is_white s" and ne: "t \<noteq> []"
  have "\<not> is_white (hd t)"
    using t ne hd_dropWhile by blast
  then have "length (dropWhile (\<lambda>c. \<not> is_white c) t) < length t"
    using ne by (cases t) (simp_all add: length_dropWhile_le le_imp_less_Suc)
  also have "length t \<le> length s"
    by (simp add: t length_dropWhile_le)
  finally show "(dropWhile (\<lambda>c. \<not> is_white c) t, s) \<in> measure length"
    by simp
qed simp

declare split_whitespace.simps [simp del]

lemma trim_end_by_no: "s = [] \<or> \<not> p (last s) \<Longrightarrow> trim_end_by p s = s"
  by (cases s rule: rev_cases) (auto simp: trim_end_by_def)

lemma trim_start_by_no: "s = [] \<or> \<not> p (hd s) \<Longrightarrow> trim_start_by p s = s"
  by (cases s) (auto simp: trim_start_by_def)

lemma trim_none_white: "(\<forall>c \<in> set s. \<not> is_white c) \<Longrightarrow> trim s = s"
  unfolding trim_def trim_start_def trim_end_def
  by (cases "s = []") (simp_all add: trim_start_by_no trim_end_by_no)

lemma ends_with_append: "ends_with p (s @ p)"
  by (simp add: ends_with_def)

lemma ends_with_iff: "ends_with p s \<longleftrightarrow> (\<exists>r. s = r @ p)"
  by (auto simp: ends_with_def) (metis append_take_drop_id)

lemma ends_with_Cons2:
  "ends_with [a, b] (c # cs) \<longleftrightarrow> cs = [b] \<and> c = a \<or> ends_with [a, b] cs"
  by (auto simp: ends_with_iff Cons_eq_append_conv)

lemma trim_lead:
  assumes "\<not> is_white c" shows "\<exists>r. trim (c # s) = c # r"
proof -
  have "trim (c # s) = rev (dropWhile is_white (rev s @ [c]))"
    using assms by (simp add: trim_def trim_start_def trim_start_by_def trim_end_def trim_end_by_def)
  then show ?thesis
    using assms by (simp add: dropWhile_append3)
qed

lemma trim_last:
  assumes "\<not> is_white c" shows "\<exists>r. trim (s @ [c]) = r @ [c]"
  using assms
  by (simp add: trim_def trim_start_def trim_start_by_def trim_end_def trim_end_by_no dropWhile_append3)

lemma trim_set: "set (trim s) \<subseteq> set s"
  by (auto simp: trim_def trim_start_def trim_start_by_def trim_end_def trim_end_by_def dest!: set_dropWhileD)

lemma dropWhile_replicate_append: "p c \<Longrightarrow> dropWhile p (replicate n c @ s) = dropWhile p s"
  by (induction n) simp_all

lemma trim_end_by_replicate: "p c \<Longrightarrow> trim_end_by p (s @ replicate n c) = trim_end_by p s"
  by (simp add: trim_end_by_def dropWhile_replicate_append)

lemma trim_start_by_replicate: "p c \<Longrightarrow> trim_start_by p (replicate n c @ s) = trim_start_by p s"
  by (simp add: trim_start_by_def dropWhile_replicate_append)

section \<open>UTF-8\<close>

definition is_cont :: "byte \<Rightarrow> bool" where
  "is_cont b \<longleftrightarrow> 0x80 \<le> unat b \<and> unat b \<le> 0xBF"

definition replacement :: rchar where
  "replacement = 0xFFFD"

definition is_scalar :: "rchar \<Rightarrow> bool" where
  "is_scalar c \<longleftrightarrow> c < 0xD800 \<or> (0xE000 \<le> c \<and> c < 0x110000)"

definition encode_char :: "rchar \<Rightarrow> bytes" where
  "encode_char c =
     (if c < 0x80 then [byte_of c]
      else if c < 0x800 then [byte_of (0xC0 + c div 0x40), byte_of (0x80 + c mod 0x40)]
      else if c < 0x10000 then
        [byte_of (0xE0 + c div 0x1000), byte_of (0x80 + c div 0x40 mod 0x40),
         byte_of (0x80 + c mod 0x40)]
      else
        [byte_of (0xF0 + c div 0x40000), byte_of (0x80 + c div 0x1000 mod 0x40),
         byte_of (0x80 + c div 0x40 mod 0x40), byte_of (0x80 + c mod 0x40)])"

definition utf8 :: "rstr \<Rightarrow> bytes" where
  "utf8 s = concat (map encode_char s)"

text \<open>The bytes a second byte must lie in, after a three- or four-byte lead.\<close>

definition second_of_three :: "byte \<Rightarrow> byte \<Rightarrow> bool" where
  "second_of_three a b \<longleftrightarrow>
     (if unat a = 0xE0 then 0xA0 \<le> unat b \<and> unat b \<le> 0xBF
      else if unat a = 0xED then 0x80 \<le> unat b \<and> unat b \<le> 0x9F
      else is_cont b)"

definition second_of_four :: "byte \<Rightarrow> byte \<Rightarrow> bool" where
  "second_of_four a b \<longleftrightarrow>
     (if unat a = 0xF0 then 0x90 \<le> unat b \<and> unat b \<le> 0xBF
      else if unat a = 0xF4 then 0x80 \<le> unat b \<and> unat b \<le> 0x8F
      else is_cont b)"

fun utf8_lossy :: "bytes \<Rightarrow> rstr" where
  "utf8_lossy [] = []"
| "utf8_lossy (a # bs) =
     (let n = unat a in
      if n < 0x80 then n # utf8_lossy bs
      else if 0xC2 \<le> n \<and> n \<le> 0xDF then
        (case bs of
           b # cs \<Rightarrow> if is_cont b then ((n - 0xC0) * 0x40 + (unat b - 0x80)) # utf8_lossy cs
                     else replacement # utf8_lossy bs
         | [] \<Rightarrow> [replacement])
      else if 0xE0 \<le> n \<and> n \<le> 0xEF then
        (case bs of
           b # cs \<Rightarrow>
             if second_of_three a b then
               (case cs of
                  c # ds \<Rightarrow>
                    if is_cont c
                    then ((n - 0xE0) * 0x1000 + (unat b - 0x80) * 0x40 + (unat c - 0x80))
                           # utf8_lossy ds
                    else replacement # utf8_lossy cs
                | [] \<Rightarrow> [replacement])
             else replacement # utf8_lossy bs
         | [] \<Rightarrow> [replacement])
      else if 0xF0 \<le> n \<and> n \<le> 0xF4 then
        (case bs of
           b # cs \<Rightarrow>
             if second_of_four a b then
               (case cs of
                  c # ds \<Rightarrow>
                    if is_cont c then
                      (case ds of
                         d # es \<Rightarrow>
                           if is_cont d
                           then ((n - 0xF0) * 0x40000 + (unat b - 0x80) * 0x1000
                                  + (unat c - 0x80) * 0x40 + (unat d - 0x80)) # utf8_lossy es
                           else replacement # utf8_lossy ds
                       | [] \<Rightarrow> [replacement])
                    else replacement # utf8_lossy cs
                | [] \<Rightarrow> [replacement])
             else replacement # utf8_lossy bs
         | [] \<Rightarrow> [replacement])
      else replacement # utf8_lossy bs)"

declare utf8_lossy.simps(2) [simp del]

lemma utf8_Nil [simp]: "utf8 [] = []"
  by (simp add: utf8_def)

lemma utf8_Cons: "utf8 (c # s) = encode_char c @ utf8 s"
  by (simp add: utf8_def)

lemma utf8_append [simp]: "utf8 (s @ t) = utf8 s @ utf8 t"
  by (simp add: utf8_def)

text \<open>ASCII text is one byte per character, both ways.\<close>

definition is_ascii :: "rstr \<Rightarrow> bool" where
  "is_ascii s \<longleftrightarrow> (\<forall>c \<in> set s. c < 0x80)"

definition ascii_bytes :: "bytes \<Rightarrow> bool" where
  "ascii_bytes bs \<longleftrightarrow> (\<forall>b \<in> set bs. unat b < 0x80)"

lemma utf8_ascii: "is_ascii s \<Longrightarrow> utf8 s = map byte_of s"
  by (induction s) (auto simp: is_ascii_def utf8_Cons encode_char_def)

lemma length_utf8_ascii: "is_ascii s \<Longrightarrow> length (utf8 s) = length s"
  by (simp add: utf8_ascii)

lemma utf8_lossy_ascii: "ascii_bytes bs \<Longrightarrow> utf8_lossy bs = map unat bs"
  by (induction bs) (auto simp: ascii_bytes_def utf8_lossy.simps(2) Let_def)

lemma utf8_lossy_ascii_append:
  "ascii_bytes bs \<Longrightarrow> utf8_lossy (bs @ cs) = map unat bs @ utf8_lossy cs"
  by (induction bs) (auto simp: ascii_bytes_def utf8_lossy.simps(2) Let_def)

lemma utf8_lossy_two:
  "2 \<le> x \<Longrightarrow> x < 32 \<Longrightarrow> y < 64 \<Longrightarrow>
   utf8_lossy (byte_of (0xC0 + x) # byte_of (0x80 + y) # bs) = (x * 0x40 + y) # utf8_lossy bs"
  by (simp add: utf8_lossy.simps(2) is_cont_def Let_def)

lemma utf8_lossy_three:
  assumes "x < 16" "y < 64" "z < 64" and "x = 0 \<Longrightarrow> 32 \<le> y" and "x = 13 \<Longrightarrow> y < 32"
  shows "utf8_lossy (byte_of (0xE0 + x) # byte_of (0x80 + y) # byte_of (0x80 + z) # bs)
           = (x * 0x1000 + y * 0x40 + z) # utf8_lossy bs"
proof -
  have "second_of_three (byte_of (0xE0 + x)) (byte_of (0x80 + y))"
    using assms by (auto simp: second_of_three_def is_cont_def)
  then show ?thesis
    using assms(1-3) by (simp add: utf8_lossy.simps(2) is_cont_def Let_def)
qed

lemma utf8_lossy_four:
  assumes "x \<le> 4" "y < 64" "z < 64" "w < 64" and "x = 0 \<Longrightarrow> 16 \<le> y" and "x = 4 \<Longrightarrow> y < 16"
  shows "utf8_lossy (byte_of (0xF0 + x) # byte_of (0x80 + y) # byte_of (0x80 + z)
             # byte_of (0x80 + w) # bs)
           = (x * 0x40000 + y * 0x1000 + z * 0x40 + w) # utf8_lossy bs"
proof -
  have "second_of_four (byte_of (0xF0 + x)) (byte_of (0x80 + y))"
    using assms by (auto simp: second_of_four_def is_cont_def)
  then show ?thesis
    using assms(1-4) by (simp add: utf8_lossy.simps(2) is_cont_def Let_def)
qed

text \<open>Six-bit groups put back together.\<close>

lemma six_bits:
  fixes c :: nat
  shows "c div 0x40 * 0x40 + c mod 0x40 = c"
    and "c div 0x1000 * 0x1000 + c div 0x40 mod 0x40 * 0x40 + c mod 0x40 = c"
    and "c div 0x40000 * 0x40000 + c div 0x1000 mod 0x40 * 0x1000 + c div 0x40 mod 0x40 * 0x40
           + c mod 0x40 = c"
proof -
  have d: "c div 0x40 div 0x40 = c div 0x1000" "c div 0x1000 div 0x40 = c div 0x40000"
    by (simp_all add: div_mult2_eq [symmetric])
  note e = div_mult_mod_eq [of c "0x40"] div_mult_mod_eq [of "c div 0x40" "0x40"]
    div_mult_mod_eq [of "c div 0x1000" "0x40"]
  show "c div 0x40 * 0x40 + c mod 0x40 = c" by simp
  show "c div 0x1000 * 0x1000 + c div 0x40 mod 0x40 * 0x40 + c mod 0x40 = c"
    using e(1,2) unfolding d by linarith
  show "c div 0x40000 * 0x40000 + c div 0x1000 mod 0x40 * 0x1000 + c div 0x40 mod 0x40 * 0x40
           + c mod 0x40 = c"
    using e unfolding d by linarith
qed

lemma utf8_lossy_encode_char:
  assumes "is_scalar c"
  shows "utf8_lossy (encode_char c @ bs) = c # utf8_lossy bs"
proof -
  consider "c < 0x80" | "0x80 \<le> c" "c < 0x800" | "0x800 \<le> c" "c < 0x10000"
    | "0x10000 \<le> c" "c < 0x110000"
    using assms unfolding is_scalar_def by linarith
  then show ?thesis
  proof cases
    case 1
    then show ?thesis by (simp add: encode_char_def utf8_lossy.simps(2) Let_def)
  next
    case 2
    have "2 \<le> c div 0x40" "c div 0x40 < 32" "c mod 0x40 < 0x40"
      using 2 by (simp_all add: div_less_iff_less_mult less_eq_div_iff_mult_less_eq)
    from utf8_lossy_two [OF this] 2 show ?thesis
      by (simp add: encode_char_def six_bits)
  next
    case 3
    let ?x = "c div 0x1000" and ?y = "c div 0x40 mod 0x40" and ?z = "c mod 0x40"
    note e = six_bits(2) [of c]
    have b: "?x < 16" "?y < 64" "?z < 64"
      using 3 by (simp_all add: div_less_iff_less_mult)
    have s: "32 \<le> ?y" if "?x = 0"
      using that 3 b e by simp
    have t: "?y < 32" if "?x = 13"
      using that assms 3 b e unfolding is_scalar_def by auto
    from utf8_lossy_three [OF b s t] 3 show ?thesis
      by (simp add: encode_char_def six_bits)
  next
    case 4
    let ?x = "c div 0x40000" and ?y = "c div 0x1000 mod 0x40" and ?z = "c div 0x40 mod 0x40"
      and ?w = "c mod 0x40"
    note e = six_bits(3) [of c]
    have "?x < 5"
      using 4 by (simp add: div_less_iff_less_mult)
    then have b: "?x \<le> 4" "?y < 64" "?z < 64" "?w < 64"
      by simp_all
    have s: "16 \<le> ?y" if "?x = 0"
      using that 4 b e by simp
    have t: "?y < 16" if "?x = 4"
      using that 4 b e by simp
    from utf8_lossy_four [OF b s t] 4 show ?thesis
      by (simp add: encode_char_def six_bits)
  qed
qed

lemma utf8_lossy_utf8_append:
  "(\<forall>c \<in> set s. is_scalar c) \<Longrightarrow> utf8_lossy (utf8 s @ bs) = s @ utf8_lossy bs"
  by (induction s) (simp_all add: utf8_Cons utf8_lossy_encode_char)

lemma utf8_lossy_utf8: "(\<forall>c \<in> set s. is_scalar c) \<Longrightarrow> utf8_lossy (utf8 s) = s"
  using utf8_lossy_utf8_append [of s "[]"] by simp

text \<open>Lossy decoding gives Unicode scalars, and never less text than bytes.\<close>

lemma encode_char_lengths:
  "length (encode_char c) = (if c < 0x80 then 1 else if c < 0x800 then 2 else if c < 0x10000 then 3 else 4)"
  by (simp add: encode_char_def)

lemma lossy_two:
  assumes "0xC2 \<le> n" "n \<le> 0xDF" "is_cont b"
  defines "c \<equiv> (n - 0xC0) * 0x40 + (unat b - 0x80)"
  shows "is_scalar c \<and> length (encode_char c) = 2"
proof -
  have "2 * 0x40 \<le> (n - 0xC0) * 0x40" "(n - 0xC0) * 0x40 \<le> 31 * 0x40" "unat b - 0x80 < 0x40"
    using assms(1-3) by (auto simp: is_cont_def)
  then have "0x80 \<le> c" "c < 0x800"
    unfolding c_def by linarith+
  then show ?thesis
    by (simp add: is_scalar_def encode_char_lengths)
qed

lemma lossy_three:
  assumes "0xE0 \<le> unat a" "unat a \<le> 0xEF" "second_of_three a b" "is_cont d"
  defines "c \<equiv> (unat a - 0xE0) * 0x1000 + (unat b - 0x80) * 0x40 + (unat d - 0x80)"
  shows "is_scalar c \<and> length (encode_char c) = 3"
proof -
  obtain x y z where w: "unat a = 0xE0 + x" "unat b = 0x80 + y" "unat d = 0x80 + z" "x \<le> 15" "y < 64" "z < 64"
    "x = 0 \<Longrightarrow> 32 \<le> y" "x = 13 \<Longrightarrow> y < 32"
    using assms(1-4) by (intro that [of "unat a - 0xE0" "unat b - 0x80" "unat d - 0x80"])
      (auto simp: second_of_three_def is_cont_def split: if_splits)
  then have c: "c = x * 0x1000 + y * 0x40 + z"
    by (simp add: c_def)
  consider "x = 0" | "1 \<le> x" "x \<le> 12" | "x = 13" | "14 \<le> x"
    by linarith
  then have "0x800 \<le> c \<and> c < 0x10000 \<and> (c < 0xD800 \<or> 0xE000 \<le> c)"
    using w(4-8) unfolding c by cases simp_all
  then show ?thesis
    by (simp add: is_scalar_def encode_char_lengths)
qed

lemma lossy_four:
  assumes "0xF0 \<le> unat a" "unat a \<le> 0xF4" "second_of_four a b" "is_cont d" "is_cont e"
  defines "c \<equiv> (unat a - 0xF0) * 0x40000 + (unat b - 0x80) * 0x1000 + (unat d - 0x80) * 0x40 + (unat e - 0x80)"
  shows "is_scalar c \<and> length (encode_char c) = 4"
proof -
  obtain x y z w where w: "unat a = 0xF0 + x" "unat b = 0x80 + y" "unat d = 0x80 + z" "unat e = 0x80 + w"
    "x \<le> 4" "y < 64" "z < 64" "w < 64" "x = 0 \<Longrightarrow> 16 \<le> y" "x = 4 \<Longrightarrow> y < 16"
    using assms(1-5) by (intro that [of "unat a - 0xF0" "unat b - 0x80" "unat d - 0x80" "unat e - 0x80"])
      (auto simp: second_of_four_def is_cont_def split: if_splits)
  then have c: "c = x * 0x40000 + y * 0x1000 + z * 0x40 + w"
    by (simp add: c_def)
  consider "x = 0" | "1 \<le> x" "x \<le> 3" | "x = 4"
    using w(5) by linarith
  then have "0x10000 \<le> c \<and> c < 0x110000"
    using w(5-10) unfolding c by cases simp_all
  then show ?thesis
    by (simp add: is_scalar_def encode_char_lengths)
qed

text \<open>Each character of the text comes from at most as many bytes as it is encoded in.\<close>

definition lossy_char :: "rchar \<Rightarrow> nat \<Rightarrow> bool" where
  "lossy_char c k \<longleftrightarrow> is_scalar c \<and> k \<le> length (encode_char c)"

lemma lossy_char_replacement: "k \<le> 3 \<Longrightarrow> lossy_char replacement k"
  by (simp add: lossy_char_def replacement_def is_scalar_def encode_char_lengths)

lemma lossy_step:
  "\<exists>c k. utf8_lossy (a # bs) = c # utf8_lossy (drop k bs) \<and> k \<le> length bs \<and> lossy_char c (Suc k)"
proof -
  let ?P = "\<lambda>c k. utf8_lossy (a # bs) = c # utf8_lossy (drop k bs) \<and> k \<le> length bs \<and> lossy_char c (Suc k)"
  note r = lossy_char_replacement
  consider (one) "unat a < 0x80" | (two) "0xC2 \<le> unat a" "unat a \<le> 0xDF" | (three) "0xE0 \<le> unat a" "unat a \<le> 0xEF"
    | (four) "0xF0 \<le> unat a" "unat a \<le> 0xF4" | (bad) "0x80 \<le> unat a" "unat a < 0xC2 \<or> 0xF4 < unat a"
    by linarith
  then show ?thesis
  proof cases
    case one
    then have "?P (unat a) 0"
      by (simp add: utf8_lossy.simps(2) lossy_char_def is_scalar_def encode_char_lengths)
    then show ?thesis by blast
  next
    case two
    have "?P replacement 0 \<or> (\<exists>c. ?P c 1)"
      using two lossy_two [OF two] r
      by (cases bs) (auto simp: utf8_lossy.simps(2) [of a] Let_def lossy_char_def)
    then show ?thesis by blast
  next
    case three
    have "?P replacement 0 \<or> ?P replacement 1 \<or> (\<exists>c. ?P c 2)"
      using three lossy_three [OF three] r
      by (cases bs; cases "tl bs") (auto simp: utf8_lossy.simps(2) [of a] Let_def lossy_char_def)
    then show ?thesis by blast
  next
    case four
    have "?P replacement 0 \<or> ?P replacement 1 \<or> ?P replacement 2 \<or> (\<exists>c. ?P c 3)"
      using four lossy_four [OF four] r
      by (cases bs; cases "tl bs"; cases "tl (tl bs)") (auto simp: utf8_lossy.simps(2) [of a] Let_def lossy_char_def)
    then show ?thesis by blast
  next
    case bad
    then have "?P replacement 0"
      using r by (auto simp: utf8_lossy.simps(2) Let_def)
    then show ?thesis by blast
  qed
qed

lemma utf8_lossy_scalar: "list_all is_scalar (utf8_lossy bs)"
  and utf8_lossy_length: "length bs \<le> length (utf8 (utf8_lossy bs))"
proof -
  have "list_all is_scalar (utf8_lossy bs) \<and> length bs \<le> length (utf8 (utf8_lossy bs))"
  proof (induction "length bs" arbitrary: bs rule: less_induct)
    case less
    show ?case
    proof (cases bs)
      case (Cons a cs)
      obtain c k where step: "utf8_lossy bs = c # utf8_lossy (drop k cs)" "k \<le> length cs" "lossy_char c (Suc k)"
        using lossy_step [of a cs] Cons by blast
      then show ?thesis
        using less [of "drop k cs"] Cons le_trans [of "Suc (length cs)" "Suc k + (length cs - k)"]
        by (fastforce simp: lossy_char_def utf8_Cons)
    qed simp
  qed
  then show "list_all is_scalar (utf8_lossy bs)" "length bs \<le> length (utf8 (utf8_lossy bs))"
    by simp_all
qed

text \<open>Bytes come back from their lossy decoding exactly if they are UTF-8.\<close>

lemma utf8_lossy_exact: "utf8 (utf8_lossy bs) = bs \<longleftrightarrow> (\<exists>t. list_all is_scalar t \<and> utf8 t = bs)"
  using utf8_lossy_utf8 utf8_lossy_scalar [of bs] by (auto simp: list_all_iff)

section \<open>Decimal numerals\<close>

fun nat_str :: "nat \<Rightarrow> rstr" where
  "nat_str n = (if n < 10 then [ch CHR ''0'' + n] else nat_str (n div 10) @ [ch CHR ''0'' + n mod 10])"

declare nat_str.simps [simp del]

definition int_str :: "int \<Rightarrow> rstr" where
  "int_str i = (if i < 0 then ch CHR ''-'' # nat_str (nat (- i)) else nat_str (nat i))"

definition digits_val :: "rstr \<Rightarrow> nat" where
  "digits_val s = foldl (\<lambda>a c. 10 * a + (c - ch CHR ''0'')) 0 s"

text \<open>
  \<open>parse\<close> of the unsigned and signed integer types: an optional sign, then at least one digit,
  and the value must be in range.
\<close>

definition parse_digits :: "rstr \<Rightarrow> nat option" where
  "parse_digits s = (if s \<noteq> [] \<and> list_all is_ascii_digit s then Some (digits_val s) else None)"

definition parse_unsigned :: "nat \<Rightarrow> rstr \<Rightarrow> nat option" where
  "parse_unsigned hi s =
     (case parse_digits (if starts_with (lit ''+'') s then tl s else s) of
        Some n \<Rightarrow> if n \<le> hi then Some n else None
      | None \<Rightarrow> None)"

definition parse_signed :: "int \<Rightarrow> int \<Rightarrow> rstr \<Rightarrow> int option" where
  "parse_signed lo hi s =
     (if starts_with (lit ''-'') s then
        (case parse_digits (tl s) of
           Some n \<Rightarrow> if lo \<le> - int n then Some (- int n) else None
         | None \<Rightarrow> None)
      else
        (case parse_digits (if starts_with (lit ''+'') s then tl s else s) of
           Some n \<Rightarrow> if int n \<le> hi then Some (int n) else None
         | None \<Rightarrow> None))"

definition parse_u8 :: "rstr \<Rightarrow> nat option" where
  "parse_u8 = parse_unsigned 255"

definition parse_usize :: "rstr \<Rightarrow> nat option" where
  "parse_usize = parse_unsigned (2 ^ 64 - 1)"

definition parse_i64 :: "rstr \<Rightarrow> int option" where
  "parse_i64 = parse_signed (- (2 ^ 63)) (2 ^ 63 - 1)"

definition parse_i128 :: "rstr \<Rightarrow> int option" where
  "parse_i128 = parse_signed (- (2 ^ 127)) (2 ^ 127 - 1)"

lemma digits_val_append: "digits_val (s @ [c]) = 10 * digits_val s + (c - ch CHR ''0'')"
  by (simp add: digits_val_def)

lemma digits_val_nat_str [simp]: "digits_val (nat_str n) = n"
proof (induction n rule: nat_str.induct)
  case (1 n)
  show ?case
  proof (cases "n < 10")
    case True
    then show ?thesis by (simp add: nat_str.simps digits_val_def)
  next
    case False
    then show ?thesis
      using 1 by (simp add: nat_str.simps [of n] digits_val_append)
  qed
qed

lemma nat_str_digits: "list_all is_ascii_digit (nat_str n)"
proof (induction n rule: nat_str.induct)
  case (1 n)
  then show ?case
    by (cases "n < 10") (simp_all add: nat_str.simps [of n] is_ascii_digit_def)
qed

lemma nat_str_ne [simp]: "nat_str n \<noteq> []"
  by (simp add: nat_str.simps [of n])

lemma length_nat_str_le: "0 < k \<Longrightarrow> length (nat_str n) \<le> k \<longleftrightarrow> n < 10 ^ k"
proof (induction k arbitrary: n)
  case (Suc k)
  show ?case
  proof (cases "k = 0")
    case True
    then show ?thesis
      by (simp add: nat_str.simps [of n])
  next
    case False
    have "1 \<le> (10::nat) ^ k" by simp
    then have "n < 10 \<longrightarrow> n < 10 * 10 ^ k" by linarith
    with False show ?thesis
      using Suc.IH [of "n div 10"] by (simp add: nat_str.simps [of n] div_less_iff_less_mult mult.commute)
  qed
qed simp

lemma digits_val_zeros [simp]: "digits_val (replicate k 48 @ s) = digits_val s"
  by (induction k) (simp_all add: digits_val_def)

lemma zeros_digits: "list_all is_ascii_digit (replicate k 48)"
  by (simp add: list_all_iff is_ascii_digit_def)

lemma parse_digits_nat_str [simp]: "parse_digits (replicate k 48 @ nat_str n) = Some n"
  using zeros_digits [of k] nat_str_digits [of n] by (simp add: parse_digits_def)

lemma digit_not_white: "is_ascii_digit c \<Longrightarrow> \<not> is_white c"
  by (simp add: is_ascii_digit_def is_white_def)

lemma digit_lt: "is_ascii_digit c \<Longrightarrow> c < 0x80"
  by (simp add: is_ascii_digit_def)

lemma digits_val_drop_zeros: "(\<forall>d \<in> set (take k ds). d = 48) \<Longrightarrow> k \<le> length ds \<Longrightarrow> digits_val (drop k ds) = digits_val ds"
proof -
  assume z: "\<forall>d \<in> set (take k ds). d = 48" and k: "k \<le> length ds"
  have "take k ds = replicate k 48"
    using z k by (intro replicate_eqI) auto
  then have "ds = replicate k 48 @ drop k ds"
    by (metis append_take_drop_id)
  then show ?thesis
    by (metis digits_val_zeros)
qed

lemma parse_i128_digits:
  "list_all is_ascii_digit s \<Longrightarrow> s \<noteq> [] \<Longrightarrow> digits_val s < 2 ^ 127 \<Longrightarrow> parse_i128 s = Some (int (digits_val s))"
  by (cases s) (auto simp: parse_i128_def parse_signed_def parse_digits_def starts_with_def is_ascii_digit_def)

lemma utf8_lossy_map_byte:
  assumes "is_ascii s" shows "utf8_lossy (map byte_of s) = s"
proof -
  have "map (unat \<circ> byte_of) s = s"
    using assms by (intro map_idI) (auto simp: is_ascii_def)
  moreover have "ascii_bytes (map byte_of s)"
    using assms by (auto simp: is_ascii_def ascii_bytes_def)
  ultimately show ?thesis
    by (simp add: utf8_lossy_ascii)
qed

end
