(* ===== verification/Layout.thy ===== *)
theory Layout
  imports RustStr
begin

text \<open>
  The shared data of the codecs: the layout tree that every spec front end produces
  (\<open>layout.rs\<close>), the decoded values (\<open>value.rs\<close>) and the byte encoding of a record
  (\<open>lib.rs\<close>). A \<open>usize\<close> is a natural number; a width, offset or count that overflows
  64 bits is outside the model. An \<open>f64\<close> is its bit pattern.
\<close>

section \<open>The layout tree\<close>

definition MAX_NESTING_DEPTH :: nat where
  "MAX_NESTING_DEPTH = 64"

datatype justify = JLeft | JRight

datatype endian = Big | Little

datatype num_repr = RDisplay | RComp3 | RZoned

datatype sign_kind = SUnsigned | SEmbedded | SLeading | STrailing

datatype date_time_kind = DDate | DTime | DTimestamp

datatype field =
    Field (f_name: rstr) (f_offset: nat) (f_width: nat) (f_kind: field_kind)
      (f_occurs: "nat option") (f_depending_on: "rstr option") (f_redefines: "rstr option")
and field_kind =
    KText justify bool byte
  | KInt bool sign_kind
  | KBinary endian bool
  | KFloat nat endian
  | KHex endian
  | KBool
  | KPad byte
  | KDecimal nat nat num_repr sign_kind
  | KEdited nat nat bool rstr
  | KGroup "field list"
  | KDateTime date_time_kind rstr

record layout =
  l_record_len :: nat
  l_fields :: "field list"
  l_variable :: bool

definition reserved_width :: "field \<Rightarrow> nat" where
  "reserved_width f =
     (if f_depending_on f \<noteq> None then 0
      else f_width f * (case f_occurs f of None \<Rightarrow> 1 | Some n \<Rightarrow> n))"

definition total_width :: "field \<Rightarrow> nat" where
  "total_width f = f_width f * (case f_occurs f of None \<Rightarrow> 1 | Some n \<Rightarrow> n)"

fun has_depending_on :: "field \<Rightarrow> bool" where
  "has_depending_on (Field nm off w k occ dep red) =
     (dep \<noteq> None \<or> (case k of KGroup children \<Rightarrow> list_ex has_depending_on children | _ \<Rightarrow> False))"

definition max_of :: "nat list \<Rightarrow> nat" where
  "max_of ns = foldr max ns 0"

definition from_fields :: "field list \<Rightarrow> error + layout" where
  "from_fields fs =
     Ok \<lparr> l_record_len = max_of (map (\<lambda>f. f_offset f + reserved_width f) fs),
          l_fields = fs,
          l_variable = list_ex has_depending_on fs \<rparr>"

definition check_record_len :: "layout \<Rightarrow> nat \<Rightarrow> error + unit" where
  "check_record_len l len =
     (if \<not> l_variable l \<and> len < l_record_len l then Err (RecordTooShort (l_record_len l) len) else Ok ())"

definition is_pad :: "field \<Rightarrow> bool" where
  "is_pad f = (case f_kind f of KPad _ \<Rightarrow> True | _ \<Rightarrow> False)"

section \<open>Classifying a spec string\<close>

definition detect_format :: "rstr \<Rightarrow> rstr" where
  "detect_format spec =
     (let trimmed = trim_start spec in
      if starts_with (lit ''['') trimmed \<or> starts_with (lit ''{'') trimmed then lit ''json''
      else
        let first = (case split_whitespace trimmed of [] \<Rightarrow> [] | w # _ \<Rightarrow> w) in
        if length (utf8 first) = 2 \<and> list_all is_ascii_digit first then lit ''copybook''
        else lit ''template'')"

section \<open>Byte encodings\<close>

datatype encoding = Ascii | Ebcdic

definition encoding_parse :: "rstr \<Rightarrow> error + encoding" where
  "encoding_parse s =
     (let t = to_ascii_lowercase s in
      if t \<in> set [lit ''ascii'', lit ''latin1'', lit ''latin-1'', lit ''utf8'', lit ''utf-8'']
      then Ok Ascii
      else if t \<in> set [lit ''ebcdic'', lit ''cp037'', lit ''ibm037'', lit ''ibm-037'']
      then Ok Ebcdic
      else Err (UnknownEncoding t))"

section \<open>Values\<close>

type_synonym f64 = "64 word"

datatype fval =
    VNull
  | VText rstr
  | VInt int
  | VDecimal int nat
  | VFloat f64
  | VBool bool
  | VList "fval list"
  | VStruct "(rstr \<times> fval) list"
  | VDate int
  | VTime int
  | VTimestamp int

definition decimal_string :: "int \<Rightarrow> nat \<Rightarrow> rstr" where
  "decimal_string unscaled scale =
     (if scale = 0 then int_str unscaled
      else
        let neg = unscaled < 0;
            digits = nat_str (nat \<bar>unscaled\<bar>);
            padded = (if length digits \<le> scale
                      then replicate (scale - length digits + 1) (ch CHR ''0'') @ digits
                      else digits);
            point = length padded - scale
        in (if neg then [ch CHR ''-''] else []) @ take point padded @ [ch CHR ''.''] @ drop point padded)"

section \<open>Facts\<close>

lemma max_of_simps [simp]: "max_of [] = 0" "max_of (x # xs) = max x (max_of xs)"
  by (simp_all add: max_of_def)

lemma max_of_upper: "n \<in> set ns \<Longrightarrow> n \<le> max_of ns"
  by (induction ns) auto

lemma max_of_least: "(\<And>n. n \<in> set ns \<Longrightarrow> n \<le> b) \<Longrightarrow> max_of ns \<le> b"
  by (induction ns) auto

lemma max_of_append [simp]: "max_of (xs @ ys) = max (max_of xs) (max_of ys)"
  by (induction xs) auto

lemma has_depending_on_iff:
  "has_depending_on f \<longleftrightarrow> f_depending_on f \<noteq> None \<or>
     (\<exists>cs. f_kind f = KGroup cs \<and> (\<exists>c \<in> set cs. has_depending_on c))"
  by (cases f) (auto simp: list_ex_iff split: field_kind.splits)

end
