(* ===== verification/Digits.thy ===== *)
theory Digits
  imports RustStr
begin

text \<open>
  Decimal digit lists shared by the numeric codecs (\<open>packed.rs\<close>, \<open>zoned.rs\<close>,
  \<open>edited.rs\<close>, the display numbers of \<open>encode.rs\<close>): the digits that a right-to-left
  \<open>% 10\<close> / \<open>/ 10\<close> loop fills in, the value that a left-to-right loop with
  \<open>checked_mul\<close> and \<open>checked_add\<close> reads back, and the interface \<open>decimal_codec\<close>
  that a codec of signed decimals offers to the field codecs.
\<close>

section \<open>Digit lists\<close>

text \<open>The last \<open>k\<close> decimal digits of \<open>d\<close>, most significant first.\<close>

primrec digs :: "nat \<Rightarrow> nat \<Rightarrow> nat list" where
  "digs 0 d = []"
| "digs (Suc k) d = digs k (d div 10) @ [d mod 10]"

definition dval :: "nat list \<Rightarrow> nat" where
  "dval ds = foldl (\<lambda>a d. a * 10 + d) 0 ds"

lemma length_digs [simp]: "length (digs k d) = k"
  by (induction k arbitrary: d) simp_all

lemma digs_less: "x \<in> set (digs k d) \<Longrightarrow> x < 10"
  by (induction k arbitrary: d) auto

lemma dval_Nil [simp]: "dval [] = 0"
  by (simp add: dval_def)

lemma dval_snoc [simp]: "dval (ds @ [d]) = dval ds * 10 + d"
  by (simp add: dval_def)

lemma dval_digs: "dval (digs k d) = d mod 10 ^ k"
proof (induction k arbitrary: d)
  case (Suc k)
  have "d mod (10 * 10 ^ k) = 10 * (d div 10 mod 10 ^ k) + d mod 10"
    by (rule mod_mult2_eq)
  with Suc show ?case by simp
qed simp

lemma dval_digs_id: "d < 10 ^ k \<Longrightarrow> dval (digs k d) = d"
  by (simp add: dval_digs)

lemma dval_less: "(\<forall>x \<in> set ds. x < 10) \<Longrightarrow> dval ds < 10 ^ length ds"
  by (induction ds rule: rev_induct) auto

lemma digs_dval: "(\<forall>x \<in> set ds. x < 10) \<Longrightarrow> digs (length ds) (dval ds) = ds"
  by (induction ds rule: rev_induct) auto

lemma foldl_dval: "foldl (\<lambda>a d. a * 10 + d) v ds = v * 10 ^ length ds + dval ds"
proof (induction ds rule: rev_induct)
  case (snoc x xs)
  then show ?case by (simp add: algebra_simps)
qed simp

lemma map2_snd: "length xs = length ys \<Longrightarrow> map2 (\<lambda>x. f) xs ys = map f ys"
  by (rule nth_equalityI) simp_all

lemma nat_abs_less_iff: "nat \<bar>v\<bar> < 2 ^ k \<longleftrightarrow> \<bar>v\<bar> < 2 ^ k"
  by (simp add: nat_less_iff)

section \<open>Checked accumulation\<close>

text \<open>
  \<open>value.checked_mul(10).and_then(|v| v.checked_add(d))\<close>, with the error for the overflow.
\<close>

definition push_digit :: "error \<Rightarrow> int \<Rightarrow> nat \<Rightarrow> error + int" where
  "push_digit e v d =
     ok_or (Option.bind (checked_i128 (v * 10)) (\<lambda>v. checked_i128 (v + int d))) e"

fun push_digits :: "error \<Rightarrow> int \<Rightarrow> nat list \<Rightarrow> error + int" where
  "push_digits e v [] = Ok v"
| "push_digits e v (d # ds) = rbind (push_digit e v d) (\<lambda>v. push_digits e v ds)"

lemma push_digit_eq:
  "0 \<le> v \<Longrightarrow> push_digit e v d = (if v * 10 + int d < 2 ^ 127 then Ok (v * 10 + int d) else Err e)"
  by (auto simp: push_digit_def checked_i128_def in_i128_def)

lemma push_digits_append:
  "push_digits e v (ds @ es) = rbind (push_digits e v ds) (\<lambda>v. push_digits e v es)"
  by (induction ds arbitrary: v) (auto simp: rbind_def split: sum.splits)

lemma push_digits_eq:
  "push_digits e 0 ds = (if dval ds < 2 ^ 127 then Ok (int (dval ds)) else Err e)"
proof (induction ds rule: rev_induct)
  case (snoc d ds)
  then show ?case
    by (auto simp: push_digits_append push_digit_eq)
qed simp

lemma push_digits_digs:
  "n < 10 ^ k \<Longrightarrow> n < 2 ^ 127 \<Longrightarrow> push_digits e 0 (digs k n) = Ok (int n)"
  by (simp add: push_digits_eq dval_digs_id)

section \<open>The right-to-left fill loop\<close>

text \<open>
  \<open>for slot in (0..k).rev() { buf[slot] = f(digits % 10); digits /= 10; }\<close>: the buffer and
  the digits left over.
\<close>

fun fill_digits :: "(nat \<Rightarrow> nat \<Rightarrow> 'a) \<Rightarrow> nat \<Rightarrow> nat \<Rightarrow> 'a list \<Rightarrow> 'a list \<times> nat" where
  "fill_digits f 0 d buf = (buf, d)"
| "fill_digits f (Suc k) d buf = fill_digits f k (d div 10) (buf[k := f k (d mod 10)])"

lemma fill_digits_eq:
  "k \<le> length buf \<Longrightarrow>
   fill_digits f k d buf = (map2 f [0..<k] (digs k d) @ drop k buf, d div 10 ^ k)"
proof (induction k arbitrary: d buf)
  case (Suc k)
  have "drop k (buf[k := x]) = x # drop (Suc k) buf" for x
    using Suc.prems by (simp add: drop_update_swap Cons_nth_drop_Suc [symmetric])
  with Suc show ?case
    by (simp add: div_mult2_eq)
qed simp

section \<open>The interface of a signed decimal codec\<close>

text \<open>
  \<open>enc v w s\<close> encodes \<open>v\<close> in \<open>w\<close> bytes (\<open>s\<close>: with a sign), \<open>dec\<close> reads a slice
  back, \<open>cap w\<close> is the number of digits that \<open>w\<close> bytes hold.
\<close>

locale decimal_codec =
  fixes enc :: "int \<Rightarrow> nat \<Rightarrow> bool \<Rightarrow> error + bytes"
    and dec :: "bytes \<Rightarrow> error + int"
    and cap :: "nat \<Rightarrow> nat"
  assumes enc_ok_iff: "(\<exists>bs. enc v w s = Inr bs) \<longleftrightarrow> 0 < w \<and> nat \<bar>v\<bar> < 10 ^ cap w"
    and enc_length: "enc v w s = Inr bs \<Longrightarrow> length bs = w"
    and dec_enc: "enc v w s = Inr bs \<Longrightarrow> \<bar>v\<bar> < 2 ^ 127 \<Longrightarrow> dec bs = Inr (if s then v else \<bar>v\<bar>)"
begin

lemma enc_total: "0 < w \<Longrightarrow> nat \<bar>v\<bar> < 10 ^ cap w \<Longrightarrow> \<exists>bs. enc v w s = Inr bs \<and> length bs = w"
  using enc_ok_iff enc_length by metis

lemma enc_signed_inj:
  "enc v w True = Inr bs \<Longrightarrow> enc v' w' True = Inr bs \<Longrightarrow> \<bar>v\<bar> < 2 ^ 127 \<Longrightarrow> \<bar>v'\<bar> < 2 ^ 127 \<Longrightarrow> v = v'"
  using dec_enc [of v w True bs] dec_enc [of v' w' True bs] by simp

lemma enc_overflow: "0 < w \<Longrightarrow> 10 ^ cap w \<le> nat \<bar>v\<bar> \<Longrightarrow> \<exists>e. enc v w s = Inl e"
  using enc_ok_iff [of v w s] by (cases "enc v w s") auto

lemma enc_unsigned_loses_sign:
  "enc v w False = Inr bs \<Longrightarrow> \<bar>v\<bar> < 2 ^ 127 \<Longrightarrow> dec bs = Inr \<bar>v\<bar>"
  using dec_enc [of v w False bs] by simp

end

end
