(* ===== verification/Packed.thy ===== *)
theory Packed
  imports Digits
begin

text \<open>
  COBOL packed decimal (\<open>packed.rs\<close>): two digits per byte, the last low nibble is the sign.
  The buffers of nibbles and bytes are lists, the slot loops are recursion over the slots in the
  code's order. The lemmas give the round trip in both directions, the exact set of values that
  fit, and the errors.
\<close>

definition packed_byte_width :: "nat \<Rightarrow> nat" where
  "packed_byte_width digits = digits div 2 + 1"

definition packed_max_digits :: "nat \<Rightarrow> nat" where
  "packed_max_digits width = width * 2 - 1"

section \<open>Decoding\<close>

definition packed_nibble :: "bytes \<Rightarrow> nat \<Rightarrow> nat" where
  "packed_nibble bs i =
     (let b = bs ! (i div 2) in if i mod 2 = 0 then unat (drop_bit 4 b) else unat (b AND 0x0F))"

fun packed_digit_loop :: "bytes \<Rightarrow> nat list \<Rightarrow> int \<Rightarrow> error + int" where
  "packed_digit_loop bs [] value = Ok value"
| "packed_digit_loop bs (i # is) value =
     (let nib = packed_nibble bs i in
      if nib > 9 then Err (PackedBadDigit nib)
      else rbind (push_digit PackedOverflow value nib) (packed_digit_loop bs is))"

definition packed_decode :: "bytes \<Rightarrow> error + int" where
  "packed_decode bs =
     (if bs = [] then Err PackedEmpty
      else
        let nibbles = length bs * 2 in
        rbind (packed_digit_loop bs [0..<nibbles - 1] 0) (\<lambda>value.
          let sign_nibble = unat (bs ! (length bs - 1) AND 0x0F) in
          if sign_nibble \<in> {0xD, 0xB} then Ok (- value)
          else if sign_nibble \<in> {0xC, 0xF, 0xA, 0xE} then Ok value
          else Err (PackedBadSign sign_nibble)))"

section \<open>Encoding\<close>

fun packed_put_nibbles :: "bytes \<Rightarrow> nat \<Rightarrow> bytes \<Rightarrow> bytes" where
  "packed_put_nibbles [] i out = out"
| "packed_put_nibbles (n # ns) i out =
     packed_put_nibbles ns (i + 1)
       (if i mod 2 = 0 then out[i div 2 := out ! (i div 2) OR push_bit 4 n]
        else out[i div 2 := out ! (i div 2) OR (n AND 0x0F)])"

definition packed_encode :: "int \<Rightarrow> nat \<Rightarrow> bool \<Rightarrow> error + bytes" where
  "packed_encode value width sgnd =
     (if width = 0 then Err PackedZeroWidth
      else
        let negative = value < 0;
            nibbles = width * 2;
            digit_count = nibbles - 1;
            (nib, digits) =
              fill_digits (\<lambda>slot d. byte_of d) digit_count (nat \<bar>value\<bar>) (replicate nibbles 0)
        in if digits \<noteq> 0 then Err (PackedNoFit value digit_count)
           else
             let nib = nib[nibbles - 1 := if \<not> sgnd then 0x0F else if negative then 0x0D else 0x0C]
             in Ok (packed_put_nibbles nib 0 (replicate width 0)))"

section \<open>Nibbles\<close>

definition nib_hi :: "byte \<Rightarrow> nat" where
  "nib_hi b = unat (drop_bit 4 b)"

definition nib_lo :: "byte \<Rightarrow> nat" where
  "nib_lo b = unat (b AND 0x0F)"

lemma nib_hi_div: "nib_hi b = unat b div 16"
  by (simp add: nib_hi_def drop_bit_eq_div unat_div_distrib)

lemma nib_lo_mod: "nib_lo b = unat b mod 16"
proof -
  have "b AND 0x0F = take_bit 4 b"
    by (simp add: take_bit_eq_mask mask_eq_exp_minus_1)
  then have "unat (b AND 0x0F) = take_bit 4 (unat b)"
    by (simp add: unsigned_take_bit_eq)
  then show ?thesis
    by (simp add: nib_lo_def take_bit_eq_mod)
qed

lemma nib_less [simp]: "nib_hi b < 16" "nib_lo b < 16"
  by (simp_all add: nib_hi_div nib_lo_mod div_less_iff_less_mult)

lemma byte_of_nibs: "byte_of (nib_hi b * 16 + nib_lo b) = b"
  by (simp add: nib_hi_div nib_lo_mod)

lemma nibs_of_byte:
  "h < 16 \<Longrightarrow> l < 16 \<Longrightarrow> nib_hi (byte_of (h * 16 + l)) = h \<and> nib_lo (byte_of (h * 16 + l)) = l"
  by (simp add: nib_hi_div nib_lo_mod)

text \<open>The two \<open>|=\<close> of the packing loop on a zero byte.\<close>

lemma or_nibbles:
  assumes "h < 16" "l < 16"
  shows "(0 OR push_bit 4 (byte_of h)) OR (byte_of l AND 0x0F) = byte_of (h * 16 + l)"
proof -
  have "list_all (\<lambda>h. list_all (\<lambda>l. (0 OR push_bit 4 (byte_of h)) OR (byte_of l AND 0x0F)
          = byte_of (h * 16 + l)) [0..<16]) [0..<16]"
    by code_simp
  with assms show ?thesis
    by (simp add: list_all_iff)
qed

text \<open>A slice as its list of nibbles.\<close>

definition nibs :: "bytes \<Rightarrow> nat list" where
  "nibs bs = concat (map (\<lambda>b. [nib_hi b, nib_lo b]) bs)"

lemma nibs_simps [simp]: "nibs [] = []" "nibs (b # bs) = nib_hi b # nib_lo b # nibs bs"
  by (simp_all add: nibs_def)

lemma length_nibs [simp]: "length (nibs bs) = 2 * length bs"
  by (induction bs) simp_all

lemma nibs_append: "nibs (xs @ ys) = nibs xs @ nibs ys"
  by (simp add: nibs_def)

lemma packed_nibble_eq: "i < 2 * length bs \<Longrightarrow> packed_nibble bs i = nibs bs ! i"
proof (induction bs arbitrary: i)
  case (Cons b bs)
  show ?case
  proof (cases "i < 2")
    case True
    then show ?thesis
      by (cases i rule: nat.exhaust)
        (auto simp: packed_nibble_def nib_hi_def nib_lo_def Let_def less_2_cases_iff)
  next
    case False
    then obtain j where j: "i = Suc (Suc j)"
      by (metis Suc_1 Suc_diff_Suc Suc_diff_eq_diff_pred add_2_eq_Suc le_add_diff_inverse not_less)
    then have "packed_nibble (b # bs) i = packed_nibble bs j"
      by (simp add: packed_nibble_def)
    with Cons j show ?thesis by simp
  qed
qed simp

lemma nibs_inj: "length xs = length ys \<Longrightarrow> nibs xs = nibs ys \<Longrightarrow> xs = ys"
proof (induction xs ys rule: list_induct2)
  case (Cons x xs y ys)
  then show ?case
    by (metis byte_of_nibs list.inject nibs_simps(2))
qed simp

section \<open>Decoding, on nibbles\<close>

lemma packed_digit_loop_eq:
  "(\<forall>i \<in> set is. i < 2 * length bs \<and> nibs bs ! i \<le> 9) \<Longrightarrow>
   packed_digit_loop bs is v = push_digits PackedOverflow v (map (\<lambda>i. nibs bs ! i) is)"
  by (induction "is" arbitrary: v) (auto simp: packed_nibble_eq Let_def intro: rbind_cong)

lemma packed_digit_loop_Ok:
  "(\<forall>i \<in> set is. i < 2 * length bs) \<Longrightarrow> packed_digit_loop bs is v = Ok r \<Longrightarrow>
   (\<forall>i \<in> set is. nibs bs ! i \<le> 9)"
  by (induction "is" arbitrary: v) (auto simp: packed_nibble_eq Let_def split: if_splits)

lemma map_nth_butlast:
  "xs \<noteq> [] \<Longrightarrow> map (\<lambda>i. xs ! i) [0..<length xs - 1] = butlast xs"
  by (rule nth_equalityI) (simp_all add: nth_butlast)

text \<open>What decoding computes: the digit nibbles, the value, the sign nibble.\<close>

lemma packed_decode_eq:
  assumes "bs \<noteq> []"
  shows "packed_decode bs =
     (if \<exists>x \<in> set (butlast (nibs bs)). 9 < x then packed_decode bs
      else if 2 ^ 127 \<le> dval (butlast (nibs bs)) then Err PackedOverflow
      else if last (nibs bs) \<in> {0xD, 0xB} then Ok (- int (dval (butlast (nibs bs))))
      else if last (nibs bs) \<in> {0xC, 0xF, 0xA, 0xE} then Ok (int (dval (butlast (nibs bs))))
      else Err (PackedBadSign (last (nibs bs))))"
proof (cases "\<exists>x \<in> set (butlast (nibs bs)). 9 < x")
  case False
  have ne: "nibs bs \<noteq> []"
    using assms by (cases bs) simp_all
  have lst: "unat (bs ! (length bs - 1) AND 0x0F) = last (nibs bs)"
    using assms by (cases bs rule: rev_cases) (simp_all add: nibs_append nib_lo_def)
  have m: "map (\<lambda>i. nibs bs ! i) [0..<length bs * 2 - 1] = butlast (nibs bs)"
    using map_nth_butlast [OF ne] by (simp add: mult.commute)
  have "\<forall>i \<in> set [0..<length bs * 2 - 1]. i < 2 * length bs \<and> nibs bs ! i \<le> 9"
  proof
    fix i
    assume "i \<in> set [0..<length bs * 2 - 1]"
    then have "nibs bs ! i \<in> set (butlast (nibs bs))" and "i < 2 * length bs"
      unfolding m [symmetric] by auto
    with False show "i < 2 * length bs \<and> nibs bs ! i \<le> 9"
      by (auto simp: not_less)
  qed
  then have "packed_digit_loop bs [0..<length bs * 2 - 1] 0
      = push_digits PackedOverflow 0 (butlast (nibs bs))"
    using m by (simp add: packed_digit_loop_eq)
  with False assms lst show ?thesis
    by (simp add: packed_decode_def push_digits_eq Let_def)
qed simp

lemma packed_decode_digits:
  assumes "packed_decode bs = Ok v"
  shows "bs \<noteq> []" and "\<forall>x \<in> set (butlast (nibs bs)). x \<le> 9"
proof -
  show ne: "bs \<noteq> []"
    using assms by (auto simp: packed_decode_def)
  have nn: "nibs bs \<noteq> []"
    using ne by (cases bs) simp_all
  obtain r where "packed_digit_loop bs [0..<length bs * 2 - 1] 0 = Ok r"
    using assms ne by (auto simp: packed_decode_def Let_def)
  then have "\<forall>i \<in> set [0..<length bs * 2 - 1]. nibs bs ! i \<le> 9"
    by (rule packed_digit_loop_Ok [rotated]) auto
  then show "\<forall>x \<in> set (butlast (nibs bs)). x \<le> 9"
    using map_nth_butlast [OF nn] by (metis (no_types, lifting) imageE length_nibs list.set_map mult.commute)
qed

section \<open>Encoding, on nibbles\<close>

lemma packed_put_nibbles_pairs:
  "length ns = 2 * length zs \<Longrightarrow> (\<forall>n \<in> set ns. n < 16) \<Longrightarrow> zs = replicate (length zs) 0 \<Longrightarrow>
   \<exists>bs. packed_put_nibbles (map byte_of ns) (2 * length done) (done @ zs) = done @ bs
      \<and> nibs bs = ns"
proof (induction zs arbitrary: ns "done")
  case (Cons z zs)
  then obtain h l ns' where ns: "ns = h # l # ns'"
    by (cases ns; cases "tl ns") auto
  let ?b = "byte_of (h * 16 + l)"
  have z: "z = 0" "zs = replicate (length zs) 0"
    using Cons.prems(3) by auto
  have hl: "h < 16" "l < 16"
    using Cons.prems(2) ns by auto
  have "packed_put_nibbles (map byte_of ns) (2 * length done) (done @ z # zs)
      = packed_put_nibbles (map byte_of ns') (2 * length (done @ [?b])) ((done @ [?b]) @ zs)"
    using or_nibbles [OF hl] by (simp add: ns z(1) nth_append list_update_append)
  moreover obtain bs where
    "packed_put_nibbles (map byte_of ns') (2 * length (done @ [?b])) ((done @ [?b]) @ zs)
       = (done @ [?b]) @ bs" and "nibs bs = ns'"
    using Cons.IH [of ns' "done @ [?b]"] Cons.prems ns z by auto
  ultimately show ?case
    using nibs_of_byte [OF hl] ns by (intro exI [of _ "?b # bs"]) simp
qed simp

definition sign_nibble :: "int \<Rightarrow> bool \<Rightarrow> nat" where
  "sign_nibble v sgnd = (if \<not> sgnd then 0xF else if v < 0 then 0xD else 0xC)"

lemma packed_encode_nibs:
  assumes "0 < w" and "nat \<bar>v\<bar> < 10 ^ (w * 2 - 1)"
  shows "\<exists>bs. packed_encode v w sgnd = Ok bs \<and> length bs = w
           \<and> nibs bs = digs (w * 2 - 1) (nat \<bar>v\<bar>) @ [sign_nibble v sgnd]"
proof -
  obtain k where k: "w * 2 = Suc k"
    using assms(1) by (cases "w * 2") auto
  let ?ns = "digs k (nat \<bar>v\<bar>) @ [sign_nibble v sgnd]"
  have fd: "fill_digits (\<lambda>slot d. byte_of d) k (nat \<bar>v\<bar>) (replicate (w * 2) 0)
      = (map byte_of (digs k (nat \<bar>v\<bar>)) @ [0], 0)"
  proof -
    have "drop k (replicate (w * 2) (0::byte)) = [0]"
      using k by (simp add: drop_replicate del: replicate.simps) simp
    then show ?thesis
      using assms(2) k by (simp add: fill_digits_eq map2_snd del: replicate.simps)
  qed
  have sn: "(map byte_of (digs k (nat \<bar>v\<bar>)) @ [0])[k := if \<not> sgnd then 0x0F else if v < 0 then 0x0D else 0x0C]
      = map byte_of ?ns"
    by (simp add: list_update_append sign_nibble_def byte_of_def)
  have l: "length ?ns = 2 * length (replicate w (0::byte))"
    using k by simp
  have n16: "\<forall>n \<in> set ?ns. n < 16"
    using digs_less [of _ k] by (fastforce simp: sign_nibble_def)
  have "\<exists>bs. packed_put_nibbles (map byte_of ?ns) (2 * length ([]::bytes)) ([] @ replicate w 0)
      = [] @ bs \<and> nibs bs = ?ns"
    by (rule packed_put_nibbles_pairs [OF l n16]) simp
  then obtain bs where bs: "packed_put_nibbles (map byte_of ?ns) 0 (replicate w 0) = bs"
    and nb: "nibs bs = ?ns"
    by auto
  have "packed_encode v w sgnd = Ok bs"
    using assms(1) k fd sn bs by (simp add: packed_encode_def Let_def)
  moreover have "length bs = w"
    using arg_cong [OF nb, of length] k by simp
  ultimately show ?thesis
    using k nb by auto
qed

lemma packed_encode_no_fit:
  assumes "0 < w" and "10 ^ (w * 2 - 1) \<le> nat \<bar>v\<bar>"
  shows "packed_encode v w sgnd = Err (PackedNoFit v (w * 2 - 1))"
proof -
  have "nat \<bar>v\<bar> div 10 ^ (w * 2 - 1) \<noteq> 0"
    using assms(2) by (simp add: div_eq_0_iff)
  then show ?thesis
    using assms(1) by (simp add: packed_encode_def fill_digits_eq Let_def)
qed

lemma packed_encode_ok_iff:
  "(\<exists>bs. packed_encode v w sgnd = Inr bs) \<longleftrightarrow> 0 < w \<and> nat \<bar>v\<bar> < 10 ^ (w * 2 - 1)"
proof (cases "0 < w")
  case True
  then show ?thesis
    using packed_encode_nibs [OF True, of v sgnd] packed_encode_no_fit [OF True, of v sgnd]
    by (cases "nat \<bar>v\<bar> < 10 ^ (w * 2 - 1)") auto
qed (simp add: packed_encode_def)

lemma packed_encode_length [codec_len]: "packed_encode v w sgnd = Ok bs \<Longrightarrow> length bs = w"
  using packed_encode_ok_iff [of v w sgnd] packed_encode_nibs [of w v sgnd] by auto

lemma packed_decode_encode [codec_rt]:
  assumes "packed_encode v w sgnd = Ok bs" and "\<bar>v\<bar> < 2 ^ 127"
  shows "packed_decode bs = Ok (if sgnd then v else \<bar>v\<bar>)"
proof -
  have f: "0 < w" "nat \<bar>v\<bar> < 10 ^ (w * 2 - 1)"
    using assms(1) packed_encode_ok_iff [of v w sgnd] by auto
  have nb: "nibs bs = digs (w * 2 - 1) (nat \<bar>v\<bar>) @ [sign_nibble v sgnd]" and "bs \<noteq> []"
    using packed_encode_nibs [OF f, of sgnd] assms(1) f by auto
  have "\<not> (\<exists>x \<in> set (digs (w * 2 - 1) (nat \<bar>v\<bar>)). 9 < x)"
    using digs_less by fastforce
  moreover have "nat \<bar>v\<bar> < 2 ^ 127"
    using assms(2) nat_abs_less_iff by blast
  ultimately show ?thesis
    using packed_decode_eq [OF \<open>bs \<noteq> []\<close>] f
    unfolding nb by (auto simp: dval_digs_id sign_nibble_def not_le)
qed

text \<open>The interface \<open>decimal_codec\<close>, provided by the packed codec.\<close>

interpretation packed: decimal_codec packed_encode packed_decode "\<lambda>w. w * 2 - 1"
  by unfold_locales
    (auto simp: packed_encode_ok_iff packed_encode_length packed_decode_encode)

text \<open>
  The other direction: decoding and encoding again gives the same bytes when the sign nibble is
  one the encoder writes (\<open>C\<close> or \<open>D\<close>) and the bytes are not a negative zero.
\<close>

lemma packed_encode_decode:
  assumes dec: "packed_decode bs = Ok v"
    and sn: "last (nibs bs) = 0xC \<or> last (nibs bs) = 0xD \<and> v \<noteq> 0"
  shows "packed_encode v (length bs) True = Ok bs"
proof -
  let ?ds = "butlast (nibs bs)"
  have ne: "bs \<noteq> []" and le: "\<forall>x \<in> set ?ds. x \<le> 9"
    using packed_decode_digits [OF dec] by auto
  have len: "length ?ds = length bs * 2 - 1"
    by simp
  have lt: "\<forall>x \<in> set ?ds. x < 10"
    using le by auto
  have v: "v = (if last (nibs bs) = 0xC then int (dval ?ds) else - int (dval ?ds))"
    using packed_decode_eq [OF ne] dec sn le by (force split: if_splits)
  have fits: "nat \<bar>v\<bar> < 10 ^ (length bs * 2 - 1)"
    using dval_less [OF lt] len v by (simp split: if_splits)
  obtain cs where cs: "packed_encode v (length bs) True = Ok cs" "length cs = length bs"
    "nibs cs = digs (length bs * 2 - 1) (nat \<bar>v\<bar>) @ [sign_nibble v True]"
    using packed_encode_nibs [OF _ fits, of True] ne by auto
  have "digs (length bs * 2 - 1) (nat \<bar>v\<bar>) = ?ds"
    using digs_dval [OF lt] len v by (simp split: if_splits)
  moreover have "sign_nibble v True = last (nibs bs)"
    using sn v by (auto simp: sign_nibble_def)
  moreover have "nibs bs \<noteq> []"
    using ne by (cases bs) simp_all
  ultimately have "nibs cs = nibs bs"
    using cs(3) by simp
  with cs show ?thesis
    using nibs_inj by blast
qed

lemma packed_width_digits:
  "0 < d \<Longrightarrow> d \<le> packed_max_digits (packed_byte_width d)
     \<and> packed_max_digits (packed_byte_width d) \<le> d + 1"
  by (auto simp: packed_max_digits_def packed_byte_width_def)

section \<open>Properties\<close>

text \<open>
  C26. A signed packed field of \<open>w\<close> bytes holds exactly the integers of at most \<open>2w - 1\<close>
  digits: when encoding gives bytes, the value has at most that many digits, the bytes fill the
  field, and they decode to the value with its sign; when it refuses, the value has more digits (or
  the field is empty), and the error says so. No value is truncated and none that fits is refused.
\<close>

theorem packed_value_roundtrip:
  "\<bar>v\<bar> < 2 ^ 127 \<Longrightarrow>
   (case packed_encode v w True of
      Inr bs \<Rightarrow> 0 < w \<and> nat \<bar>v\<bar> < 10 ^ packed_max_digits w \<and> length bs = w \<and> packed_decode bs = Ok v
    | Inl e \<Rightarrow> (w = 0 \<and> e = PackedZeroWidth) \<or>
        (0 < w \<and> 10 ^ packed_max_digits w \<le> nat \<bar>v\<bar> \<and> e = PackedNoFit v (packed_max_digits w)))"
proof (cases "packed_encode v w True")
  case (Inr bs)
  assume "\<bar>v\<bar> < 2 ^ 127"
  then have "length bs = w \<and> packed_decode bs = Ok v"
    using packed.enc_length packed.dec_enc [of v w True bs] Inr by simp
  then show ?thesis
    using Inr packed_encode_ok_iff [of v w True] by (auto simp: packed_max_digits_def)
next
  case (Inl e)
  then have "\<not> (0 < w \<and> nat \<bar>v\<bar> < 10 ^ (w * 2 - 1))"
    using packed_encode_ok_iff [of v w True] by auto
  then show ?thesis
    using Inl packed_encode_no_fit [of w v True]
    by (cases "w = 0") (auto simp: packed_max_digits_def packed_encode_def not_less)
qed

theorem packed_value_roundtrip_witness:
  "(case packed_encode (- 12345) 3 True of Inr bs \<Rightarrow> length bs = 3 \<and> packed_decode bs = Ok (- 12345) | Inl e \<Rightarrow> False)
   \<and> packed_encode 123456 3 True = Err (PackedNoFit 123456 5)"
  using packed_value_roundtrip [of "- 12345" 3] packed_value_roundtrip [of 123456 3]
  by (simp add: packed_max_digits_def split: sum.splits)

text \<open>
  Bytes that decode come back from encoding byte for byte when their sign nibble is the one
  the encoder writes: \<open>C\<close>, or \<open>D\<close> with a value other than zero.
\<close>

theorem packed_bytes_roundtrip:
  assumes "packed_decode bs = Ok v" and "last (nibs bs) = 0xC \<or> last (nibs bs) = 0xD \<and> v \<noteq> 0"
  shows "packed_encode v (length bs) True = Ok bs"
  using assms by (rule packed_encode_decode)

theorem packed_bytes_roundtrip_witness:
  "packed_encode (- 12345) 3 True = Ok [0x12, 0x34, 0x5D]"
proof -
  have "packed_decode [0x12, 0x34, 0x5D] = Ok (- 12345)"
    by code_simp
  moreover have "last (nibs [0x12, 0x34, 0x5D]) = 0xD"
    by code_simp
  ultimately show ?thesis
    using packed_bytes_roundtrip [of "[0x12, 0x34, 0x5D]" "- 12345"] by (simp add: numeral_3_eq_3)
qed

text \<open>
  C28. The packed decoder accepts exactly the well-formed fields, and reads them exactly: all digit
  nibbles are at most 9, the number they spell fits in 127 bits, and the sign nibble is one of the six
  that COBOL defines; the value is that number, negated under the sign nibbles \<open>B\<close> and \<open>D\<close> and under no
  other.
\<close>

theorem packed_decode_strict:
  "packed_decode bs = Ok v \<longleftrightarrow>
   bs \<noteq> [] \<and> (\<forall>x \<in> set (butlast (nibs bs)). x \<le> 9) \<and> dval (butlast (nibs bs)) < 2 ^ 127
   \<and> last (nibs bs) \<in> {0xA, 0xB, 0xC, 0xD, 0xE, 0xF}
   \<and> v = (if last (nibs bs) \<in> {0xB, 0xD} then - int (dval (butlast (nibs bs))) else int (dval (butlast (nibs bs))))"
proof
  assume d: "packed_decode bs = Ok v"
  then have ne: "bs \<noteq> []" and le: "\<forall>x \<in> set (butlast (nibs bs)). x \<le> 9"
    using packed_decode_digits by auto
  then show "bs \<noteq> [] \<and> (\<forall>x \<in> set (butlast (nibs bs)). x \<le> 9) \<and> dval (butlast (nibs bs)) < 2 ^ 127
      \<and> last (nibs bs) \<in> {0xA, 0xB, 0xC, 0xD, 0xE, 0xF}
      \<and> v = (if last (nibs bs) \<in> {0xB, 0xD} then - int (dval (butlast (nibs bs))) else int (dval (butlast (nibs bs))))"
    using packed_decode_eq [OF ne] d by (force simp: not_le split: if_splits)
next
  assume "bs \<noteq> [] \<and> (\<forall>x \<in> set (butlast (nibs bs)). x \<le> 9) \<and> dval (butlast (nibs bs)) < 2 ^ 127
      \<and> last (nibs bs) \<in> {0xA, 0xB, 0xC, 0xD, 0xE, 0xF}
      \<and> v = (if last (nibs bs) \<in> {0xB, 0xD} then - int (dval (butlast (nibs bs))) else int (dval (butlast (nibs bs))))"
  moreover from this have "\<not> (\<exists>x \<in> set (butlast (nibs bs)). 9 < x)"
    by force
  ultimately show "packed_decode bs = Ok v"
    using packed_decode_eq [of bs] by auto
qed

theorem packed_decode_strict_witness:
  "last (nibs [0x12, 0x3B]) \<in> {0xA, 0xB, 0xC, 0xD, 0xE, 0xF} \<and> - 123 = - int (dval (butlast (nibs [0x12, 0x3B])))"
proof -
  have "packed_decode [0x12, 0x3B] = Ok (- 123)" "last (nibs [0x12, 0x3B]) = 0xB"
    by code_simp+
  then show ?thesis
    using packed_decode_strict [of "[0x12, 0x3B]" "- 123"] by simp
qed

end
