(* ===== verification/Pic.thy ===== *)
theory Pic
  imports Layout Packed
begin

text \<open>
  COBOL PICTURE clauses (\<open>copybook.rs\<close>, \<open>PicShape::parse\<close> and \<open>parse_pic\<close>): expanding the
  \<open>(n)\<close> repeats, the scan over the symbols with its counters, and the field kind and width
  that a shape gives under a USAGE. \<open>x as u8\<close> keeps the low 8 bits.
\<close>

datatype usage = UDisplay | UComp3 | UComp

section \<open>The shape of a PICTURE\<close>

fun pic_expand :: "rstr \<Rightarrow> rstr \<Rightarrow> error + rstr" where
  "pic_expand pic [] = Ok []"
| "pic_expand pic [c] = Ok [c]"
| "pic_expand pic (c # d # cs) =
     (if d = ch CHR ''('' then
        (if ch CHR '')'' \<notin> set cs then Err (Spec (PicUnbalanced pic))
         else
           let num = takeWhile (\<lambda>x. x \<noteq> ch CHR '')'') cs in
           rbind (ok_or (parse_usize (trim num)) (Spec (PicRepeat num))) (\<lambda>n.
           rbind (pic_expand pic (drop (length num + 1) cs)) (\<lambda>rest.
           Ok (replicate n c @ rest))))
      else rbind (pic_expand pic (d # cs)) (\<lambda>rest. Ok (c # rest)))"

record pic_state =
  p_text :: bool
  p_char_count :: nat
  p_int_digits :: nat
  p_frac_digits :: nat
  p_signed :: bool
  p_edited :: bool
  p_after_v :: bool
  p_mask :: rstr
  p_dollars :: nat
  p_pluses :: nat
  p_minuses :: nat

definition pic_start :: pic_state where
  "pic_start =
     \<lparr> p_text = False, p_char_count = 0, p_int_digits = 0, p_frac_digits = 0, p_signed = False,
       p_edited = False, p_after_v = False, p_mask = [], p_dollars = 0, p_pluses = 0, p_minuses = 0 \<rparr>"

definition push_mask :: "rchar \<Rightarrow> pic_state \<Rightarrow> pic_state" where
  "push_mask c s = s\<lparr> p_mask := p_mask s @ [c] \<rparr>"

definition count_digit :: "pic_state \<Rightarrow> pic_state" where
  "count_digit s =
     (if p_after_v s then s\<lparr> p_frac_digits := p_frac_digits s + 1 \<rparr>
      else s\<lparr> p_int_digits := p_int_digits s + 1 \<rparr>)"

text \<open>The arms of the scan for one-character symbols.\<close>

definition pic_symbol :: "rstr \<Rightarrow> rchar \<Rightarrow> pic_state \<Rightarrow> error + pic_state" where
  "pic_symbol pic c s =
     (if c \<in> set (lit ''XA'') then
        Ok (push_mask c (s\<lparr> p_text := True, p_char_count := p_char_count s + 1 \<rparr>))
      else if c = ch CHR ''9'' then Ok (push_mask c (count_digit s))
      else if c = ch CHR ''S'' then Ok (s\<lparr> p_signed := True \<rparr>)
      else if c = ch CHR ''V'' then Ok (s\<lparr> p_after_v := True \<rparr>)
      else if c = ch CHR ''P'' then Ok (s\<lparr> p_frac_digits := p_frac_digits s + 1 \<rparr>)
      else if c \<in> set (lit ''Z*'') then Ok (push_mask c (count_digit (s\<lparr> p_edited := True \<rparr>)))
      else if c \<in> set (lit '',/B0'') then Ok (push_mask c (s\<lparr> p_edited := True \<rparr>))
      else if c = ch CHR ''.'' then Ok (push_mask c (s\<lparr> p_edited := True, p_after_v := True \<rparr>))
      else if c = ch CHR ''$'' then
        Ok (push_mask c (s\<lparr> p_edited := True, p_dollars := p_dollars s + 1 \<rparr>))
      else if c = ch CHR ''+'' then
        Ok (push_mask c (s\<lparr> p_edited := True, p_signed := True, p_pluses := p_pluses s + 1 \<rparr>))
      else if c = ch CHR ''-'' then
        Ok (push_mask c (s\<lparr> p_edited := True, p_signed := True, p_minuses := p_minuses s + 1 \<rparr>))
      else Err (Spec (PicSymbol c pic)))"

fun pic_scan :: "rstr \<Rightarrow> rstr \<Rightarrow> pic_state \<Rightarrow> error + pic_state" where
  "pic_scan pic [] s = Ok s"
| "pic_scan pic (c # cs) s =
     (if c = ch CHR ''C'' \<or> c = ch CHR ''D'' then
        let second = (if c = ch CHR ''C'' then ch CHR ''R'' else ch CHR ''B'') in
        (case cs of
           d # ds \<Rightarrow>
             if d = second
             then pic_scan pic ds (push_mask d (push_mask c (s\<lparr> p_edited := True, p_signed := True \<rparr>)))
             else Err (Spec (PicSymbol c pic))
         | [] \<Rightarrow> Err (Spec (PicSymbol c pic)))
      else rbind (pic_symbol pic c s) (pic_scan pic cs))"

record pic_shape =
  s_text :: bool
  s_char_count :: nat
  s_int_digits :: nat
  s_frac_digits :: nat
  s_signed :: bool
  s_edited :: bool
  s_mask :: rstr
  s_width :: nat

definition pic_shape_parse :: "rstr \<Rightarrow> error + pic_shape" where
  "pic_shape_parse pic0 =
     (let pic = to_ascii_uppercase (trim pic0) in
      rbind (pic_expand pic pic) (\<lambda>expanded.
      rbind (pic_scan pic expanded pic_start) (\<lambda>s.
      let int_digits = p_int_digits s + (p_dollars s - 1) + (p_pluses s - 1) + (p_minuses s - 1) in
      if p_text s \<and> (int_digits + p_frac_digits s > 0 \<or> p_edited s) then Err (Spec (PicMixed pic))
      else Ok \<lparr> s_text = p_text s, s_char_count = p_char_count s, s_int_digits = int_digits,
                s_frac_digits = p_frac_digits s, s_signed = p_signed s, s_edited = p_edited s,
                s_mask = p_mask s, s_width = length (p_mask s) \<rparr>)))"

section \<open>Field kind and width\<close>

definition as_u8 :: "nat \<Rightarrow> nat" where
  "as_u8 n = n mod 256"

definition resolve_sign :: "bool \<Rightarrow> sign_kind option \<Rightarrow> sign_kind" where
  "resolve_sign sgnd explicit =
     (if \<not> sgnd then SUnsigned else case explicit of Some s \<Rightarrow> s | None \<Rightarrow> SEmbedded)"

definition comp_width :: "nat \<Rightarrow> nat" where
  "comp_width digits = (if digits \<le> 4 then 2 else if digits \<le> 9 then 4 else 8)"

definition is_separate :: "sign_kind \<Rightarrow> bool" where
  "is_separate s \<longleftrightarrow> s = SLeading \<or> s = STrailing"

definition parse_pic :: "rstr \<Rightarrow> usage \<Rightarrow> sign_kind option \<Rightarrow> error + (field_kind \<times> nat)" where
  "parse_pic pic usage sign =
     rbind (pic_shape_parse pic) (\<lambda>p.
     if s_text p then Ok (KText JLeft True (byte_of (ch CHR '' '')), s_char_count p)
     else if s_edited p \<and> usage = UDisplay then
       Ok (KEdited (max (as_u8 (s_int_digits p + s_frac_digits p)) 1) (as_u8 (s_frac_digits p))
             (s_signed p) (s_mask p), s_width p)
     else
       let digits = s_int_digits p + s_frac_digits p;
           scale = as_u8 (s_frac_digits p);
           sgnd = s_signed p;
           sign_kind = resolve_sign sgnd sign;
           sep_bytes = (if is_separate sign_kind then 1 else 0)
       in case usage of
         UComp3 \<Rightarrow>
           Ok (KDecimal (as_u8 digits) scale RComp3 SEmbedded, packed_byte_width (as_u8 digits))
       | UComp \<Rightarrow> Ok (KBinary Big sgnd, comp_width digits)
       | UDisplay \<Rightarrow>
           if scale = 0 then
             if sgnd \<and> sign_kind = SEmbedded
             then Ok (KDecimal (as_u8 digits) 0 RZoned SEmbedded, digits)
             else Ok (KInt sgnd sign_kind, digits + sep_bytes)
           else
             let repr = (if sgnd \<and> sign_kind = SEmbedded then RZoned else RDisplay) in
             Ok (KDecimal (as_u8 digits) scale repr sign_kind, digits + sep_bytes))"

end
