(* ===== verification/Copybook.thy ===== *)
theory Copybook
  imports Pic
begin

text \<open>
  The COBOL copybook front end (\<open>copybook.rs\<close>): cleaning the text and splitting it into
  statements, the clause parser of one statement, the tree by level numbers, and the layout of
  the tree with \<open>SYNCHRONIZED\<close> alignment, \<open>OCCURS\<close> and folded \<open>REDEFINES\<close>. The clause
  parser walks the rest of the token list where the code keeps an index.
\<close>

section \<open>Statements\<close>

datatype raw =
  Raw (r_level: nat) (r_name: rstr) (r_pic: "rstr option") (r_usage: usage)
    (r_occurs: "nat option") (r_depending_on: "rstr option") (r_redefines: "rstr option")
    (r_sign: "sign_kind option") (r_synchronized: bool) (r_children: "raw list")

text \<open>\<open>str::lines\<close>: pieces ended by a line feed, without it and a carriage return before it.\<close>

definition strip_cr :: "rstr \<Rightarrow> rstr" where
  "strip_cr l = (case strip_suffix [13] l of Some r \<Rightarrow> r | None \<Rightarrow> l)"

function (sequential) str_lines :: "rstr \<Rightarrow> rstr list" where
  "str_lines [] = []"
| "str_lines s =
     (let l = takeWhile (\<lambda>c. c \<noteq> 10) s; r = dropWhile (\<lambda>c. c \<noteq> 10) s in
      if r = [] then [l] else strip_cr l # str_lines (tl r))"
  by pat_completeness auto
termination
proof (relation "measure length")
  fix v :: rchar and va l r
  assume r: "r = dropWhile (\<lambda>c. c \<noteq> 10) (v # va)" and ne: "r \<noteq> []"
  have "length (tl r) < length r"
    using ne by simp
  also have "length r \<le> length (v # va)"
    unfolding r by (rule length_dropWhile_le)
  finally show "(tl r, v # va) \<in> measure length"
    by simp
qed simp

text \<open>\<open>line.split_once("*>")\<close>, the part before the comment.\<close>

fun before_comment :: "rstr \<Rightarrow> rstr" where
  "before_comment (c # d # cs) =
     (if c = ch CHR ''*'' \<and> d = ch CHR ''>'' then [] else c # before_comment (d # cs))"
| "before_comment s = s"

definition clean_copybook :: "rstr \<Rightarrow> rstr" where
  "clean_copybook src =
     concat (map (\<lambda>line.
       if starts_with (lit ''*'') (trim_start line) then []
       else before_comment line @ [ch CHR '' '']) (str_lines src))"

fun split_statements :: "rstr \<Rightarrow> rstr \<Rightarrow> rstr list" where
  "split_statements [] cur = (if trim cur \<noteq> [] then [cur] else [])"
| "split_statements (c # cs) cur =
     (if c = ch CHR ''.'' \<and> (cs = [] \<or> is_white (hd cs)) then cur # split_statements cs []
      else split_statements cs (cur @ [c]))"

section \<open>The clauses of a statement\<close>

record clauses =
  cl_pic :: "rstr option"
  cl_usage :: usage
  cl_occurs :: "nat option"
  cl_depending_on :: "rstr option"
  cl_redefines :: "rstr option"
  cl_sign :: "sign_kind option"
  cl_synchronized :: bool

definition no_clauses :: clauses where
  "no_clauses =
     \<lparr> cl_pic = None, cl_usage = UDisplay, cl_occurs = None, cl_depending_on = None,
       cl_redefines = None, cl_sign = None, cl_synchronized = False \<rparr>"

definition head_token :: "rstr list \<Rightarrow> rstr option" where
  "head_token ts = (case ts of [] \<Rightarrow> None | t # _ \<Rightarrow> Some t)"

definition head_is :: "string \<Rightarrow> rstr list \<Rightarrow> bool" where
  "head_is kw ts = (case ts of [] \<Rightarrow> False | t # _ \<Rightarrow> to_ascii_uppercase t = lit kw)"

definition skip_word :: "string \<Rightarrow> rstr list \<Rightarrow> rstr list" where
  "skip_word kw ts = (if head_is kw ts then tl ts else ts)"

definition head_usize :: "rstr list \<Rightarrow> nat option" where
  "head_usize ts = Option.bind (head_token ts) parse_usize"

text \<open>\<open>OCCURS n [TO m] [TIMES] [DEPENDING [ON] name]\<close>, from the token after \<open>OCCURS\<close>.\<close>

definition parse_occurs :: "rstr list \<Rightarrow> clauses \<Rightarrow> error + (clauses \<times> rstr list)" where
  "parse_occurs ts cl =
     rbind (ok_or (head_usize ts) (Spec OccursCount)) (\<lambda>first.
     let ts = tl ts in
     rbind (if head_is ''TO'' ts
            then rbind (ok_or (head_usize (tl ts)) (Spec OccursUpper)) (\<lambda>m. Ok (m, drop 2 ts))
            else Ok (first, ts)) (\<lambda>(limit, ts).
     let ts = skip_word ''TIMES'' ts in
     rbind (if head_is ''DEPENDING'' ts then
              let ts = skip_word ''ON'' (tl ts) in
              rbind (ok_or (head_token ts) (Spec DependingName)) (\<lambda>ctrl.
              Ok (cl\<lparr> cl_depending_on := Some ctrl \<rparr>, tl ts))
            else Ok (cl, ts)) (\<lambda>(cl, ts).
     Ok (cl\<lparr> cl_occurs := Some limit \<rparr>, ts))))"

definition sign_clause :: "rstr list \<Rightarrow> sign_kind" where
  "sign_clause ts =
     (let leading = head_is ''LEADING'' ts;
          separate = list_ex (\<lambda>t. to_ascii_uppercase t = lit ''SEPARATE'') ts
      in if leading \<and> separate then SLeading else if separate then STrailing else SEmbedded)"

definition comp_words :: "rstr list" where
  "comp_words = map lit [''COMP'', ''COMPUTATIONAL'', ''COMP-4'', ''COMPUTATIONAL-4'', ''COMP-5'',
     ''COMPUTATIONAL-5'', ''BINARY'']"

definition comp3_words :: "rstr list" where
  "comp3_words = map lit [''COMP-3'', ''COMPUTATIONAL-3'', ''PACKED-DECIMAL'']"

lemma parse_occurs_length:
  "parse_occurs ts cl = Ok (cl', ts') \<Longrightarrow> length ts' \<le> length ts"
  by (auto simp: parse_occurs_def skip_word_def Let_def split: if_splits prod.splits)

function (sequential) parse_clauses :: "rstr list \<Rightarrow> clauses \<Rightarrow> error + clauses" where
  "parse_clauses [] cl = Ok cl"
| "parse_clauses (t # ts) cl =
     (let u = to_ascii_uppercase t in
      if u = lit ''PIC'' \<or> u = lit ''PICTURE'' then
        let ts = skip_word ''IS'' ts in parse_clauses (tl ts) (cl\<lparr> cl_pic := head_token ts \<rparr>)
      else if u = lit ''REDEFINES'' then
        parse_clauses (tl ts) (cl\<lparr> cl_redefines := head_token ts \<rparr>)
      else if u = lit ''OCCURS'' then
        (case parse_occurs ts cl of Err e \<Rightarrow> Err e | Ok (cl, ts) \<Rightarrow> parse_clauses ts cl)
      else if u = lit ''USAGE'' then parse_clauses (skip_word ''IS'' ts) cl
      else if u \<in> set comp3_words then parse_clauses ts (cl\<lparr> cl_usage := UComp3 \<rparr>)
      else if u \<in> set comp_words then parse_clauses ts (cl\<lparr> cl_usage := UComp \<rparr>)
      else if u = lit ''SIGN'' then
        let ts = skip_word ''IS'' ts in
        parse_clauses (tl ts) (cl\<lparr> cl_sign := Some (sign_clause ts) \<rparr>)
      else if u = lit ''SYNC'' \<or> u = lit ''SYNCHRONIZED'' then
        parse_clauses (if head_is ''LEFT'' ts \<or> head_is ''RIGHT'' ts then tl ts else ts)
          (cl\<lparr> cl_synchronized := True \<rparr>)
      else if u = lit ''VALUE'' \<or> u = lit ''VALUES'' then Ok cl
      else parse_clauses ts cl)"
  by pat_completeness auto
termination
  by (relation "measure (\<lambda>(ts, _). length ts)")
    (auto simp: skip_word_def dest: parse_occurs_length)

definition parse_stmt :: "rstr list \<Rightarrow> error + raw option" where
  "parse_stmt toks =
     rbind (ok_or (parse_u8 (hd toks)) (Spec (BadLevel (hd toks)))) (\<lambda>level.
     if level = 88 then Ok None
     else
       let name = (case tl toks of [] \<Rightarrow> lit ''FILLER'' | n # _ \<Rightarrow> n) in
       rbind (parse_clauses (drop 2 toks) no_clauses) (\<lambda>cl.
       Ok (Some (Raw level name (cl_pic cl) (cl_usage cl) (cl_occurs cl) (cl_depending_on cl)
                   (cl_redefines cl) (cl_sign cl) (cl_synchronized cl) []))))"

fun parse_stmts :: "rstr list list \<Rightarrow> error + raw list" where
  "parse_stmts [] = Ok []"
| "parse_stmts (toks # rest) =
     (if toks = [] then parse_stmts rest
      else rbind (parse_stmt toks) (\<lambda>stmt.
           rbind (parse_stmts rest) (\<lambda>stmts.
           Ok (case stmt of None \<Rightarrow> stmts | Some s \<Rightarrow> s # stmts))))"

definition copybook_tokenize :: "rstr \<Rightarrow> error + raw list" where
  "copybook_tokenize src =
     parse_stmts (map split_whitespace (split_statements (clean_copybook src) []))"

section \<open>The tree\<close>

text \<open>
  \<open>navigate\<close> to the node at \<open>path\<close> and push a child: the new forest and the child's index.
\<close>

fun push_child :: "raw list \<Rightarrow> nat list \<Rightarrow> raw \<Rightarrow> raw list \<times> nat" where
  "push_child nodes [] s = (nodes, 0)"
| "push_child nodes (i # path) s =
     (let n = nodes ! i;
          (children, idx) =
            (if path = [] then (r_children n @ [s], length (r_children n))
             else push_child (r_children n) path s)
      in (nodes[i := Raw (r_level n) (r_name n) (r_pic n) (r_usage n) (r_occurs n) (r_depending_on n)
            (r_redefines n) (r_sign n) (r_synchronized n) children], idx))"

text \<open>The pop loop: drop the levels at the end of the path that are not below \<open>level\<close>.\<close>

fun pop_levels :: "nat \<Rightarrow> (nat \<times> nat) list \<Rightarrow> (nat \<times> nat) list" where
  "pop_levels level [] = []"
| "pop_levels level ((lvl, i) # rest) = (if lvl \<ge> level then pop_levels level rest else (lvl, i) # rest)"

text \<open>
  \<open>stack\<close> is the pair of \<open>levels\<close> and \<open>path\<close>, innermost first.
\<close>

fun build_loop :: "raw list \<Rightarrow> (nat \<times> nat) list \<Rightarrow> raw list \<Rightarrow> raw list" where
  "build_loop roots stack [] = roots"
| "build_loop roots stack (stmt # stmts) =
     (let stack = pop_levels (r_level stmt) stack in
      if stack = [] then
        build_loop (roots @ [stmt]) [(r_level stmt, length roots)] stmts
      else
        let (roots, idx) = push_child roots (rev (map snd stack)) stmt in
        build_loop roots ((r_level stmt, idx) # stack) stmts)"

definition build_tree :: "raw list \<Rightarrow> raw list" where
  "build_tree stmts = build_loop [] [] stmts"

section \<open>REDEFINES\<close>

definition is_synthetic_union :: "field \<Rightarrow> bool" where
  "is_synthetic_union g =
     (case f_kind g of KGroup cs \<Rightarrow> list_ex (\<lambda>c. f_name c = f_name g) cs | _ \<Rightarrow> False)"

text \<open>The subtraction of offsets wraps in a release build.\<close>

definition usize_sub :: "nat \<Rightarrow> nat \<Rightarrow> nat" where
  "usize_sub a b = (if b \<le> a then a - b else 2 ^ 64 + a - b)"

definition rebase :: "field \<Rightarrow> nat \<Rightarrow> field" where
  "rebase f group_offset =
     Field (f_name f) (usize_sub (f_offset f) group_offset) (f_width f) (f_kind f) (f_occurs f)
       (f_depending_on f) None"

definition extend_union :: "field \<Rightarrow> field \<Rightarrow> field" where
  "extend_union base f =
     (let group_offset = f_offset base;
          members = (case f_kind base of
             KGroup cs \<Rightarrow> if is_synthetic_union base then cs else [rebase base group_offset]
           | _ \<Rightarrow> [rebase base group_offset]) @ [rebase f group_offset]
      in Field (f_name base) group_offset (max_of (map total_width members)) (KGroup members)
           None None None)"

fun fold_loop :: "field list \<Rightarrow> (rstr \<rightharpoonup> nat) \<Rightarrow> field list \<Rightarrow> field list" where
  "fold_loop out base_idx [] = out"
| "fold_loop out base_idx (f # fs) =
     (case f_redefines f of
        None \<Rightarrow> fold_loop (out @ [f]) (base_idx(to_ascii_uppercase (f_name f) \<mapsto> length out)) fs
      | Some target \<Rightarrow>
          (case base_idx (to_ascii_uppercase target) of
             Some idx \<Rightarrow> fold_loop (out[idx := extend_union (out ! idx) f]) base_idx fs
           | None \<Rightarrow> fold_loop (out @ [f]) base_idx fs))"

definition fold_redefines :: "field list \<Rightarrow> field list" where
  "fold_redefines fs = fold_loop [] Map.empty fs"

section \<open>Offsets\<close>

definition elementary :: "raw \<Rightarrow> error + (field_kind \<times> nat)" where
  "elementary node =
     rbind (ok_or (r_pic node) (Spec (NoPic (r_name node)))) (\<lambda>pic.
     parse_pic pic (r_usage node) (r_sign node))"

definition sync_align :: "raw \<Rightarrow> field_kind \<Rightarrow> nat \<Rightarrow> nat \<Rightarrow> nat" where
  "sync_align node kind width cursor =
     (if r_synchronized node \<and> r_redefines node = None
         \<and> (case kind of KBinary _ _ \<Rightarrow> True | _ \<Rightarrow> False)
      then cursor + (width - cursor mod width) mod width
      else cursor)"

lemma size_raw_children: "size_list size (r_children r) < size r"
  by (cases r) simp

lemma size_raw_children_le [simp]: "size_list size (r_children r) \<le> size r + k"
  using size_raw_children [of r] by linarith

function (sequential)
    layout_nodes :: "raw list \<Rightarrow> nat \<Rightarrow> error + (field list \<times> nat)"
and layout_loop :: "raw list \<Rightarrow> nat \<Rightarrow> (rstr \<rightharpoonup> nat) \<Rightarrow> nat \<Rightarrow> nat \<Rightarrow> error + (field list \<times> nat)"
where
  "layout_nodes nodes depth =
     (if depth > MAX_NESTING_DEPTH then Err (Spec (NestingTooDeep MAX_NESTING_DEPTH))
      else rbind (layout_loop nodes depth Map.empty 0 0) (\<lambda>(fs, max_end).
           Ok (fold_redefines fs, max_end)))"
| "layout_loop [] depth name_off cursor max_end = Ok ([], max_end)"
| "layout_loop (node # nodes) depth name_off cursor max_end =
     rbind (if r_children node = [] then elementary node
            else rmap_value (\<lambda>(children, gw). (KGroup children, gw))
                   (layout_nodes (r_children node) (depth + 1))) (\<lambda>(kind, width).
     let cursor = sync_align node kind width cursor in
     rbind (case r_redefines node of
              Some target \<Rightarrow>
                ok_or (name_off (to_ascii_uppercase target)) (Spec (RedefinesTarget target (r_name node)))
            | None \<Rightarrow> Ok cursor) (\<lambda>offset.
     let total = width * (case r_occurs node of None \<Rightarrow> 1 | Some n \<Rightarrow> n);
         f = Field (r_name node) offset width kind (r_occurs node) (r_depending_on node) (r_redefines node);
         reserved = (if r_depending_on node \<noteq> None then 0 else total);
         cursor = (if r_redefines node = None then offset + reserved else cursor)
     in rbind (layout_loop nodes depth (name_off(to_ascii_uppercase (r_name node) \<mapsto> offset)) cursor
                (max max_end (offset + reserved))) (\<lambda>(fs, max_end).
        Ok (f # fs, max_end))))"
  by pat_completeness auto

termination
  by (relation "measures [\<lambda>x. (case x of Inl (ns, _) \<Rightarrow> size_list size ns | Inr (ns, _) \<Rightarrow> size_list size ns),
      \<lambda>x. (case x of Inl _ \<Rightarrow> 1 | Inr _ \<Rightarrow> 0)]")
    (auto simp: less_Suc_eq_le)

definition copybook_parse :: "rstr \<Rightarrow> error + layout" where
  "copybook_parse src =
     rbind (copybook_tokenize src) (\<lambda>stmts.
     let roots = build_tree stmts;
         record_nodes = (case roots of [r] \<Rightarrow> if r_children r \<noteq> [] then r_children r else roots
                         | _ \<Rightarrow> roots)
     in rbind (layout_nodes record_nodes 0) (\<lambda>(fs, w). from_fields fs))"

end
