(* ===== verification/Ebcdic.thy ===== *)
theory Ebcdic
  imports Prelude
begin

text \<open>
  EBCDIC code page 037 to ASCII/Latin-1 and back (\<open>ebcdic.rs\<close>): the two 256-entry tables,
  the byte transcoders that index them, and their lifting to slices. The interface
  \<open>transcoder\<close> is what the field codecs need of a byte encoding.
\<close>

definition EBCDIC_TO_ASCII :: bytes where
  "EBCDIC_TO_ASCII = [
    0x00, 0x01, 0x02, 0x03, 0x9C, 0x09, 0x86, 0x7F, 0x97, 0x8D, 0x8E, 0x0B, 0x0C, 0x0D, 0x0E, 0x0F,
    0x10, 0x11, 0x12, 0x13, 0x9D, 0x85, 0x08, 0x87, 0x18, 0x19, 0x92, 0x8F, 0x1C, 0x1D, 0x1E, 0x1F,
    0x80, 0x81, 0x82, 0x83, 0x84, 0x0A, 0x17, 0x1B, 0x88, 0x89, 0x8A, 0x8B, 0x8C, 0x05, 0x06, 0x07,
    0x90, 0x91, 0x16, 0x93, 0x94, 0x95, 0x96, 0x04, 0x98, 0x99, 0x9A, 0x9B, 0x14, 0x15, 0x9E, 0x1A,
    0x20, 0xA0, 0xE2, 0xE4, 0xE0, 0xE1, 0xE3, 0xE5, 0xE7, 0xF1, 0xA2, 0x2E, 0x3C, 0x28, 0x2B, 0x7C,
    0x26, 0xE9, 0xEA, 0xEB, 0xE8, 0xED, 0xEE, 0xEF, 0xEC, 0xDF, 0x21, 0x24, 0x2A, 0x29, 0x3B, 0xAC,
    0x2D, 0x2F, 0xC2, 0xC4, 0xC0, 0xC1, 0xC3, 0xC5, 0xC7, 0xD1, 0xA6, 0x2C, 0x25, 0x5F, 0x3E, 0x3F,
    0xF8, 0xC9, 0xCA, 0xCB, 0xC8, 0xCD, 0xCE, 0xCF, 0xCC, 0x60, 0x3A, 0x23, 0x40, 0x27, 0x3D, 0x22,
    0xD8, 0x61, 0x62, 0x63, 0x64, 0x65, 0x66, 0x67, 0x68, 0x69, 0xAB, 0xBB, 0xF0, 0xFD, 0xFE, 0xB1,
    0xB0, 0x6A, 0x6B, 0x6C, 0x6D, 0x6E, 0x6F, 0x70, 0x71, 0x72, 0xAA, 0xBA, 0xE6, 0xB8, 0xC6, 0xA4,
    0xB5, 0x7E, 0x73, 0x74, 0x75, 0x76, 0x77, 0x78, 0x79, 0x7A, 0xA1, 0xBF, 0xD0, 0xDD, 0xDE, 0xAE,
    0x5E, 0xA3, 0xA5, 0xB7, 0xA9, 0xA7, 0xB6, 0xBC, 0xBD, 0xBE, 0x5B, 0x5D, 0xAF, 0xA8, 0xB4, 0xD7,
    0x7B, 0x41, 0x42, 0x43, 0x44, 0x45, 0x46, 0x47, 0x48, 0x49, 0xAD, 0xF4, 0xF6, 0xF2, 0xF3, 0xF5,
    0x7D, 0x4A, 0x4B, 0x4C, 0x4D, 0x4E, 0x4F, 0x50, 0x51, 0x52, 0xB9, 0xFB, 0xFC, 0xF9, 0xFA, 0xFF,
    0x5C, 0xF7, 0x53, 0x54, 0x55, 0x56, 0x57, 0x58, 0x59, 0x5A, 0xB2, 0xD4, 0xD6, 0xD2, 0xD3, 0xD5,
    0x30, 0x31, 0x32, 0x33, 0x34, 0x35, 0x36, 0x37, 0x38, 0x39, 0xB3, 0xDB, 0xDC, 0xD9, 0xDA, 0x9F]"

definition ASCII_TO_EBCDIC :: bytes where
  "ASCII_TO_EBCDIC = [
    0x00, 0x01, 0x02, 0x03, 0x37, 0x2D, 0x2E, 0x2F, 0x16, 0x05, 0x25, 0x0B, 0x0C, 0x0D, 0x0E, 0x0F,
    0x10, 0x11, 0x12, 0x13, 0x3C, 0x3D, 0x32, 0x26, 0x18, 0x19, 0x3F, 0x27, 0x1C, 0x1D, 0x1E, 0x1F,
    0x40, 0x5A, 0x7F, 0x7B, 0x5B, 0x6C, 0x50, 0x7D, 0x4D, 0x5D, 0x5C, 0x4E, 0x6B, 0x60, 0x4B, 0x61,
    0xF0, 0xF1, 0xF2, 0xF3, 0xF4, 0xF5, 0xF6, 0xF7, 0xF8, 0xF9, 0x7A, 0x5E, 0x4C, 0x7E, 0x6E, 0x6F,
    0x7C, 0xC1, 0xC2, 0xC3, 0xC4, 0xC5, 0xC6, 0xC7, 0xC8, 0xC9, 0xD1, 0xD2, 0xD3, 0xD4, 0xD5, 0xD6,
    0xD7, 0xD8, 0xD9, 0xE2, 0xE3, 0xE4, 0xE5, 0xE6, 0xE7, 0xE8, 0xE9, 0xBA, 0xE0, 0xBB, 0xB0, 0x6D,
    0x79, 0x81, 0x82, 0x83, 0x84, 0x85, 0x86, 0x87, 0x88, 0x89, 0x91, 0x92, 0x93, 0x94, 0x95, 0x96,
    0x97, 0x98, 0x99, 0xA2, 0xA3, 0xA4, 0xA5, 0xA6, 0xA7, 0xA8, 0xA9, 0xC0, 0x4F, 0xD0, 0xA1, 0x07,
    0x20, 0x21, 0x22, 0x23, 0x24, 0x15, 0x06, 0x17, 0x28, 0x29, 0x2A, 0x2B, 0x2C, 0x09, 0x0A, 0x1B,
    0x30, 0x31, 0x1A, 0x33, 0x34, 0x35, 0x36, 0x08, 0x38, 0x39, 0x3A, 0x3B, 0x04, 0x14, 0x3E, 0xFF,
    0x41, 0xAA, 0x4A, 0xB1, 0x9F, 0xB2, 0x6A, 0xB5, 0xBD, 0xB4, 0x9A, 0x8A, 0x5F, 0xCA, 0xAF, 0xBC,
    0x90, 0x8F, 0xEA, 0xFA, 0xBE, 0xA0, 0xB6, 0xB3, 0x9D, 0xDA, 0x9B, 0x8B, 0xB7, 0xB8, 0xB9, 0xAB,
    0x64, 0x65, 0x62, 0x66, 0x63, 0x67, 0x9E, 0x68, 0x74, 0x71, 0x72, 0x73, 0x78, 0x75, 0x76, 0x77,
    0xAC, 0x69, 0xED, 0xEE, 0xEB, 0xEF, 0xEC, 0xBF, 0x80, 0xFD, 0xFE, 0xFB, 0xFC, 0xAD, 0xAE, 0x59,
    0x44, 0x45, 0x42, 0x46, 0x43, 0x47, 0x9C, 0x48, 0x54, 0x51, 0x52, 0x53, 0x58, 0x55, 0x56, 0x57,
    0x8C, 0x49, 0xCD, 0xCE, 0xCB, 0xCF, 0xCC, 0xE1, 0x70, 0xDD, 0xDE, 0xDB, 0xDC, 0x8D, 0x8E, 0xDF]"

definition to_ascii_byte :: "byte \<Rightarrow> byte" where
  "to_ascii_byte b = EBCDIC_TO_ASCII ! unat b"

definition to_ebcdic_byte :: "byte \<Rightarrow> byte" where
  "to_ebcdic_byte b = ASCII_TO_EBCDIC ! unat b"

definition decode_slice :: "bytes \<Rightarrow> bytes" where
  "decode_slice src = map to_ascii_byte src"

definition encode_slice :: "bytes \<Rightarrow> bytes" where
  "encode_slice src = map to_ebcdic_byte src"

section \<open>The tables\<close>

lemma length_tables: "length EBCDIC_TO_ASCII = 256" "length ASCII_TO_EBCDIC = 256"
  by (simp_all add: EBCDIC_TO_ASCII_def ASCII_TO_EBCDIC_def)

lemma tables_inverse:
  "map (\<lambda>b. EBCDIC_TO_ASCII ! unat b) ASCII_TO_EBCDIC = map byte_of [0..<256]"
  by (simp add: EBCDIC_TO_ASCII_def ASCII_TO_EBCDIC_def upt_rec byte_of_def)

lemma to_ascii_to_ebcdic [simp]: "to_ascii_byte (to_ebcdic_byte b) = b"
proof -
  have "to_ascii_byte (ASCII_TO_EBCDIC ! unat b)
      = map (\<lambda>b. EBCDIC_TO_ASCII ! unat b) ASCII_TO_EBCDIC ! unat b"
    by (simp add: length_tables to_ascii_byte_def)
  also have "\<dots> = b"
    by (simp add: tables_inverse)
  finally show ?thesis by (simp add: to_ebcdic_byte_def)
qed

text \<open>On the finite type of bytes a left inverse is a right inverse.\<close>

lemma to_ebcdic_to_ascii [simp]: "to_ebcdic_byte (to_ascii_byte b) = b"
proof -
  have "inj to_ebcdic_byte"
    by (rule inj_on_inverseI [of _ to_ascii_byte]) simp
  then have "surj to_ebcdic_byte"
    by (simp add: finite_UNIV_inj_surj)
  then obtain c where "b = to_ebcdic_byte c"
    by blast
  then show ?thesis by simp
qed

section \<open>The interface of a byte encoding\<close>

locale transcoder =
  fixes rd :: "bytes \<Rightarrow> bytes" and wr :: "bytes \<Rightarrow> bytes"
  assumes rd_wr: "rd (wr bs) = bs"
    and wr_rd: "wr (rd bs) = bs"
    and wr_append: "wr (bs @ cs) = wr bs @ wr cs"
    and wr_length: "length (wr bs) = length bs"
begin

lemma wr_inj: "wr bs = wr cs \<longleftrightarrow> bs = cs"
  by (metis rd_wr)

lemma rd_inj: "rd bs = rd cs \<longleftrightarrow> bs = cs"
  by (metis wr_rd)

lemma rd_length: "length (rd bs) = length bs"
  by (metis wr_length wr_rd)

lemma rd_append: "rd (bs @ cs) = rd bs @ rd cs"
  by (metis rd_wr wr_append wr_rd)

lemma wr_bij: "bij wr"
  by (rule o_bij [of rd]) (auto simp: fun_eq_iff rd_wr wr_rd)

end

interpretation cp037: transcoder decode_slice encode_slice
  by unfold_locales (simp_all add: decode_slice_def encode_slice_def comp_def)

interpretation plain: transcoder "\<lambda>bs. bs" "\<lambda>bs. bs"
  by unfold_locales simp_all

section \<open>Properties\<close>

text \<open>
  C38. Transcoding between EBCDIC code page 037 and ASCII is a bijection of byte strings: the two
  tables are inverse to each other on all 256 bytes, so converting a record one way and back, in
  either order, gives the record itself, with its length.
\<close>

theorem cp037_bijection:
  "encode_slice (decode_slice bs) = bs \<and> decode_slice (encode_slice bs) = bs
   \<and> length (decode_slice bs) = length bs \<and> length (encode_slice bs) = length bs"
  using cp037.wr_rd cp037.rd_wr cp037.rd_length cp037.wr_length by simp

end
