(* ===== verification/Zoned.thy ===== *)
theory Zoned
  imports Digits
begin

text \<open>
  Zoned decimal with an overpunched sign (\<open>zoned.rs\<close>), on bytes already in ASCII: one digit
  per byte, the last byte carries the sign in its character. The round trip, the values that
  fit and the errors, and the interface \<open>decimal_codec\<close>.
\<close>

section \<open>Overpunch characters\<close>

definition byte_is_digit :: "byte \<Rightarrow> bool" where
  "byte_is_digit b \<longleftrightarrow> is_ascii_digit (unat b)"

definition zoned_digit :: "byte \<Rightarrow> error + nat" where
  "zoned_digit b = (if byte_is_digit b then Ok (unat b - ch CHR ''0'') else Err (ZonedBadDigit b))"

definition decode_overpunch :: "byte \<Rightarrow> error + (nat \<times> bool)" where
  "decode_overpunch b =
     (let n = unat b in
      if byte_is_digit b then Ok (n - ch CHR ''0'', False)
      else if n = ch CHR ''{'' then Ok (0, False)
      else if n = ch CHR ''}'' then Ok (0, True)
      else if ch CHR ''A'' \<le> n \<and> n \<le> ch CHR ''I'' then Ok (n - ch CHR ''A'' + 1, False)
      else if ch CHR ''J'' \<le> n \<and> n \<le> ch CHR ''R'' then Ok (n - ch CHR ''J'' + 1, True)
      else Err (ZonedBadOverpunch b))"

definition encode_overpunch :: "nat \<Rightarrow> bool \<Rightarrow> byte" where
  "encode_overpunch digit negative =
     (if digit = 0 then (if negative then byte_of (ch CHR ''}'') else byte_of (ch CHR ''{''))
      else if negative then byte_of (ch CHR ''J'' + (digit - 1))
      else byte_of (ch CHR ''A'' + (digit - 1)))"

section \<open>Decoding and encoding\<close>

fun zoned_digit_loop :: "bytes \<Rightarrow> int \<Rightarrow> error + int" where
  "zoned_digit_loop [] value = Ok value"
| "zoned_digit_loop (b # bs) value =
     rbind (zoned_digit b) (\<lambda>d. rbind (push_digit ZonedOverflow value d) (zoned_digit_loop bs))"

definition zoned_decode :: "bytes \<Rightarrow> error + int" where
  "zoned_decode bs =
     (if bs = [] then Err ZonedEmpty
      else rbind (zoned_digit_loop (take (length bs - 1) bs) 0) (\<lambda>value.
           rbind (decode_overpunch (bs ! (length bs - 1))) (\<lambda>(last_digit, negative).
           rbind (push_digit ZonedOverflow value last_digit) (\<lambda>value.
           Ok (if negative then - value else value)))))"

definition zoned_encode :: "int \<Rightarrow> nat \<Rightarrow> bool \<Rightarrow> error + bytes" where
  "zoned_encode value width sgnd =
     (if width = 0 then Err ZonedZeroWidth
      else
        let negative = value < 0;
            (out, digits) =
              fill_digits (\<lambda>slot d. if slot = width - 1 \<and> sgnd then encode_overpunch d negative
                                     else byte_of (ch CHR ''0'' + d))
                width (nat \<bar>value\<bar>) (replicate width 0)
        in if digits \<noteq> 0 then Err (ZonedNoFit value width) else Ok out)"

section \<open>Overpunch round trip\<close>

lemma overpunch_rt: "d < 10 \<Longrightarrow> decode_overpunch (encode_overpunch d neg) = Ok (d, neg)"
  by (auto simp: decode_overpunch_def encode_overpunch_def byte_is_digit_def is_ascii_digit_def Let_def)

lemma overpunch_plain: "d < 10 \<Longrightarrow> decode_overpunch (byte_of (ch CHR ''0'' + d)) = Ok (d, False)"
  by (simp add: decode_overpunch_def byte_is_digit_def is_ascii_digit_def Let_def)

lemma zoned_digit_rt: "d < 10 \<Longrightarrow> zoned_digit (byte_of (ch CHR ''0'' + d)) = Ok d"
  by (simp add: zoned_digit_def byte_is_digit_def is_ascii_digit_def)

lemma zoned_digit_loop_rt:
  "(\<forall>d \<in> set ds. d < 10) \<Longrightarrow>
   zoned_digit_loop (map (\<lambda>d. byte_of (ch CHR ''0'' + d)) ds) v = push_digits ZonedOverflow v ds"
  by (induction ds arbitrary: v) (simp_all add: zoned_digit_rt [simplified] cong: rbind_cong)

section \<open>What encoding produces\<close>

lemma zoned_encode_eq:
  assumes "0 < w"
  shows "zoned_encode v w sgnd =
     (if nat \<bar>v\<bar> < 10 ^ w
      then Ok (map (\<lambda>d. byte_of (ch CHR ''0'' + d)) (digs (w - 1) (nat \<bar>v\<bar> div 10))
             @ [if sgnd then encode_overpunch (nat \<bar>v\<bar> mod 10) (v < 0)
                else byte_of (ch CHR ''0'' + nat \<bar>v\<bar> mod 10)])
      else Err (ZonedNoFit v w))"
proof -
  obtain k where k: "w = Suc k"
    using assms by (cases w) auto
  let ?n = "nat \<bar>v\<bar>"
  let ?f = "\<lambda>slot d. if slot = w - 1 \<and> sgnd then encode_overpunch d (v < 0)
                else byte_of (ch CHR ''0'' + d)"
  have "map2 ?f [0..<k] (digs k (?n div 10))
      = map (\<lambda>d. byte_of (ch CHR ''0'' + d)) (digs k (?n div 10))"
    by (rule nth_equalityI) (simp_all add: k)
  then have "map2 ?f [0..<w] (digs w ?n)
      = map (\<lambda>d. byte_of (ch CHR ''0'' + d)) (digs k (?n div 10)) @ [?f k (?n mod 10)]"
    by (simp add: k)
  moreover have "?n div 10 ^ w = 0 \<longleftrightarrow> ?n < 10 ^ w"
    by (simp add: div_eq_0_iff)
  moreover have "fill_digits ?f w ?n (replicate w 0) = (map2 ?f [0..<w] (digs w ?n), ?n div 10 ^ w)"
    using fill_digits_eq [of w "replicate w 0" ?f ?n] by simp
  ultimately have "fill_digits ?f w ?n (replicate w 0)
      = (map (\<lambda>d. byte_of (ch CHR ''0'' + d)) (digs k (?n div 10)) @ [?f k (?n mod 10)], ?n div 10 ^ w)"
    by simp
  then show ?thesis
    using assms \<open>?n div 10 ^ w = 0 \<longleftrightarrow> ?n < 10 ^ w\<close>
    unfolding zoned_encode_def Let_def by (simp add: k del: fill_digits.simps)
qed

lemma zoned_encode_ok_iff:
  "(\<exists>bs. zoned_encode v w sgnd = Inr bs) \<longleftrightarrow> 0 < w \<and> nat \<bar>v\<bar> < 10 ^ w"
  by (cases "0 < w") (simp_all add: zoned_encode_eq, simp add: zoned_encode_def)

lemma zoned_encode_length [codec_len]: "zoned_encode v w sgnd = Ok bs \<Longrightarrow> length bs = w"
  using zoned_encode_ok_iff [of v w sgnd] by (auto simp: zoned_encode_eq)

lemma zoned_decode_snoc:
  "zoned_decode (xs @ [b]) =
     rbind (zoned_digit_loop xs 0) (\<lambda>value. rbind (decode_overpunch b) (\<lambda>(last_digit, negative).
     rbind (push_digit ZonedOverflow value last_digit) (\<lambda>value.
     Ok (if negative then - value else value))))"
  by (simp add: zoned_decode_def nth_append)

lemma zoned_decode_encode [codec_rt]:
  assumes "zoned_encode v w sgnd = Ok bs" and "\<bar>v\<bar> < 2 ^ 127"
  shows "zoned_decode bs = Ok (if sgnd then v else \<bar>v\<bar>)"
proof -
  let ?n = "nat \<bar>v\<bar>"
  have f: "0 < w" "?n < 10 ^ w"
    using assms(1) zoned_encode_ok_iff [of v w sgnd] by auto
  have n: "?n < 2 ^ 127"
    using assms(2) nat_abs_less_iff by blast
  obtain k where k: "w = Suc k"
    using f(1) by (cases w) auto
  let ?last = "if sgnd then encode_overpunch (?n mod 10) (v < 0) else byte_of (ch CHR ''0'' + ?n mod 10)"
  have bs: "bs = map (\<lambda>d. byte_of (ch CHR ''0'' + d)) (digs k (?n div 10)) @ [?last]"
    using assms(1) f k by (simp add: zoned_encode_eq)
  have "zoned_digit_loop (map (\<lambda>d. byte_of (ch CHR ''0'' + d)) (digs k (?n div 10))) 0
      = push_digits ZonedOverflow 0 (digs k (?n div 10))"
    by (rule zoned_digit_loop_rt) (use digs_less in blast)
  also have "\<dots> = Ok (int (?n div 10))"
    by (rule push_digits_digs) (use f n k in \<open>simp_all add: div_less_iff_less_mult mult.commute\<close>)
  finally have loop: "zoned_digit_loop (map (\<lambda>d. byte_of (ch CHR ''0'' + d)) (digs k (?n div 10))) 0
      = Ok (int (?n div 10))" .
  have op: "decode_overpunch ?last = Ok (?n mod 10, sgnd \<and> v < 0)"
    using overpunch_rt [of "?n mod 10" "v < 0"] overpunch_plain [of "?n mod 10"] by simp
  have push: "push_digit ZonedOverflow (int (?n div 10)) (?n mod 10) = Ok (int ?n)"
  proof -
    have "int (?n div 10 * 10 + ?n mod 10) = int ?n"
      by (simp only: div_mult_mod_eq)
    then have "int (?n div 10) * 10 + int (?n mod 10) = int ?n"
      by (simp only: of_nat_add of_nat_mult of_nat_numeral)
    then show ?thesis
      using assms(2) by (simp add: push_digit_eq)
  qed
  have "zoned_decode bs = Ok (if sgnd \<and> v < 0 then - int ?n else int ?n)"
    unfolding bs zoned_decode_snoc loop op rbind_Inr prod.case push ..
  then show ?thesis by simp
qed

interpretation zoned: decimal_codec zoned_encode zoned_decode "\<lambda>w. w"
  by unfold_locales
    (auto simp: zoned_encode_ok_iff zoned_encode_length zoned_decode_encode)

section \<open>Properties\<close>

text \<open>
  A signed zoned field of \<open>w\<close> bytes holds exactly the integers of at most \<open>w\<close> digits:
  such a value is written with its sign overpunched on the last digit and read back unchanged,
  every other value is refused.
\<close>

theorem zoned_value_roundtrip:
  "\<bar>v\<bar> < 2 ^ 127 \<Longrightarrow>
   (\<exists>bs. zoned_encode v w True = Ok bs \<and> length bs = w \<and> zoned_decode bs = Ok v)
     \<longleftrightarrow> 0 < w \<and> nat \<bar>v\<bar> < 10 ^ w"
proof -
  assume "\<bar>v\<bar> < 2 ^ 127"
  then have "zoned_encode v w True = Ok bs \<Longrightarrow> length bs = w \<and> zoned_decode bs = Ok v" for bs
    using zoned.enc_length zoned.dec_enc [of v w True bs] by simp
  then have "(\<exists>bs. zoned_encode v w True = Ok bs \<and> length bs = w \<and> zoned_decode bs = Ok v)
      \<longleftrightarrow> (\<exists>bs. zoned_encode v w True = Ok bs)"
    by blast
  then show ?thesis
    by (simp only: zoned.enc_ok_iff)
qed

theorem zoned_value_roundtrip_witness:
  "\<exists>bs. zoned_encode (- 120) 3 True = Ok bs \<and> length bs = 3 \<and> zoned_decode bs = Ok (- 120)"
  using zoned_value_roundtrip [of "- 120" 3] by simp

end
