(* ===== verification/Edited.thy ===== *)
theory Edited
  imports Digits
begin

text \<open>
  COBOL edited numeric fields (\<open>edited.rs\<close>): reading a print image drops every character
  that is not a digit; writing walks the edit mask. The walk keeps the digits not yet placed
  (the code's \<open>mag_digits[di..]\<close>) and the suppression flag. The lemmas show that the walk
  never runs out of digits, which masks give the value back, and with which sign.
\<close>

section \<open>Decoding\<close>

definition is_negative :: "rstr \<Rightarrow> bool" where
  "is_negative s =
     (let up = to_ascii_uppercase (trim s) in
      if ends_with (lit ''CR'') up \<or> ends_with (lit ''DB'') up then True
      else starts_with (lit ''-'') up \<or> ends_with (lit ''-'') up)"

definition edited_decode :: "bytes \<Rightarrow> bool \<Rightarrow> error + int" where
  "edited_decode bs sgnd =
     (let s = utf8_lossy bs;
          negative = sgnd \<and> is_negative s;
          digits = filter is_ascii_digit s
      in rbind (if digits = [] then Ok 0
                else ok_or (parse_i128 digits) (InvalidEdited digits))
           (\<lambda>mag. Ok (if negative then - mag else mag)))"

section \<open>Encoding\<close>

definition is_digit_pos :: "rchar \<Rightarrow> bool" where
  "is_digit_pos c = (c \<in> set (lit ''9Z*''))"

definition floating :: "rstr \<Rightarrow> rchar \<Rightarrow> bool" where
  "floating msk symb = (length (filter (\<lambda>c. c = symb) msk) \<ge> 2)"

text \<open>
  One arm of the \<open>match chars[k]\<close>: the bytes pushed, the digits left, the suppression flag
  and whether the arm consumes the mask character after it.
\<close>

definition edited_char ::
  "rstr \<Rightarrow> bool \<Rightarrow> rchar \<Rightarrow> rchar \<Rightarrow> rstr \<Rightarrow> bool \<Rightarrow> error + (rstr \<times> rstr \<times> bool \<times> bool)" where
  "edited_char msk negative pad c ds suppressing =
     (if c = ch CHR ''9'' then
        (case ds of [] \<Rightarrow> Err (Panic ''index out of bounds'')
         | d # ds \<Rightarrow> Ok ([d], ds, False, False))
      else if c = ch CHR ''Z'' \<or> c = ch CHR ''*'' then
        (case ds of [] \<Rightarrow> Err (Panic ''index out of bounds'')
         | d # ds \<Rightarrow>
             if suppressing \<and> d = ch CHR ''0''
             then Ok ([if c = ch CHR ''Z'' then ch CHR '' '' else ch CHR ''*''], ds, suppressing, False)
             else Ok ([d], ds, False, False))
      else if c = ch CHR '','' then Ok ([if suppressing then pad else ch CHR '',''], ds, suppressing, False)
      else if c = ch CHR ''.'' then Ok ([ch CHR ''.''], ds, False, False)
      else if c = ch CHR ''/'' then Ok ([ch CHR ''/''], ds, suppressing, False)
      else if c = ch CHR ''B'' then Ok ([ch CHR '' ''], ds, suppressing, False)
      else if c = ch CHR ''0'' then Ok ([ch CHR ''0''], ds, suppressing, False)
      else if c = ch CHR ''$'' then Ok ([ch CHR ''$''], ds, suppressing, False)
      else if c = ch CHR ''+''
        then Ok ([if negative then ch CHR ''-'' else ch CHR ''+''], ds, suppressing, False)
      else if c = ch CHR ''-''
        then Ok ([if negative then ch CHR ''-'' else ch CHR '' ''], ds, suppressing, False)
      else if c = ch CHR ''C'' then Ok (if negative then lit ''CR'' else lit ''  '', ds, suppressing, True)
      else if c = ch CHR ''D'' then Ok (if negative then lit ''DB'' else lit ''  '', ds, suppressing, True)
      else Err (EditedChar c msk))"

function edited_loop :: "rstr \<Rightarrow> bool \<Rightarrow> rchar \<Rightarrow> rstr \<Rightarrow> rstr \<Rightarrow> bool \<Rightarrow> error + rstr" where
  "edited_loop msk negative pad [] ds suppressing = Ok []"
| "edited_loop msk negative pad (c # cs) ds suppressing =
     rbind (edited_char msk negative pad c ds suppressing) (\<lambda>(out, ds, suppressing, skip).
     rbind (edited_loop msk negative pad (if skip then tl cs else cs) ds suppressing) (\<lambda>rest.
     Ok (out @ rest)))"
  by pat_completeness auto
termination
  by (relation "measure (\<lambda>(_, _, _, cs, _). length cs)") auto

definition edited_encode :: "int \<Rightarrow> rstr \<Rightarrow> error + bytes" where
  "edited_encode unscaled msk =
     (if floating msk (ch CHR ''$'') \<or> floating msk (ch CHR ''+'') \<or> floating msk (ch CHR ''-'')
      then Err (EditedFloating msk)
      else
        let total_digits = length (filter is_digit_pos msk);
            negative = unscaled < 0;
            mag = nat_str (nat \<bar>unscaled\<bar>)
        in if length mag > total_digits then Err (EditedNoFit unscaled total_digits msk)
           else
             let mag_digits = replicate (total_digits - length mag) (ch CHR ''0'') @ mag;
                 pad = (if ch CHR ''*'' \<in> set msk then ch CHR ''*'' else ch CHR '' '')
             in rbind (edited_loop msk negative pad msk mag_digits True)
                  (\<lambda>out. Ok (map byte_of out)))"

section \<open>What the walk produces\<close>

text \<open>
  Masks whose digits can be read back: no inserted zeros, and every \<open>C\<close> and \<open>D\<close> is the
  start of \<open>CR\<close> or \<open>DB\<close>.
\<close>

fun edit_mask_ok :: "rstr \<Rightarrow> bool" where
  "edit_mask_ok [] = True"
| "edit_mask_ok (c # cs) =
     (if c = ch CHR ''0'' then False
      else if c = ch CHR ''C'' then cs \<noteq> [] \<and> hd cs = ch CHR ''R'' \<and> edit_mask_ok (tl cs)
      else if c = ch CHR ''D'' then cs \<noteq> [] \<and> hd cs = ch CHR ''B'' \<and> edit_mask_ok (tl cs)
      else edit_mask_ok cs)"

lemma edited_char_Ok:
  assumes "edited_char m neg pad c ds supp = Inr (out, ds', supp', skip)"
  shows "skip \<longleftrightarrow> c = ch CHR ''C'' \<or> c = ch CHR ''D''"
    and "length out = (if skip then 2 else 1)"
    and "is_digit_pos c \<Longrightarrow> \<exists>d. ds = d # ds' \<and> 
       (out = [d] \<and> \<not> supp' \<or> supp \<and> d = 48 \<and> \<not> is_ascii_digit (hd out))"
    and "\<not> is_digit_pos c \<Longrightarrow> ds' = ds"
    and "\<not> is_digit_pos c \<Longrightarrow> c \<noteq> ch CHR ''0'' \<Longrightarrow> \<not> is_ascii_digit pad \<Longrightarrow> filter is_ascii_digit out = []"
    and "supp' \<Longrightarrow> supp"
  using assms
  by (auto simp: edited_char_def is_digit_pos_def is_ascii_digit_def split: if_splits list.splits)

lemma edited_loop_digits:
  "edited_loop m neg pad msk ds supp = Inr out \<Longrightarrow> edit_mask_ok msk \<Longrightarrow>
   length ds = length (filter is_digit_pos msk) \<Longrightarrow> \<not> is_ascii_digit pad \<Longrightarrow>
   list_all is_ascii_digit ds \<Longrightarrow>
   length out = length msk \<and>
   (\<exists>k. filter is_ascii_digit out = drop k ds \<and> k \<le> length ds \<and> (\<forall>d \<in> set (take k ds). d = 48)
      \<and> (\<not> supp \<longrightarrow> k = 0))"
proof (induction m neg pad msk ds supp arbitrary: out rule: edited_loop.induct)
  case (1 msk negative pad ds suppressing)
  then show ?case by simp
next
  case (2 msk negative pad c cs ds suppressing)
  obtain o1 ds' supp' skip r where s: "edited_char msk negative pad c ds suppressing = Inr (o1, ds', supp', skip)"
    and r: "edited_loop msk negative pad (if skip then tl cs else cs) ds' supp' = Inr r" and out: "out = o1 @ r"
    using "2.prems"(1) by (auto split: prod.splits)
  note ec = edited_char_Ok[OF s]
  let ?cs = "if skip then tl cs else cs"
  have c48: "c \<noteq> 48"
    using "2.prems"(2) by (auto split: if_splits)
  have ok: "edit_mask_ok ?cs" and ne: "skip \<Longrightarrow> cs \<noteq> [] \<and> \<not> is_digit_pos (hd cs) \<and> \<not> is_digit_pos c"
    using "2.prems"(2) ec(1) by (auto simp: is_digit_pos_def split: if_splits)
  have len: "length (c # cs) = length o1 + length ?cs"
    using ec(2) ne by (cases skip; cases cs) auto
  have cnt: "length ds' = length (filter is_digit_pos ?cs)"
    using "2.prems"(3) ec(3,4) ne by (cases skip; cases cs; cases "is_digit_pos c") auto
  have dig: "list_all is_ascii_digit ds'"
    using "2.prems"(5) ec(3,4) by (cases "is_digit_pos c") auto
  obtain k where IH: "length r = length ?cs" "filter is_ascii_digit r = drop k ds'" "k \<le> length ds'"
    "\<forall>d \<in> set (take k ds'). d = 48" "\<not> supp' \<Longrightarrow> k = 0"
    using "2.IH" [OF s refl refl refl r ok cnt "2.prems"(4) dig] by blast
  show ?case
  proof (cases "is_digit_pos c")
    case True
    then obtain d where d: "ds = d # ds'"
      "o1 = [d] \<and> \<not> supp' \<or> suppressing \<and> d = 48 \<and> \<not> is_ascii_digit (hd o1)"
      using ec(3) by blast
    have o1: "\<exists>x. o1 = [x]"
      using ec(2) ne True by (cases skip; cases o1) auto
    from d(2) show ?thesis
    proof
      assume "o1 = [d] \<and> \<not> supp'"
      then show ?thesis
        using IH d(1) len out "2.prems"(5) by (intro conjI exI [of _ 0]) auto
    next
      assume "suppressing \<and> d = 48 \<and> \<not> is_ascii_digit (hd o1)"
      then show ?thesis
        using IH d(1) len out o1 by (intro conjI exI [of _ "Suc k"]) auto
    qed
  next
    case False
    then show ?thesis
      using IH ec(4,5,6) c48 len out "2.prems"(4) by (intro conjI exI [of _ k]) auto
  qed
qed

lemma edited_loop_set:
  "edited_loop m neg pad msk ds supp = Inr out \<Longrightarrow>
   set out \<subseteq> set ds \<union> {pad, 32, 36, 42, 43, 44, 46, 47, 48} \<union> (if neg then {45, 66, 67, 68, 82} else {})"
proof (induction m neg pad msk ds supp arbitrary: out rule: edited_loop.induct)
  case (2 msk negative pad c cs ds suppressing)
  obtain o1 ds' supp' skip r where s: "edited_char msk negative pad c ds suppressing = Inr (o1, ds', supp', skip)"
    and r: "edited_loop msk negative pad (if skip then tl cs else cs) ds' supp' = Inr r" and out: "out = o1 @ r"
    using "2.prems"(1) by (auto split: prod.splits)
  have "set o1 \<subseteq> set ds \<union> {pad, 32, 36, 42, 43, 44, 46, 47, 48} \<union> (if negative then {45, 66, 67, 68, 82} else {})"
    "set ds' \<subseteq> set ds"
    using s by (auto simp: edited_char_def split: if_splits list.splits)
  with "2.IH" [OF s refl refl refl r] out show ?case
    by (auto split: if_splits)
qed simp

definition sign_shown :: "rstr \<Rightarrow> bool" where
  "sign_shown msk \<longleftrightarrow> msk \<noteq> [] \<and>
     (hd msk \<in> set (lit ''+-'') \<or> last msk \<in> set (lit ''+-'')
      \<or> ends_with (lit ''CR'') msk \<or> ends_with (lit ''DB'') msk)"

lemma edited_loop_shows_sign:
  "edited_loop m True pad msk ds supp = Inr out \<Longrightarrow> edit_mask_ok msk \<Longrightarrow> msk \<noteq> [] \<Longrightarrow>
   (last msk \<in> set (lit ''+-'') \<longrightarrow> out \<noteq> [] \<and> last out = ch CHR ''-'')
   \<and> (ends_with (lit ''CR'') msk \<longrightarrow> ends_with (lit ''CR'') out)
   \<and> (ends_with (lit ''DB'') msk \<longrightarrow> ends_with (lit ''DB'') out)"
proof (induction m "True" pad msk ds supp arbitrary: out rule: edited_loop.induct)
  case (2 msk pad c cs ds suppressing)
  obtain o1 ds' supp' skip r where s: "edited_char msk True pad c ds suppressing = Inr (o1, ds', supp', skip)"
    and r: "edited_loop msk True pad (if skip then tl cs else cs) ds' supp' = Inr r" and out: "out = o1 @ r"
    using "2.prems"(1) by (auto split: prod.splits)
  let ?cs = "if skip then tl cs else cs"
  note ec = edited_char_Ok [OF s]
  have ok: "edit_mask_ok ?cs" 
    using "2.prems"(2) ec(1) by (auto split: if_splits)
  show ?case
  proof (cases "?cs = []")
    case True
    then have "r = []" using r by simp
    then show ?thesis
      using True s out "2.prems"(2) ec(1)
      by (cases skip; cases cs) (auto simp: edited_char_def ends_with_def split: if_splits list.splits)
  next
    case False
    have e: "ends_with [a, b] (c # cs) \<Longrightarrow> ends_with [a, b] ?cs" if "(a, b) = (67, 82) \<or> (a, b) = (68, 66)" for a b
      using that False "2.prems"(2) ec(1)
      by (cases skip; cases cs) (auto simp: ends_with_Cons2 split: if_splits)
    have l: "last (c # cs) = last ?cs"
      using False by (cases skip; cases cs) auto
    have a: "ends_with p r \<Longrightarrow> ends_with p (o1 @ r)" for p
      by (auto simp: ends_with_iff)
    show ?thesis
      using "2.hyps" [OF s refl refl refl r ok False] e l out a by auto
  qed
qed simp

section \<open>The sign and the round trip\<close>

lemma is_negative_lead: "is_negative (ch CHR ''-'' # s)"
proof -
  obtain r where "trim (45 # s) = 45 # r"
    using trim_lead [of 45 s] by (auto simp: is_white_def)
  then show ?thesis
    by (simp add: is_negative_def Let_def to_ascii_uppercase_def starts_with_def upper_char_def is_ascii_lower_def)
qed

lemma is_negative_last: "is_negative (s @ [ch CHR ''-''])"
proof -
  obtain r where "trim (s @ [45]) = r @ [45]"
    using trim_last [of 45 s] by (auto simp: is_white_def)
  then show ?thesis
    by (simp add: is_negative_def Let_def to_ascii_uppercase_def ends_with_iff upper_char_def is_ascii_lower_def)
qed

lemma is_negative_marker:
  assumes "m = lit ''CR'' \<or> m = lit ''DB''"
  shows "is_negative (s @ m)"
proof -
  obtain a b where m: "m = [a, b]" "(a, b) = (67, 82) \<or> (a, b) = (68, 66)"
    using assms by auto
  have "trim (s @ [a, b]) = trim ((s @ [a]) @ [b])" by simp
  have ab: "\<not> is_white a" "\<not> is_white b"
    using m(2) by (auto simp: is_white_def)
  have "trim (s @ [a, b]) = dropWhile is_white s @ [a, b]"
    using ab by (simp add: trim_def trim_start_def trim_start_by_def trim_end_def trim_end_by_no dropWhile_append3)
  then show ?thesis
    using m by (auto simp: is_negative_def Let_def to_ascii_uppercase_def ends_with_iff upper_char_def is_ascii_lower_def)
qed

lemma is_negative_none:
  assumes "set s \<inter> {45, 66, 82, 98, 114} = {}" shows "\<not> is_negative s"
proof -
  have "set (trim s) \<inter> {45, 66, 82, 98, 114} = {}"
    using assms trim_set by blast
  moreover have "upper_char x \<in> {45, 66, 82} \<Longrightarrow> x \<in> {45, 66, 82, 98, 114}" for x
    by (auto simp: upper_char_def is_ascii_lower_def split: if_splits)
  ultimately have "set (to_ascii_uppercase (trim s)) \<inter> {45, 66, 82} = {}"
    unfolding to_ascii_uppercase_def set_map by blast
  then show ?thesis
    by (auto simp: is_negative_def Let_def ends_with_iff starts_with_def) 
      (metis Int_iff empty_iff insertI1 list.set_intros(1) set_take_subset subsetD)
qed

lemma edited_decode_encode:
  assumes "edited_encode v msk = Ok bs" "edit_mask_ok msk" "\<bar>v\<bar> < 2 ^ 127"
  shows "length bs = length msk" "edited_decode bs False = Ok \<bar>v\<bar>"
    "sign_shown msk \<Longrightarrow> edited_decode bs True = Ok v"
proof -
  let ?mag = "nat_str (nat \<bar>v\<bar>)" and ?pad = "if 42 \<in> set msk then 42 else 32 :: nat"
  define ds where "ds = replicate (length (filter is_digit_pos msk) - length ?mag) 48 @ ?mag"
  obtain out where fit: "length ?mag \<le> length (filter is_digit_pos msk)"
    and loop: "edited_loop msk (v < 0) ?pad msk ds True = Inr out" and bs: "bs = map byte_of out"
    using assms(1) by (auto simp: edited_encode_def Let_def ds_def split: if_splits)
  have dsl: "length ds = length (filter is_digit_pos msk)" and dsv: "digits_val ds = nat \<bar>v\<bar>"
    using fit by (simp_all add: ds_def)
  have dig: "list_all is_ascii_digit ds"
    using zeros_digits nat_str_digits by (simp add: ds_def)
  have pad: "\<not> is_ascii_digit ?pad"
    by (simp add: is_ascii_digit_def)
  obtain k where k: "length out = length msk" "filter is_ascii_digit out = drop k ds" "k \<le> length ds"
    "\<forall>d \<in> set (take k ds). d = 48"
    using edited_loop_digits [OF loop assms(2) dsl pad dig] by blast
  have set: "set out \<subseteq> set ds \<union> {?pad, 32, 36, 42, 43, 44, 46, 47, 48} \<union> (if v < 0 then {45, 66, 67, 68, 82} else {})"
    by (rule edited_loop_set [OF loop])
  have dsmall: "d \<in> set ds \<Longrightarrow> 48 \<le> d \<and> d \<le> 57" for d
    using dig by (auto simp: list_all_iff is_ascii_digit_def)
  have small: "c \<in> set out \<Longrightarrow> c < 128" for c
    using set dsmall[of c] by (auto split: if_splits)
  have lossy: "utf8_lossy bs = out"
    using small unfolding bs by (intro utf8_lossy_map_byte) (simp add: is_ascii_def)
  have val: "digits_val (filter is_ascii_digit out) = nat \<bar>v\<bar>"
    using digits_val_drop_zeros [OF k(4,3)] k(2) dsv by simp
  have mag: "(if filter is_ascii_digit out = [] then Ok 0
                else ok_or (parse_i128 (filter is_ascii_digit out)) (InvalidEdited (filter is_ascii_digit out))) = Ok \<bar>v\<bar>"
    using val parse_i128_digits [of "filter is_ascii_digit out"] assms(3)
    by (auto simp: list_all_iff digits_val_def nat_less_iff)
  show "length bs = length msk" 
    using k(1) bs by simp
  show "edited_decode bs False = Ok \<bar>v\<bar>"
    unfolding edited_decode_def Let_def lossy mag by simp
  have neg: "is_negative out \<longleftrightarrow> v < 0" if sh: "sign_shown msk"
  proof (cases "v < 0")
    case False
    then show ?thesis
      using set dsmall is_negative_none [of out] by (force split: if_splits)
  next
    case True
    have ne: "msk \<noteq> []" using sh by (simp add: sign_shown_def)
    have last: "(last msk \<in> set (lit ''+-'') \<longrightarrow> out \<noteq> [] \<and> last out = ch CHR ''-'')
        \<and> (ends_with (lit ''CR'') msk \<longrightarrow> ends_with (lit ''CR'') out)
        \<and> (ends_with (lit ''DB'') msk \<longrightarrow> ends_with (lit ''DB'') out)"
      using edited_loop_shows_sign [OF _ assms(2) ne] loop True by auto
    have lead: "hd msk \<in> set (lit ''+-'') \<Longrightarrow> \<exists>r. out = 45 # r"
      using loop True ne by (cases msk) (auto simp: edited_char_def)
    consider "hd msk \<in> set (lit ''+-'')" | "last msk \<in> set (lit ''+-'')"
      | m where "m = lit ''CR'' \<or> m = lit ''DB''" "ends_with m msk"
      using sh unfolding sign_shown_def by blast
    then have "is_negative out"
    proof cases
      case 1
      with lead is_negative_lead show ?thesis by auto
    next
      case 2
      with last have "out \<noteq> []" "last out = ch CHR ''-''"
        by blast+
      then show ?thesis
        using is_negative_last [of "butlast out"] append_butlast_last_id [of out] by metis
    next
      case 3
      then obtain r where "out = r @ m"
        using last by (auto simp: ends_with_iff)
      with 3(1) is_negative_marker show ?thesis by blast
    qed
    with True show ?thesis by simp
  qed
  show "edited_decode bs True = Ok v" if "sign_shown msk"
    using neg [OF that] unfolding edited_decode_def Let_def lossy mag by simp
qed

section \<open>Properties\<close>

text \<open>
  C27. Writing a value through an edit mask and reading the image back gives the value: the image
  has the length of the mask, an unsigned reading gives the magnitude, and a signed reading gives
  the sign too when the mask shows it at an end (a leading or trailing \<open>+\<close> or \<open>-\<close>, \<open>CR\<close>,
  \<open>DB\<close>). The mask must not insert zeros.
\<close>

theorem edited_roundtrip:
  assumes "edited_encode v msk = Ok bs" "edit_mask_ok msk" "\<bar>v\<bar> < 2 ^ 127"
  shows "length bs = length msk \<and> edited_decode bs False = Ok \<bar>v\<bar>
    \<and> (sign_shown msk \<longrightarrow> edited_decode bs True = Ok v)"
  using edited_decode_encode [OF assms] by blast

theorem edited_roundtrip_witness:
  "edited_decode (map byte_of (lit ''**1,234.50CR'')) True = Ok (- 123450)"
proof -
  have "edited_encode (- 123450) (lit ''***,**9.99CR'') = Ok (map byte_of (lit ''**1,234.50CR''))"
    "edit_mask_ok (lit ''***,**9.99CR'')" "sign_shown (lit ''***,**9.99CR'')"
    by code_simp+
  then show ?thesis
    using edited_roundtrip [of "- 123450" "lit ''***,**9.99CR''" "map byte_of (lit ''**1,234.50CR'')"] by simp
qed

text \<open>
  An inserted zero of the mask is not told from a digit when the image is read: the value 12
  written through the mask \<open>990\<close> reads back as 120.
\<close>

theorem edited_inserted_zero:
  "rbind (edited_encode 12 (lit ''990'')) (\<lambda>bs. edited_decode bs True) = Ok 120"
  by code_simp

end
