(* ===== verification/Floats.thy ===== *)
theory Floats
  imports Layout
begin

text \<open>
  The IEEE-754 arithmetic that the float fields use (\<open>decode.rs\<close>, \<open>encode.rs\<close>), on bit
  patterns. A finite \<open>f64\<close> has the magnitude \<open>m / 2^1074\<close> for a natural \<open>m\<close>; every
  operation computes the exact rational and rounds it to nearest, ties to even. A NaN that an
  operation produces is the canonical quiet one; conversions quiet a NaN and keep the top of its
  payload, as the hardware does.
\<close>

section \<open>Rounding a rational to a format\<close>

fun bit_len :: "nat \<Rightarrow> nat" where
  "bit_len n = (if n = 0 then 0 else Suc (bit_len (n div 2)))"

declare bit_len.simps [simp del]

definition round_half_even :: "nat \<Rightarrow> nat \<Rightarrow> nat" where
  "round_half_even n d =
     (let q = n div d; r = n mod d in
      if 2 * r < d \<or> (2 * r = d \<and> even q) then q else q + 1)"

text \<open>
  The magnitude bits of \<open>n / d\<close> in a format with \<open>p\<close> fraction bits, the smallest positive
  value \<open>2^-s\<close> and the bits \<open>lim\<close> of infinity. With \<open>k\<close> dropped bits the rounded
  significand \<open>q\<close> has the encoding \<open>k * 2^p + q\<close>, subnormals (\<open>k = 0\<close>) included.
\<close>

definition round_float :: "nat \<Rightarrow> nat \<Rightarrow> nat \<Rightarrow> nat \<Rightarrow> nat \<Rightarrow> nat" where
  "round_float p s lim n d =
     (let units = n * 2 ^ s;
          k = bit_len (units div d) - (p + 1);
          q = round_half_even units (d * 2 ^ k)
      in min lim (k * 2 ^ p + q))"

definition f64_top :: nat where "f64_top = 2047 * 2 ^ 52"
definition f32_top :: nat where "f32_top = 255 * 2 ^ 23"

section \<open>Values\<close>

datatype fnum = FNan | FInf bool | FFin bool nat

text \<open>The magnitude of a finite value in units of the smallest positive one.\<close>

definition magnitude :: "nat \<Rightarrow> nat \<Rightarrow> nat" where
  "magnitude p bits =
     (let e = bits div 2 ^ p; f = bits mod 2 ^ p in
      if e = 0 then f else (f + 2 ^ p) * 2 ^ (e - 1))"

definition f64_value :: "f64 \<Rightarrow> fnum" where
  "f64_value x =
     (let n = unat x; sign = n \<ge> 2 ^ 63; mag = n mod 2 ^ 63 in
      if mag > f64_top then FNan else if mag = f64_top then FInf sign
      else FFin sign (magnitude 52 mag))"

definition f64_make :: "bool \<Rightarrow> nat \<Rightarrow> f64" where
  "f64_make sign mag = word_of_nat ((if sign then 2 ^ 63 else 0) + mag)"

definition f64_nan :: f64 where "f64_nan = 0x7FF8000000000000"

definition f64_ratio :: "bool \<Rightarrow> nat \<Rightarrow> nat \<Rightarrow> f64" where
  "f64_ratio sign n d = f64_make sign (round_float 52 1074 f64_top n d)"

section \<open>Conversions and arithmetic\<close>

text \<open>\<open>i as f64\<close>\<close>

definition int_to_f64 :: "int \<Rightarrow> f64" where
  "int_to_f64 i = f64_ratio (i < 0) (nat \<bar>i\<bar>) 1"

definition f64_neg :: "f64 \<Rightarrow> f64" where
  "f64_neg x = x XOR 0x8000000000000000"

definition f64_mul :: "f64 \<Rightarrow> f64 \<Rightarrow> f64" where
  "f64_mul x y =
     (case (f64_value x, f64_value y) of
        (FNan, _) \<Rightarrow> f64_nan
      | (_, FNan) \<Rightarrow> f64_nan
      | (FInf s, FInf t) \<Rightarrow> f64_make (s \<noteq> t) f64_top
      | (FInf s, FFin t m) \<Rightarrow> if m = 0 then f64_nan else f64_make (s \<noteq> t) f64_top
      | (FFin s m, FInf t) \<Rightarrow> if m = 0 then f64_nan else f64_make (s \<noteq> t) f64_top
      | (FFin s m, FFin t n) \<Rightarrow> f64_ratio (s \<noteq> t) (m * n) (2 ^ 1074 * 2 ^ 1074))"

definition f64_div :: "f64 \<Rightarrow> f64 \<Rightarrow> f64" where
  "f64_div x y =
     (case (f64_value x, f64_value y) of
        (FNan, _) \<Rightarrow> f64_nan
      | (_, FNan) \<Rightarrow> f64_nan
      | (FInf s, FInf t) \<Rightarrow> f64_nan
      | (FInf s, FFin t m) \<Rightarrow> f64_make (s \<noteq> t) f64_top
      | (FFin s m, FInf t) \<Rightarrow> f64_make (s \<noteq> t) 0
      | (FFin s m, FFin t n) \<Rightarrow>
          if n = 0 then if m = 0 then f64_nan else f64_make (s \<noteq> t) f64_top
          else f64_ratio (s \<noteq> t) m n)"

definition f64_add :: "f64 \<Rightarrow> f64 \<Rightarrow> f64" where
  "f64_add x y =
     (case (f64_value x, f64_value y) of
        (FNan, _) \<Rightarrow> f64_nan
      | (_, FNan) \<Rightarrow> f64_nan
      | (FInf s, FInf t) \<Rightarrow> if s = t then x else f64_nan
      | (FInf s, FFin t m) \<Rightarrow> x
      | (FFin s m, FInf t) \<Rightarrow> y
      | (FFin s m, FFin t n) \<Rightarrow>
          let v = (if s then - int m else int m) + (if t then - int n else int n) in
          f64_ratio (if v = 0 then s \<and> t else v < 0) (nat \<bar>v\<bar>) (2 ^ 1074))"

text \<open>\<open>powi\<close>, the repeated squaring of the runtime library.\<close>

fun powi_loop :: "f64 \<Rightarrow> nat \<Rightarrow> f64 \<Rightarrow> f64" where
  "powi_loop a b r =
     (let r = if odd b then f64_mul r a else r; b = b div 2 in
      if b = 0 then r else powi_loop (f64_mul a a) b r)"

declare powi_loop.simps [simp del]

definition f64_powi :: "f64 \<Rightarrow> int \<Rightarrow> f64" where
  "f64_powi a b =
     (let r = powi_loop a (nat \<bar>b\<bar>) (int_to_f64 1) in
      if b < 0 then f64_div (int_to_f64 1) r else r)"

text \<open>\<open>f.round() as i128\<close>: half away from zero, then the saturating cast.\<close>

definition f64_round_i128 :: "f64 \<Rightarrow> int" where
  "f64_round_i128 x =
     (case f64_value x of
        FNan \<Rightarrow> 0
      | FInf s \<Rightarrow> if s then - (2 ^ 127) else 2 ^ 127 - 1
      | FFin s m \<Rightarrow>
          let q = (2 * m + 2 ^ 1074) div (2 * 2 ^ 1074) in
          if s then max (- int q) (- (2 ^ 127)) else min (int q) (2 ^ 127 - 1))"

definition f32_to_f64 :: "32 word \<Rightarrow> f64" where
  "f32_to_f64 x =
     (let n = unat x; sign = n \<ge> 2 ^ 31; mag = n mod 2 ^ 31 in
      if mag > f32_top then f64_make sign (f64_top + (2 ^ 51 + mag mod 2 ^ 22 * 2 ^ 29))
      else if mag = f32_top then f64_make sign f64_top
      else f64_ratio sign (magnitude 23 mag) (2 ^ 149))"

definition f64_to_f32 :: "f64 \<Rightarrow> 32 word" where
  "f64_to_f32 x =
     word_of_nat ((if unat x \<ge> 2 ^ 63 then 2 ^ 31 else 0) +
       (case f64_value x of
          FNan \<Rightarrow> f32_top + 2 ^ 22 + unat x mod 2 ^ 51 div 2 ^ 29
        | FInf s \<Rightarrow> f32_top
        | FFin s m \<Rightarrow> round_float 23 149 f32_top m (2 ^ 1074)))"

definition f16_to_f64 :: "16 word \<Rightarrow> f64" where
  "f16_to_f64 bits =
     (let sign = drop_bit 15 bits AND 1;
          exp = drop_bit 10 bits AND 0x1F;
          frac = bits AND 0x3FF;
          val = (if exp = 0 then f64_mul (int_to_f64 (uint frac)) (f64_powi (int_to_f64 2) (- 24))
                 else if exp = 0x1F then
                   (if frac = 0 then f64_make False f64_top else f64_nan)
                 else f64_mul (f64_add (int_to_f64 1)
                          (f64_div (int_to_f64 (uint frac)) (int_to_f64 1024)))
                        (f64_powi (int_to_f64 2) (uint exp - 15)))
      in if sign = 1 then f64_neg val else val)"

definition f64_to_f16 :: "f64 \<Rightarrow> 16 word" where
  "f64_to_f16 value =
     (let bits = f64_to_f32 value;
          sign = ucast (drop_bit 16 bits AND 0x8000) :: 16 word;
          exp = uint (drop_bit 23 bits AND 0xFF) - 127 + 15;
          mant = bits AND 0x7FFFFF
      in if exp \<le> 0 then sign
         else if exp \<ge> 0x1F then sign OR 0x7C00
         else sign OR push_bit 10 (word_of_int exp) OR ucast (drop_bit 13 mant))"

section \<open>Printing\<close>

text \<open>
  \<open>f.to_string()\<close>: the shortest decimal digits that read back as the same value, the nearest
  of them, without an exponent. \<open>ten_exp\<close> is the number of digits before the decimal point.
\<close>

definition ten_exp :: "nat \<Rightarrow> nat \<Rightarrow> int" where
  "ten_exp n d =
     (if d \<le> n then int (length (nat_str (n div d)))
      else 1 - int (length (nat_str ((d - 1) div n))))"

definition short_candidate :: "nat \<Rightarrow> nat \<Rightarrow> int \<Rightarrow> nat \<Rightarrow> nat option" where
  "short_candidate mag m k n =
     (let up = nat (int n - k); down = nat (k - int n);
          num = m * 10 ^ up; den = 2 ^ 1074 * 10 ^ down;
          lo = num div den; hi = lo + 1;
          reads = (\<lambda>c. round_float 52 1074 f64_top (c * 10 ^ down) (10 ^ up) = mag)
      in if reads lo \<and> \<not> (reads hi \<and> den \<le> 2 * (num mod den)) then Some lo
         else if reads hi then Some hi
         else None)"

fun shortest :: "nat \<Rightarrow> nat \<Rightarrow> int \<Rightarrow> nat list \<Rightarrow> nat \<times> nat" where
  "shortest mag m k [] = (0, 1)"
| "shortest mag m k (n # ns) =
     (case short_candidate mag m k n of Some c \<Rightarrow> (c, n) | None \<Rightarrow> shortest mag m k ns)"

definition f64_string :: "f64 \<Rightarrow> rstr" where
  "f64_string x =
     (let sgn = (if unat x \<ge> 2 ^ 63 then [ch CHR ''-''] else []) in
      case f64_value x of
        FNan \<Rightarrow> lit ''NaN''
      | FInf s \<Rightarrow> sgn @ lit ''inf''
      | FFin s m \<Rightarrow>
          if m = 0 then sgn @ lit ''0''
          else
            let k = ten_exp m (2 ^ 1074);
                (c, n) = shortest (unat x mod 2 ^ 63) m k [1..<18];
                (c, e) = (if c = 10 ^ n then (1, k) else (c, k - int n));
                digits = nat_str c
            in if 0 \<le> e then sgn @ digits @ replicate (nat e) (ch CHR ''0'')
               else
                 let places = nat (- e);
                     padded = replicate (places + 1 - length digits) (ch CHR ''0'') @ digits;
                     point = length padded - places
                 in sgn @ take point padded @ [ch CHR ''.''] @ drop point padded)"

section \<open>Rounding is exact on representable values\<close>

lemma bit_len_le: "n < 2 ^ k \<Longrightarrow> bit_len n \<le> k"
proof (induction k arbitrary: n)
  case 0
  then show ?case by (simp add: bit_len.simps)
next
  case (Suc k)
  then have "n div 2 < 2 ^ k" by (simp add: div_less_iff_less_mult mult.commute)
  with Suc.IH show ?case by (subst bit_len.simps) simp
qed

lemma bit_len_eq: "2 ^ k \<le> n \<Longrightarrow> n < 2 ^ Suc k \<Longrightarrow> bit_len n = Suc k"
proof (induction k arbitrary: n)
  case 0
  then have "n = 1" by simp
  then show ?case by (simp add: bit_len.simps)
next
  case (Suc k)
  then have "n div 2 < 2 ^ Suc k" "2 ^ k \<le> n div 2"
    by (simp_all add: div_less_iff_less_mult less_eq_div_iff_mult_less_eq mult.commute)
  moreover have "n \<noteq> 0"
    using Suc.prems(1) by (cases n) simp_all
  ultimately show ?case
    using Suc.IH by (subst bit_len.simps) simp
qed

lemma round_half_even_exact: "0 < d \<Longrightarrow> round_half_even (q * d) d = q"
  by (simp add: round_half_even_def)

lemma round_half_even_scale: "0 < c \<Longrightarrow> round_half_even (c * n) (c * d) = round_half_even n d"
  by (simp add: round_half_even_def Let_def mult.left_commute [of 2 c])

lemma round_float_scale:
  assumes "0 < c" shows "round_float p s lim (c * n) (c * d) = round_float p s lim n d"
proof -
  have "c * n * 2 ^ s div (c * d) = n * 2 ^ s div d"
    using assms by (simp add: mult.assoc)
  moreover have "round_half_even (c * n * 2 ^ s) (c * d * 2 ^ k) = round_half_even (n * 2 ^ s) (d * 2 ^ k)" for k
    using round_half_even_scale [OF assms, of "n * 2 ^ s" "d * 2 ^ k"] by (simp add: mult.assoc)
  ultimately show ?thesis
    by (simp add: round_float_def Let_def)
qed

lemma round_float_exact:
  "mag \<le> lim \<Longrightarrow> round_float p s lim (magnitude p mag) (2 ^ s) = mag"
proof -
  assume lim: "mag \<le> lim"
  define e f where "e = mag div 2 ^ p" and "f = mag mod 2 ^ p"
  have mag: "mag = e * 2 ^ p + f" and f: "f < 2 ^ p"
    by (simp_all only: e_def f_def div_mult_mod_eq) simp
  define M where "M = magnitude p mag"
  have Mif: "M = (if e = 0 then f else (f + 2 ^ p) * 2 ^ (e - 1))"
    by (simp add: M_def magnitude_def e_def f_def Let_def)
  have units: "M * 2 ^ s div 2 ^ s = M" by simp
  show ?thesis
  proof (cases "e = 0")
    case True
    then have M: "M = f" "mag = f"
      using mag Mif by simp_all
    then have "bit_len M - (p + 1) = 0"
      using bit_len_le [OF f] by simp
    then show ?thesis
      using lim M units round_half_even_exact [of "2 ^ s" f] unfolding round_float_def Let_def M_def [symmetric]
      by simp
  next
    case False
    then obtain j where j: "e = Suc j" by (cases e) auto
    have M: "M = (f + 2 ^ p) * 2 ^ j"
      using j Mif by simp
    have "2 ^ (p + j) \<le> M" "M < 2 ^ Suc (p + j)"
      using f by (simp_all add: M power_add)
    then have k: "bit_len M - (p + 1) = j"
      using bit_len_eq by simp
    have "round_half_even (M * 2 ^ s) (2 ^ s * 2 ^ j) = f + 2 ^ p"
      using round_half_even_exact [of "2 ^ s * 2 ^ j" "f + 2 ^ p"] by (simp add: M mult.assoc mult.commute mult.left_commute)
    then show ?thesis
      using lim k units mag j unfolding round_float_def Let_def M_def [symmetric] by simp
  qed
qed

text \<open>Every value with few significant bits is the magnitude of some encoding.\<close>

lemma magnitude_surj:
  assumes "f < 2 ^ Suc p"
  shows "\<exists>mag \<le> (j + 2) * 2 ^ p. magnitude p mag = f * 2 ^ j"
  using assms
proof (induction j arbitrary: f)
  case 0
  show ?case
  proof (cases "f < 2 ^ p")
    case True
    then show ?thesis
      by (intro exI [of _ f]) (simp add: magnitude_def)
  next
    case False
    then have "f div 2 ^ p = 1" "f mod 2 ^ p + 2 ^ p = f"
      using 0 by (auto simp: div_nat_eqI le_mod_geq mod_if)
    then show ?thesis
      using 0 by (intro exI [of _ f]) (simp add: magnitude_def)
  qed
next
  case (Suc j)
  show ?case
  proof (cases "f < 2 ^ p")
    case True
    then obtain mag where "mag \<le> (j + 2) * 2 ^ p" "magnitude p mag = (2 * f) * 2 ^ j"
      using Suc.IH [of "2 * f"] by auto
    then show ?thesis
      by (intro exI [of _ mag]) (auto intro: order_trans)
  next
    case False
    define mag where "mag = Suc (Suc j) * 2 ^ p + (f - 2 ^ p)"
    have "f - 2 ^ p < 2 ^ p"
      using Suc.prems by simp
    then have "mag div 2 ^ p = Suc (Suc j)" "mag mod 2 ^ p = f - 2 ^ p"
      unfolding mag_def by (simp_all only: div_mult_self3 mod_mult_self3) simp_all
    then show ?thesis
      using Suc.prems False by (intro exI [of _ mag]) (simp add: magnitude_def mag_def)
  qed
qed

section \<open>Float fields round trip\<close>

lemma unat_f64: "n < 2 ^ 64 \<Longrightarrow> unat (word_of_nat n :: f64) = n"
  by (simp add: unat_of_nat)

lemma f64_value_make:
  assumes "mag \<le> f64_top"
  shows "f64_value (f64_make sg mag) = (if mag = f64_top then FInf sg else FFin sg (magnitude 52 mag))"
    "2 ^ 63 \<le> unat (f64_make sg mag) \<longleftrightarrow> sg"
proof -
  have "mag < 2 ^ 63"
    using assms by (simp add: f64_top_def)
  then have u: "unat (f64_make sg mag) = (if sg then 2 ^ 63 else 0) + mag"
    unfolding f64_make_def by (intro unat_f64) simp
  show "2 ^ 63 \<le> unat (f64_make sg mag) \<longleftrightarrow> sg"
    using u \<open>mag < 2 ^ 63\<close> by simp
  have "unat (f64_make sg mag) mod 2 ^ 63 = mag"
    using u \<open>mag < 2 ^ 63\<close> by simp
  then show "f64_value (f64_make sg mag) = (if mag = f64_top then FInf sg else FFin sg (magnitude 52 mag))"
    using u \<open>mag < 2 ^ 63\<close> assms by (simp add: f64_value_def Let_def)
qed

lemma f32_magnitude_in_f64:
  assumes "mag < f32_top"
  shows "\<exists>mag' < f64_top. magnitude 52 mag' = magnitude 23 mag * 2 ^ 925"
proof -
  define e where "e = mag div 2 ^ 23"
  have e: "e < 255"
    using assms by (simp add: e_def f32_top_def div_less_iff_less_mult)
  obtain f j where M: "magnitude 23 mag = f * 2 ^ j" "f < 2 ^ Suc 52" "j \<le> 253"
  proof (cases "e = 0")
    case True
    then show ?thesis
      using that [of "mag mod 2 ^ 23" 0] by (simp add: magnitude_def e_def less_trans [of _ "2 ^ 23"])
  next
    case False
    have "mag mod 2 ^ 23 < 2 ^ 23" by simp
    then have "mag mod 2 ^ 23 + 2 ^ 23 < 2 ^ Suc 52" by simp
    then show ?thesis
      using that [of "mag mod 2 ^ 23 + 2 ^ 23" "e - 1"] False e by (simp add: magnitude_def e_def)
  qed
  obtain mag' where "mag' \<le> (j + 925 + 2) * 2 ^ 52" "magnitude 52 mag' = f * 2 ^ (j + 925)"
    using magnitude_surj [OF M(2), of "j + 925"] by blast
  moreover have "(j + 925 + 2) * 2 ^ 52 < f64_top"
    using M(3) by (simp add: f64_top_def)
  ultimately show ?thesis
    using M(1) by (intro exI [of _ mag']) (simp add: power_add)
qed

lemma f32_to_f64_value:
  assumes "unat x mod 2 ^ 31 < f32_top"
  shows "f64_value (f32_to_f64 x) = FFin (2 ^ 31 \<le> unat x) (magnitude 23 (unat x mod 2 ^ 31) * 2 ^ 925)"
    "2 ^ 63 \<le> unat (f32_to_f64 x) \<longleftrightarrow> 2 ^ 31 \<le> unat x"
proof -
  let ?M = "magnitude 23 (unat x mod 2 ^ 31)"
  obtain mag' where m: "mag' < f64_top" "magnitude 52 mag' = ?M * 2 ^ 925"
    using f32_magnitude_in_f64 [OF assms] by blast
  have "round_float 52 1074 f64_top ?M (2 ^ 149)
      = round_float 52 1074 f64_top (2 ^ 925 * ?M) (2 ^ 925 * 2 ^ 149)"
    by (rule round_float_scale [symmetric]) simp
  also have "\<dots> = round_float 52 1074 f64_top (magnitude 52 mag') (2 ^ 1074)"
    unfolding m(2) power_add [symmetric] by (simp only: mult.commute) simp
  also have "\<dots> = mag'"
    using m(1) by (intro round_float_exact) simp
  finally have "f32_to_f64 x = f64_make (2 ^ 31 \<le> unat x) mag'"
    using assms by (simp only: f32_to_f64_def Let_def f64_ratio_def if_False not_less less_imp_le) auto
  then show "f64_value (f32_to_f64 x) = FFin (2 ^ 31 \<le> unat x) (?M * 2 ^ 925)"
    "2 ^ 63 \<le> unat (f32_to_f64 x) \<longleftrightarrow> 2 ^ 31 \<le> unat x"
    using f64_value_make [of mag' "2 ^ 31 \<le> unat x"] m by simp_all
qed

lemma f32_split: "(if 2 ^ 31 \<le> unat x then 2 ^ 31 else 0) + unat x mod 2 ^ 31 = unat (x :: 32 word)"
proof (cases "2 ^ 31 \<le> unat x")
  case True
  have "unat x < 2 ^ 32"
    using unsigned_less [of x] by simp
  with True have "unat x mod 2 ^ 31 = unat x - 2 ^ 31"
    by (simp add: le_mod_geq)
  with True show ?thesis by simp
qed simp

lemma f32_roundtrip:
  assumes "unat x mod 2 ^ 31 \<le> f32_top"
  shows "f64_to_f32 (f32_to_f64 x) = x"
proof (cases "unat x mod 2 ^ 31 = f32_top")
  case True
  then have "f32_to_f64 x = f64_make (2 ^ 31 \<le> unat x) f64_top"
    by (simp add: f32_to_f64_def)
  then have "f64_to_f32 (f32_to_f64 x) = word_of_nat ((if 2 ^ 31 \<le> unat x then 2 ^ 31 else 0) + f32_top)"
    using f64_value_make [of f64_top "2 ^ 31 \<le> unat x"] by (simp add: f64_to_f32_def)
  then show ?thesis
    unfolding True [symmetric] f32_split by simp
next
  case False
  let ?M = "magnitude 23 (unat x mod 2 ^ 31)"
  have lt: "unat x mod 2 ^ 31 < f32_top"
    using assms False by simp
  have "round_float 23 149 f32_top (?M * 2 ^ 925) (2 ^ 1074)
      = round_float 23 149 f32_top (2 ^ 925 * ?M) (2 ^ 925 * 2 ^ 149)"
    unfolding power_add [symmetric] by (simp only: mult.commute) simp
  also have "\<dots> = unat x mod 2 ^ 31"
    using lt by (simp only: round_float_scale round_float_exact zero_less_power zero_less_numeral less_imp_le)
  finally show ?thesis
    using f32_to_f64_value [OF lt] f32_split [of x] by (simp only: f64_to_f32_def fnum.case of_nat_unat ucast_id)
qed

section \<open>Properties\<close>

text \<open>
  Widening a 32-bit float to 64 bits and narrowing it again is the identity on every bit
  pattern that is not a NaN: zeros of both signs, subnormals, normal numbers and infinities.
\<close>

theorem f32_widen_narrow:
  "unat (x :: 32 word) mod 2 ^ 31 \<le> 0x7F800000 \<Longrightarrow> f64_to_f32 (f32_to_f64 x) = x"
  by (rule f32_roundtrip) (simp add: f32_top_def)

theorem f32_widen_narrow_witness: "f64_to_f32 (f32_to_f64 0x80000001) = 0x80000001"
  using f32_widen_narrow [of "0x80000001"] by simp

text \<open>
  The half-precision encoder does not round to nearest: it cuts the fraction off (a value just
  below the next half above 1 becomes 1), flushes subnormal halves to zero (\<open>2^-15\<close>), and turns
  a not-a-number into an infinity.
\<close>

theorem f16_encode_truncates:
  "f64_to_f16 (f32_to_f64 0x3F801FFF) = 0x3C00 \<and> f64_to_f16 (f32_to_f64 0x38000000) = 0
   \<and> f64_to_f16 f64_nan = 0x7C00"
proof -
  have "f64_to_f32 (f32_to_f64 0x3F801FFF) = 0x3F801FFF" "f64_to_f32 (f32_to_f64 0x38000000) = 0x38000000"
    by (rule f32_roundtrip; simp add: f32_top_def)+
  moreover have "f64_to_f16 f64_nan = 0x7C00"
    by code_simp
  ultimately show ?thesis
    by (simp add: f64_to_f16_def Let_def)
qed

end
