(* ===== verification/DateTime.thy ===== *)
theory DateTime
  imports Layout
begin

text \<open>
  Date, time and timestamp display fields (\<open>datetime.rs\<close>). The calendar library chrono is a
  parameter: a date is its day number since 1970-01-01, a time of day its seconds and
  nanoseconds, a timestamp its microseconds since the epoch. \<open>None\<close> from a formatting function
  is a format string that chrono cannot render, where \<open>to_string\<close> panics.
\<close>

record chrono =
  c_parse_date :: "rstr \<Rightarrow> rstr \<Rightarrow> int option"
  c_parse_time :: "rstr \<Rightarrow> rstr \<Rightarrow> (nat \<times> nat) option"
  c_parse_timestamp :: "rstr \<Rightarrow> rstr \<Rightarrow> int option"
  c_date_in_range :: "int \<Rightarrow> bool"
  c_timestamp_in_range :: "int \<Rightarrow> bool"
  c_time_opt :: "nat \<Rightarrow> nat \<Rightarrow> (nat \<times> nat) option"
  c_format_date :: "int \<Rightarrow> rstr \<Rightarrow> rstr option"
  c_format_time :: "nat \<times> nat \<Rightarrow> rstr \<Rightarrow> rstr option"
  c_format_timestamp :: "int \<Rightarrow> rstr \<Rightarrow> rstr option"

definition time_to_micros :: "nat \<times> nat \<Rightarrow> int" where
  "time_to_micros t = int (fst t) * 1000000 + int (snd t div 1000)"

text \<open>\<open>secs as u32\<close> keeps the low 32 bits.\<close>

definition time_from_micros :: "chrono \<Rightarrow> int \<Rightarrow> rstr \<Rightarrow> error + (nat \<times> nat)" where
  "time_from_micros c micros fld =
     (let secs = micros div 1000000;
          nanos = micros mod 1000000 * 1000
      in ok_or (c_time_opt c (nat (secs mod 2 ^ 32)) (nat nanos)) (TimeRange fld micros))"

definition wrap_i32 :: "int \<Rightarrow> int" where
  "wrap_i32 x = (x + 2 ^ 31) mod 2 ^ 32 - 2 ^ 31"

definition datetime_parse :: "chrono \<Rightarrow> date_time_kind \<Rightarrow> rstr \<Rightarrow> bytes \<Rightarrow> rstr \<Rightarrow> error + fval" where
  "datetime_parse c kind fmt bs fld =
     (let s = trim (utf8_lossy bs);
          bad = (\<lambda>what. CannotParse fld what bs fmt)
      in case kind of
           DDate \<Rightarrow> rbind (ok_or (c_parse_date c s fmt) (bad (lit ''date'')))
             (\<lambda>d. Ok (VDate (wrap_i32 d)))
         | DTime \<Rightarrow> rbind (ok_or (c_parse_time c s fmt) (bad (lit ''time'')))
             (\<lambda>t. Ok (VTime (time_to_micros t)))
         | DTimestamp \<Rightarrow> rbind (ok_or (c_parse_timestamp c s fmt) (bad (lit ''timestamp'')))
             (\<lambda>t. Ok (VTimestamp t)))"

definition rendered :: "rstr option \<Rightarrow> error + rstr" where
  "rendered r = ok_or r (Panic ''a Display implementation returned an error unexpectedly'')"

definition datetime_format :: "chrono \<Rightarrow> fval \<Rightarrow> rstr \<Rightarrow> nat \<Rightarrow> rstr \<Rightarrow> error + bytes" where
  "datetime_format c v fmt width fld =
     rbind (case v of
        VDate days \<Rightarrow>
          if c_date_in_range c days then rendered (c_format_date c days fmt)
          else Err (DateRange fld days)
      | VTime micros \<Rightarrow>
          rbind (time_from_micros c micros fld) (\<lambda>t. rendered (c_format_time c t fmt))
      | VTimestamp micros \<Rightarrow>
          if c_timestamp_in_range c micros then rendered (c_format_timestamp c micros fmt)
          else Err (TimestampRange fld micros)
      | VNull \<Rightarrow> Ok []
      | _ \<Rightarrow> Err (ExpectedTemporal fld))
     (\<lambda>rendered.
       let bs = utf8 rendered in
       if length bs > width then Err (FormattedNoFit fld (length bs) width)
       else Ok (bs @ replicate (width - length bs) (byte_of (ch CHR '' ''))))"

section \<open>Facts\<close>

lemma datetime_format_length [codec_len]:
  "datetime_format c v fmt width fld = Ok bs \<Longrightarrow> length bs = width"
  by (auto simp: datetime_format_def Let_def split: if_splits)

text \<open>
  What the round trip relies on: chrono parses back what it formatted, and the text has no
  surrounding blanks.
\<close>

definition chrono_inverts :: "chrono \<Rightarrow> rstr \<Rightarrow> fval \<Rightarrow> bool" where
  "chrono_inverts c fmt v =
     (case v of
        VDate d \<Rightarrow> (case c_format_date c d fmt of None \<Rightarrow> False
          | Some s \<Rightarrow> list_all is_scalar s \<and> trim s = s \<and> c_parse_date c s fmt = Some d)
      | VTime t \<Rightarrow> (case time_from_micros c t [] of Inl e \<Rightarrow> False
          | Inr p \<Rightarrow> time_to_micros p = t \<and> (case c_format_time c p fmt of None \<Rightarrow> False
             | Some s \<Rightarrow> list_all is_scalar s \<and> trim s = s \<and> c_parse_time c s fmt = Some p))
      | VTimestamp t \<Rightarrow> (case c_format_timestamp c t fmt of None \<Rightarrow> False
          | Some s \<Rightarrow> list_all is_scalar s \<and> trim s = s \<and> c_parse_timestamp c s fmt = Some t)
      | _ \<Rightarrow> False)"

definition temporal_kind :: "fval \<Rightarrow> date_time_kind option" where
  "temporal_kind v =
     (case v of VDate d \<Rightarrow> Some DDate | VTime t \<Rightarrow> Some DTime | VTimestamp t \<Rightarrow> Some DTimestamp
      | _ \<Rightarrow> None)"

lemma trim_pad_spaces: "trim s = s \<Longrightarrow> trim (s @ replicate n 32) = s"
proof -
  assume s: "trim s = s"
  show ?thesis
  proof (cases "\<forall>x \<in> set s. is_white x")
    case True
    then have "dropWhile is_white s = []" by simp
    then have "trim s = []"
      using True by (auto simp: trim_def trim_start_def trim_start_by_def trim_end_def trim_end_by_def dest: set_dropWhileD)
    then have "s = []"
      using s by simp
    then show ?thesis
      by (simp add: trim_def trim_start_def trim_start_by_def trim_end_def trim_end_by_def is_white_def)
  next
    case False
    then have "dropWhile is_white (s @ replicate n 32) = dropWhile is_white s @ replicate n 32"
      by (auto simp: dropWhile_append)
    then show ?thesis
      using s by (simp add: trim_def trim_start_def trim_start_by_def trim_end_def
          trim_end_by_def dropWhile_replicate_append is_white_def)
  qed
qed

lemma lossy_padded:
  "list_all is_scalar s \<Longrightarrow> utf8_lossy (utf8 s @ replicate n (byte_of 32)) = s @ replicate n 32"
proof -
  assume s: "list_all is_scalar s"
  have "utf8 s @ replicate n (byte_of 32) = utf8 (s @ replicate n 32)"
    by (simp add: utf8_ascii is_ascii_def)
  moreover have "\<forall>c \<in> set (s @ replicate n 32). is_scalar c"
    using s by (auto simp: list_all_iff is_scalar_def)
  ultimately show ?thesis
    using utf8_lossy_utf8 by metis
qed

lemma datetime_parse_format [codec_rt]:
  assumes "datetime_format c v fmt width fld = Ok bs" and "chrono_inverts c fmt v"
    and "temporal_kind v = Some kind" and "\<And>d. v = VDate d \<Longrightarrow> wrap_i32 d = d"
  shows "datetime_parse c kind fmt bs fld = Ok v"
  using assms
  by (auto simp: datetime_format_def chrono_inverts_def temporal_kind_def datetime_parse_def Let_def
      rendered_def lossy_padded trim_pad_spaces time_from_micros_def
      split: fval.splits option.splits if_splits sum.splits)

end
