(* ===== verification/Decode.thy ===== *)
theory Decode
  imports Ebcdic Packed Zoned Edited Floats DateTime
begin

text \<open>
  Decoding a record (\<open>decode.rs\<close>): the codec of each field kind, then the walk over the layout
  tree. \<open>decode_fields\<close> is the loop of \<open>decode_seq\<close> with its \<open>shift\<close> and \<open>end\<close>
  counters as arguments, \<open>decode_items\<close> the loop over the occurrences of \<open>decode_field\<close>. The
  scope of decoded integers is threaded through as a map.
\<close>

section \<open>Field codecs\<close>

definition slice :: "bytes \<Rightarrow> nat \<Rightarrow> nat \<Rightarrow> error + bytes" where
  "slice bs pos width = ok_or (get_slice bs pos width) (FieldOverrun pos width)"

definition to_ascii :: "bytes \<Rightarrow> encoding \<Rightarrow> bytes" where
  "to_ascii s enc = (case enc of Ascii \<Rightarrow> s | Ebcdic \<Rightarrow> decode_slice s)"

definition trim_pad :: "rstr \<Rightarrow> justify \<Rightarrow> rchar \<Rightarrow> rstr" where
  "trim_pad s justify pad =
     takeWhile (\<lambda>c. c \<noteq> 0)
       (case justify of
          JLeft \<Rightarrow> trim_end_by (\<lambda>c. c = pad) s
        | JRight \<Rightarrow> trim_start_by (\<lambda>c. c = pad) s)"

definition strip_separate_sign :: "rstr \<Rightarrow> sign_kind \<Rightarrow> rstr \<times> bool" where
  "strip_separate_sign s sign =
     (case sign of
        SLeading \<Rightarrow>
          let s = trim_start s in
          (case strip_prefix (lit ''-'') s of Some rest \<Rightarrow> (rest, True)
           | None \<Rightarrow> (case strip_prefix (lit ''+'') s of Some rest \<Rightarrow> (rest, False)
                     | None \<Rightarrow> (s, False)))
      | STrailing \<Rightarrow>
          let s = trim_end s in
          (case strip_suffix (lit ''-'') s of Some rest \<Rightarrow> (rest, True)
           | None \<Rightarrow> (case strip_suffix (lit ''+'') s of Some rest \<Rightarrow> (rest, False)
                     | None \<Rightarrow> (s, False)))
      | _ \<Rightarrow> (s, False))"

definition parse_display_int :: "bytes \<Rightarrow> sign_kind \<Rightarrow> error + int" where
  "parse_display_int ascii sign =
     (let (digits, negative) = strip_separate_sign (trim (utf8_lossy ascii)) sign;
          digits = trim digits
      in rbind (if digits = [] then Ok 0 else ok_or (parse_i64 digits) (InvalidNumeric digits))
           (\<lambda>mag. Ok (if negative then wrap_i64 (- mag) else mag)))"

definition parse_display_decimal :: "bytes \<Rightarrow> sign_kind \<Rightarrow> error + int" where
  "parse_display_decimal ascii sign =
     (let (digits, negative) = strip_separate_sign (trim (utf8_lossy ascii)) sign;
          digits = filter is_ascii_digit digits
      in rbind (if digits = [] then Ok 0 else ok_or (parse_i128 digits) (InvalidDecimal digits))
           (\<lambda>mag. Ok (if negative then wrap_i128 (- mag) else mag)))"

text \<open>\<open>from_be_bytes\<close>\<close>

definition be_val :: "bytes \<Rightarrow> nat" where
  "be_val bs = foldl (\<lambda>a b. a * 256 + unat b) 0 bs"

definition ordered :: "endian \<Rightarrow> bytes \<Rightarrow> bytes" where
  "ordered endian bs = (case endian of Big \<Rightarrow> bs | Little \<Rightarrow> rev bs)"

definition parse_binary_int :: "bytes \<Rightarrow> endian \<Rightarrow> bool \<Rightarrow> error + int" where
  "parse_binary_int s endian sgnd =
     (let n = length s in
      if n = 0 \<or> n > 8 then Err (BinaryWidth n)
      else
        let normalized = ordered endian s;
            raw = int (be_val normalized);
            v = (if sgnd \<and> normalized ! 0 AND 0x80 \<noteq> 0 then raw - 2 ^ (8 * n) else raw)
        in Ok (wrap_i64 v))"

definition parse_float :: "bytes \<Rightarrow> nat \<Rightarrow> endian \<Rightarrow> error + f64" where
  "parse_float s bits endian =
     (let bs = ordered endian s in
      if bits = 32 then
        (if length bs = 4 then Ok (f32_to_f64 (word_of_nat (be_val bs))) else Err (FloatBytes 4))
      else if bits = 64 then
        (if length bs = 8 then Ok (word_of_nat (be_val bs)) else Err (FloatBytes 8))
      else if bits = 16 then
        (if length bs = 2 then Ok (f16_to_f64 (word_of_nat (be_val bs))) else Err (FloatBytes 2))
      else Err (FloatWidth bits))"

definition nibble_hex :: "nat \<Rightarrow> rchar" where
  "nibble_hex n =
     (if n < 10 then ch CHR ''0'' + n else if n < 16 then ch CHR ''a'' + (n - 10) else ch CHR ''0'')"

definition to_hex :: "bytes \<Rightarrow> endian \<Rightarrow> rstr" where
  "to_hex s order =
     concat (map (\<lambda>b. case order of
         Big \<Rightarrow> [nibble_hex (unat (drop_bit 4 b)), nibble_hex (unat (b AND 0x0F))]
       | Little \<Rightarrow> [nibble_hex (unat (b AND 0x0F)), nibble_hex (unat (drop_bit 4 b))]) s)"

text \<open>The arms of \<open>decode_one\<close> other than groups, on the slice of the field.\<close>

definition decode_leaf :: "chrono \<Rightarrow> field \<Rightarrow> bytes \<Rightarrow> encoding \<Rightarrow> error + fval" where
  "decode_leaf c f s enc =
     (case f_kind f of
        KText justify trimming pad \<Rightarrow>
          let t = utf8_lossy (to_ascii s enc) in
          Ok (VText (if trimming then trim_pad t justify (unat pad) else t))
      | KInt sgnd sign \<Rightarrow> rmap_value VInt (parse_display_int (to_ascii s enc) sign)
      | KBinary endian sgnd \<Rightarrow> rmap_value VInt (parse_binary_int s endian sgnd)
      | KFloat bits endian \<Rightarrow> rmap_value VFloat (parse_float s bits endian)
      | KHex order \<Rightarrow> Ok (VText (to_hex s order))
      | KBool \<Rightarrow> Ok (VBool (list_ex (\<lambda>b. b \<noteq> 0 \<and> b \<noteq> byte_of (ch CHR ''0'')) s))
      | KPad pad \<Rightarrow> Ok VNull
      | KDecimal precision scale repr sign \<Rightarrow>
          rmap_value (\<lambda>u. VDecimal u scale)
            (case repr of
               RComp3 \<Rightarrow> packed_decode s
             | RZoned \<Rightarrow> zoned_decode (to_ascii s enc)
             | RDisplay \<Rightarrow> parse_display_decimal (to_ascii s enc) sign)
      | KDateTime kind fmt \<Rightarrow> datetime_parse c kind fmt (to_ascii s enc) (f_name f)
      | KEdited precision scale sgnd msk \<Rightarrow>
          rmap_value (\<lambda>u. VDecimal u scale) (edited_decode (to_ascii s enc) sgnd)
      | KGroup children \<Rightarrow> Err (Panic ''unreachable: handled above''))"

section \<open>The walk\<close>

type_synonym scope = "rstr \<rightharpoonup> int"
type_synonym pairs = "(rstr \<times> fval) list"

text \<open>How many occurrences a field has: \<open>None\<close> for a single value that is not a list.\<close>

definition decode_count :: "field \<Rightarrow> scope \<Rightarrow> error + nat option" where
  "decode_count f sc =
     (case f_depending_on f of
        Some ctrl \<Rightarrow>
          rbind (ok_or (sc (to_ascii_uppercase ctrl)) (OdoNotDecoded ctrl)) (\<lambda>n.
            if n < 0 then Err (OdoNegative ctrl n)
            else case f_occurs f of
              Some limit \<Rightarrow> if nat n > limit then Err (OdoExceeds ctrl n limit) else Ok (Some (nat n))
            | None \<Rightarrow> Ok (Some (nat n)))
      | None \<Rightarrow> Ok (f_occurs f))"

definition scope_insert :: "field \<Rightarrow> fval \<Rightarrow> scope \<Rightarrow> scope" where
  "scope_insert f v sc = (case v of VInt n \<Rightarrow> sc(to_ascii_uppercase (f_name f) \<mapsto> n) | _ \<Rightarrow> sc)"

lemma size_children: "f_kind f = KGroup cs \<Longrightarrow> size_list size cs < size f"
  by (cases f) simp

function (sequential)
    decode_fields :: "chrono \<Rightarrow> bytes \<Rightarrow> encoding \<Rightarrow> field list \<Rightarrow> nat \<Rightarrow> nat \<Rightarrow> nat \<Rightarrow> scope
      \<Rightarrow> error + (pairs \<times> nat \<times> scope)"
and decode_field :: "chrono \<Rightarrow> bytes \<Rightarrow> encoding \<Rightarrow> field \<Rightarrow> nat \<Rightarrow> scope
      \<Rightarrow> error + (fval \<times> nat \<times> scope)"
and decode_items :: "chrono \<Rightarrow> bytes \<Rightarrow> encoding \<Rightarrow> field \<Rightarrow> nat \<Rightarrow> nat \<Rightarrow> nat \<Rightarrow> scope
      \<Rightarrow> error + (fval list \<times> nat \<times> scope)"
and decode_one :: "chrono \<Rightarrow> bytes \<Rightarrow> encoding \<Rightarrow> field \<Rightarrow> nat \<Rightarrow> scope
      \<Rightarrow> error + (fval \<times> nat \<times> scope)"
where
  "decode_fields c bs enc [] base shift fin sc = Ok ([], fin, sc)"
| "decode_fields c bs enc (f # fs) base shift fin sc =
     (let pos = base + f_offset f + shift in
      rbind (decode_field c bs enc f pos sc) (\<lambda>(v, consumed, sc).
      let shift = shift + (consumed - reserved_width f);
          fin = max fin (pos + consumed)
      in if is_pad f then decode_fields c bs enc fs base shift fin sc
         else rbind (decode_fields c bs enc fs base shift fin (scope_insert f v sc)) (\<lambda>(out, fin, sc).
              Ok ((f_name f, v) # out, fin, sc))))"
| "decode_field c bs enc f pos sc =
     rbind (decode_count f sc) (\<lambda>count.
       case count of
         None \<Rightarrow> decode_one c bs enc f pos sc
       | Some n \<Rightarrow> rbind (decode_items c bs enc f n n pos sc) (\<lambda>(items, cursor, sc).
           Ok (VList items, cursor - pos, sc)))"
| "decode_items c bs enc f n 0 cursor sc = Ok ([], cursor, sc)"
| "decode_items c bs enc f n (Suc k) cursor sc =
     rbind (decode_one c bs enc f cursor sc) (\<lambda>(v, consumed, sc).
       if consumed = 0 then Err (OccursZero n)
       else rbind (decode_items c bs enc f n k (cursor + consumed) sc) (\<lambda>(items, cursor, sc).
            Ok (v # items, cursor, sc)))"
| "decode_one c bs enc f pos sc =
     (case f_kind f of
        KGroup children \<Rightarrow>
          rbind (decode_fields c bs enc children pos 0 pos sc) (\<lambda>(pairs, fin, sc).
          Ok (VStruct pairs, fin - pos, sc))
      | _ \<Rightarrow>
          rbind (slice bs pos (f_width f)) (\<lambda>s.
          rbind (decode_leaf c f s enc) (\<lambda>v.
          Ok (v, f_width f, sc))))"
  by pat_completeness auto

termination
  by (relation "measures [\<lambda>x. (case x of
         Inl (Inl (_, _, _, fs, _)) \<Rightarrow> size_list size fs
       | Inl (Inr (_, _, _, f, _)) \<Rightarrow> size f
       | Inr (Inl (_, _, _, f, _)) \<Rightarrow> size f
       | Inr (Inr (_, _, _, f, _)) \<Rightarrow> size f),
     \<lambda>x. (case x of
         Inl (Inl _) \<Rightarrow> 0
       | Inl (Inr _) \<Rightarrow> 3
       | Inr (Inl _) \<Rightarrow> 2
       | Inr (Inr _) \<Rightarrow> 1),
     \<lambda>x. (case x of Inr (Inl (_, _, _, _, _, k, _)) \<Rightarrow> k | _ \<Rightarrow> 0)]")
    (auto simp: size_children)

definition decode_seq ::
  "chrono \<Rightarrow> bytes \<Rightarrow> encoding \<Rightarrow> field list \<Rightarrow> nat \<Rightarrow> scope \<Rightarrow> error + (pairs \<times> nat \<times> scope)" where
  "decode_seq c bs enc fs base sc =
     rbind (decode_fields c bs enc fs base 0 base sc) (\<lambda>(out, fin, sc). Ok (out, fin - base, sc))"

definition decode_record :: "chrono \<Rightarrow> layout \<Rightarrow> bytes \<Rightarrow> encoding \<Rightarrow> error + pairs" where
  "decode_record c l bs enc =
     rbind (check_record_len l (length bs)) (\<lambda>_.
     rbind (decode_seq c bs enc (l_fields l) 0 Map.empty) (\<lambda>(pairs, consumed, sc).
     Ok pairs))"

end
