(* ===== verification/Encode.thy ===== *)
theory Encode
  imports Decode "HOL-Library.Signed_Division"
begin

text \<open>
  Encoding a record (\<open>encode.rs\<close>): the coercions of values, the codec of each field kind, and
  the walk that writes each field into a growing buffer. The buffer is passed through and
  returned; \<open>encode_fields\<close> is the loop of \<open>encode_seq\<close>, \<open>encode_items\<close> the loop of
  \<open>encode_field\<close> over the occurrences. Buffers are as long as their layout asks for: the capacity
  overflow of \<open>vec!\<close> beyond \<open>isize::MAX\<close> bytes is not modelled.
\<close>

section \<open>The buffer\<close>

definition maybe_ebcdic :: "bytes \<Rightarrow> encoding \<Rightarrow> bytes" where
  "maybe_ebcdic bs enc = (case enc of Ascii \<Rightarrow> bs | Ebcdic \<Rightarrow> encode_slice bs)"

definition ensure :: "bytes \<Rightarrow> nat \<Rightarrow> bytes" where
  "ensure buf n = buf @ replicate (n - length buf) 0"

definition put :: "bytes \<Rightarrow> nat \<Rightarrow> bytes \<Rightarrow> bytes" where
  "put buf pos bs =
     (let buf = ensure buf (pos + length bs) in
      take pos buf @ bs @ drop (pos + length bs) buf)"

definition fill :: "bytes \<Rightarrow> nat \<Rightarrow> nat \<Rightarrow> byte \<Rightarrow> encoding \<Rightarrow> bytes" where
  "fill buf pos width pad enc =
     (let b = (case enc of Ascii \<Rightarrow> pad | Ebcdic \<Rightarrow> to_ebcdic_byte pad);
          buf = ensure buf (pos + width)
      in take pos buf @ replicate width b @ drop (pos + width) buf)"

definition justify_pad :: "bytes \<Rightarrow> nat \<Rightarrow> justify \<Rightarrow> byte \<Rightarrow> error + bytes" where
  "justify_pad bs width justify pad =
     (if length bs > width then Err (TextNoFit (length bs) width)
      else Ok (case justify of
          JLeft \<Rightarrow> bs @ replicate (width - length bs) pad
        | JRight \<Rightarrow> replicate (width - length bs) pad @ bs))"

section \<open>Coercions\<close>

definition display_scalar :: "fval \<Rightarrow> rstr" where
  "display_scalar v =
     (case v of
        VText s \<Rightarrow> s
      | VInt i \<Rightarrow> int_str i
      | VFloat f \<Rightarrow> f64_string f
      | VBool b \<Rightarrow> if b then lit ''true'' else lit ''false''
      | VDecimal unscaled scale \<Rightarrow> decimal_string unscaled scale
      | _ \<Rightarrow> [])"

definition as_i128 :: "fval \<Rightarrow> error + int" where
  "as_i128 v =
     (case v of
        VInt i \<Rightarrow> Ok i
      | VDecimal unscaled scale \<Rightarrow> if scale = 0 then Ok unscaled else Err ExpectedInteger
      | VNull \<Rightarrow> Ok 0
      | VText s \<Rightarrow> ok_or (parse_i128 (trim s)) (NotInteger s)
      | _ \<Rightarrow> Err ExpectedInteger)"

definition as_f64 :: "fval \<Rightarrow> error + f64" where
  "as_f64 v =
     (case v of
        VFloat f \<Rightarrow> Ok f
      | VInt i \<Rightarrow> Ok (int_to_f64 i)
      | VDecimal unscaled scale \<Rightarrow>
          Ok (f64_div (int_to_f64 unscaled) (f64_powi (int_to_f64 10) (int scale)))
      | VNull \<Rightarrow> Ok (int_to_f64 0)
      | _ \<Rightarrow> Err ExpectedFloat)"

text \<open>
  \<open>10i128.pow(k)\<close>, the product and the quotient wrap in a release build; the power is 0 from
  \<open>k = 128\<close> on, and dividing by it panics.
\<close>

definition rescale :: "int \<Rightarrow> nat \<Rightarrow> nat \<Rightarrow> error + int" where
  "rescale unscaled src dst =
     (if src = dst then Ok unscaled
      else if src < dst then Ok (wrap_i128 (unscaled * wrap_i128 (10 ^ (dst - src))))
      else
        let d = wrap_i128 (10 ^ (src - dst)) in
        if d = 0 then Err (Panic ''attempt to divide by zero'') else Ok (unscaled sdiv d))"

definition as_decimal :: "fval \<Rightarrow> nat \<Rightarrow> error + int" where
  "as_decimal v scale =
     (case v of
        VDecimal unscaled s \<Rightarrow> rescale unscaled s scale
      | VInt i \<Rightarrow> rescale i 0 scale
      | VNull \<Rightarrow> Ok 0
      | VFloat f \<Rightarrow> Ok (f64_round_i128 (f64_mul f (f64_powi (int_to_f64 10) (int scale))))
      | _ \<Rightarrow> Err ExpectedDecimal)"

section \<open>Field codecs\<close>

definition zero_pad :: "rstr \<Rightarrow> nat \<Rightarrow> error + rstr" where
  "zero_pad mag width =
     (if length mag > width then Err (DigitsNoFit mag width)
      else Ok (replicate (width - length mag) (ch CHR ''0'') @ mag))"

definition sign_char :: "bool \<Rightarrow> rchar" where
  "sign_char negative = (if negative then ch CHR ''-'' else ch CHR ''+'')"

definition encode_display_int :: "int \<Rightarrow> nat \<Rightarrow> bool \<Rightarrow> sign_kind \<Rightarrow> error + bytes" where
  "encode_display_int n width sgnd sign =
     (let negative = n < 0; mag = nat_str (nat \<bar>n\<bar>) in
      rmap_value utf8
       (case sign of
          SLeading \<Rightarrow>
            if width = 0 then Err WidthForSign
            else rmap_value (\<lambda>body. sign_char negative # body) (zero_pad mag (width - 1))
        | STrailing \<Rightarrow>
            if width = 0 then Err WidthForSign
            else rmap_value (\<lambda>body. body @ [sign_char negative]) (zero_pad mag (width - 1))
        | _ \<Rightarrow> if negative \<and> \<not> sgnd then Err NegativeUnsigned else zero_pad mag width))"

definition encode_display_decimal :: "int \<Rightarrow> nat \<Rightarrow> nat \<Rightarrow> sign_kind \<Rightarrow> error + bytes" where
  "encode_display_decimal unscaled precision width sign =
     rbind (encode_display_int unscaled (max width precision) (sign \<noteq> SUnsigned) sign) (\<lambda>b.
       if length b > width then Err (DecimalNoFit width) else Ok b)"

text \<open>The low \<open>width\<close> bytes of \<open>n.to_be_bytes()\<close>.\<close>

fun be_bytes :: "nat \<Rightarrow> nat \<Rightarrow> bytes" where
  "be_bytes 0 n = []"
| "be_bytes (Suc w) n = be_bytes w (n div 256) @ [byte_of (n mod 256)]"

definition encode_binary_int :: "int \<Rightarrow> nat \<Rightarrow> endian \<Rightarrow> error + bytes" where
  "encode_binary_int n width endian =
     (if width = 0 \<or> width > 8 then Err (BinaryWidth width)
      else Ok (ordered endian (be_bytes width (nat (n mod 2 ^ 128)))))"

definition encode_float :: "f64 \<Rightarrow> nat \<Rightarrow> endian \<Rightarrow> error + bytes" where
  "encode_float f bits endian =
     rmap_value (ordered endian)
      (if bits = 32 then Ok (be_bytes 4 (unat (f64_to_f32 f)))
       else if bits = 64 then Ok (be_bytes 8 (unat f))
       else if bits = 16 then Ok (be_bytes 2 (unat (f64_to_f16 f)))
       else Err (FloatWidth bits))"

definition to_digit_16 :: "rchar \<Rightarrow> nat option" where
  "to_digit_16 c =
     (if is_ascii_digit c then Some (c - ch CHR ''0'')
      else if ch CHR ''a'' \<le> c \<and> c \<le> ch CHR ''f'' then Some (c - ch CHR ''a'' + 10)
      else if ch CHR ''A'' \<le> c \<and> c \<le> ch CHR ''F'' then Some (c - ch CHR ''A'' + 10)
      else None)"

definition hex_byte :: "endian \<Rightarrow> nat \<Rightarrow> nat \<Rightarrow> byte" where
  "hex_byte order hi lo =
     (case order of
        Big \<Rightarrow> push_bit 4 (byte_of hi) OR byte_of lo
      | Little \<Rightarrow> push_bit 4 (byte_of lo) OR byte_of hi)"

fun hex_pairs :: "endian \<Rightarrow> rstr \<Rightarrow> error + bytes" where
  "hex_pairs order [] = Ok []"
| "hex_pairs order [c] =
     rbind (ok_or (to_digit_16 c) (HexDigit c)) (\<lambda>hi. Err (Panic ''index out of bounds''))"
| "hex_pairs order (c # d # cs) =
     rbind (ok_or (to_digit_16 c) (HexDigit c)) (\<lambda>hi.
     rbind (ok_or (to_digit_16 d) (HexDigit d)) (\<lambda>lo.
     rbind (hex_pairs order cs) (\<lambda>bs. Ok (hex_byte order hi lo # bs))))"

definition encode_hex :: "rstr \<Rightarrow> nat \<Rightarrow> endian \<Rightarrow> error + bytes" where
  "encode_hex s width order =
     (let clean = filter (\<lambda>c. \<not> is_white c) s in
      if odd (length (utf8 clean)) then Err HexOdd
      else rbind (hex_pairs order clean) (\<lambda>bs.
        if length bs > width then Err (HexNoFit (length bs) width)
        else Ok (bs @ replicate (width - length bs) 0)))"

section \<open>One occurrence\<close>

text \<open>The arms of \<open>encode_one\<close> other than groups; each returns the new buffer.\<close>

definition encode_leaf :: "chrono \<Rightarrow> field \<Rightarrow> nat \<Rightarrow> bytes \<Rightarrow> fval \<Rightarrow> encoding \<Rightarrow> error + bytes" where
  "encode_leaf c f pos buf v enc =
     (let width = f_width f; write = rmap_value (put buf pos) in
      case f_kind f of
        KText justify trimming pad \<Rightarrow>
          let s = (case v of VText s \<Rightarrow> s | VNull \<Rightarrow> [] | other \<Rightarrow> display_scalar other) in
          write (rmap_value (\<lambda>bs. maybe_ebcdic bs enc) (justify_pad (utf8 s) width justify pad))
      | KInt sgnd sign \<Rightarrow>
          rbind (as_i128 v) (\<lambda>n.
          write (rmap_value (\<lambda>bs. maybe_ebcdic bs enc) (encode_display_int n width sgnd sign)))
      | KBinary endian sgnd \<Rightarrow>
          rbind (as_i128 v) (\<lambda>n. write (encode_binary_int n width endian))
      | KFloat bits endian \<Rightarrow>
          rbind (as_f64 v) (\<lambda>x. write (encode_float x bits endian))
      | KHex order \<Rightarrow>
          rbind (case v of VText s \<Rightarrow> Ok s | VNull \<Rightarrow> Ok [] | _ \<Rightarrow> Err HexExpectsText) (\<lambda>s.
          write (encode_hex s width order))
      | KBool \<Rightarrow>
          Ok (put buf pos [if v = VBool True \<or> v = VInt 1 then 1 else 0])
      | KPad pad \<Rightarrow> Ok (fill buf pos width pad enc)
      | KDecimal precision scale repr sign \<Rightarrow>
          rbind (as_decimal v scale) (\<lambda>unscaled.
          let sgnd = (sign \<noteq> SUnsigned) in
          write (case repr of
              RComp3 \<Rightarrow> packed_encode unscaled width sgnd
            | RZoned \<Rightarrow> rmap_value (\<lambda>bs. maybe_ebcdic bs enc) (zoned_encode unscaled width sgnd)
            | RDisplay \<Rightarrow> rmap_value (\<lambda>bs. maybe_ebcdic bs enc)
                (encode_display_decimal unscaled precision width sign)))
      | KDateTime kind fmt \<Rightarrow>
          write (rmap_value (\<lambda>bs. maybe_ebcdic bs enc) (datetime_format c v fmt width (f_name f)))
      | KEdited precision scale sgnd msk \<Rightarrow>
          rbind (as_decimal v scale) (\<lambda>unscaled.
          write (rmap_value (\<lambda>bs. maybe_ebcdic bs enc) (edited_encode unscaled msk)))
      | KGroup children \<Rightarrow> Err (Panic ''handled by encode_one''))"

section \<open>The walk\<close>

fun lookup_value :: "pairs \<Rightarrow> rstr \<Rightarrow> fval" where
  "lookup_value [] name = VNull"
| "lookup_value ((n, v) # vs) name =
     (if eq_ignore_ascii_case n name then v else lookup_value vs name)"

definition encode_count :: "field \<Rightarrow> fval \<Rightarrow> error + nat option" where
  "encode_count f v =
     (if f_depending_on f \<noteq> None then
        (case v of VList items \<Rightarrow> Ok (Some (length items)) | VNull \<Rightarrow> Ok (Some 0)
         | _ \<Rightarrow> Err (ExpectsList (f_name f)))
      else Ok (f_occurs f))"

definition encode_list :: "field \<Rightarrow> fval \<Rightarrow> nat \<Rightarrow> error + fval list" where
  "encode_list f v n =
     (case v of VList items \<Rightarrow> Ok items | VNull \<Rightarrow> Ok (replicate n VNull)
      | _ \<Rightarrow> Err (ExpectsList (f_name f)))"

definition nth_or_null :: "fval list \<Rightarrow> nat \<Rightarrow> fval" where
  "nth_or_null items i = (if i < length items then items ! i else VNull)"

definition struct_fields :: "field \<Rightarrow> fval \<Rightarrow> error + pairs" where
  "struct_fields f v =
     (case v of VStruct fs \<Rightarrow> Ok fs | VNull \<Rightarrow> Ok [] | _ \<Rightarrow> Err (ExpectsStruct (f_name f)))"

function (sequential)
    encode_fields :: "chrono \<Rightarrow> encoding \<Rightarrow> field list \<Rightarrow> nat \<Rightarrow> nat \<Rightarrow> nat \<Rightarrow> bytes \<Rightarrow> pairs
      \<Rightarrow> error + (bytes \<times> nat)"
and encode_field :: "chrono \<Rightarrow> encoding \<Rightarrow> field \<Rightarrow> nat \<Rightarrow> bytes \<Rightarrow> fval \<Rightarrow> error + (bytes \<times> nat)"
and encode_items :: "chrono \<Rightarrow> encoding \<Rightarrow> field \<Rightarrow> fval list \<Rightarrow> nat \<Rightarrow> nat \<Rightarrow> nat \<Rightarrow> bytes
      \<Rightarrow> error + (bytes \<times> nat)"
and encode_one :: "chrono \<Rightarrow> encoding \<Rightarrow> field \<Rightarrow> nat \<Rightarrow> bytes \<Rightarrow> fval \<Rightarrow> error + (bytes \<times> nat)"
where
  "encode_fields c enc [] base shift fin buf vs = Ok (buf, fin)"
| "encode_fields c enc (f # fs) base shift fin buf vs =
     (let pos = base + f_offset f + shift; v = lookup_value vs (f_name f) in
      rbind (encode_field c enc f pos buf v) (\<lambda>(buf, consumed).
      encode_fields c enc fs base (shift + (consumed - reserved_width f)) (max fin (pos + consumed))
        buf vs))"
| "encode_field c enc f pos buf v =
     rbind (encode_count f v) (\<lambda>count.
       case count of
         None \<Rightarrow> encode_one c enc f pos buf v
       | Some n \<Rightarrow>
           rbind (encode_list f v n) (\<lambda>items.
           rbind (encode_items c enc f items 0 n pos buf) (\<lambda>(buf, cursor).
           Ok (buf, cursor - pos))))"
| "encode_items c enc f items i 0 cursor buf = Ok (buf, cursor)"
| "encode_items c enc f items i (Suc k) cursor buf =
     rbind (encode_one c enc f cursor buf (nth_or_null items i)) (\<lambda>(buf, consumed).
     encode_items c enc f items (i + 1) k (cursor + consumed) buf)"
| "encode_one c enc f pos buf v =
     (case f_kind f of
        KGroup children \<Rightarrow>
          rbind (struct_fields f v) (\<lambda>vs.
          rbind (encode_fields c enc children pos 0 pos buf vs) (\<lambda>(buf, fin).
          Ok (buf, fin - pos)))
      | _ \<Rightarrow> rmap_value (\<lambda>buf. (buf, f_width f)) (encode_leaf c f pos buf v enc))"
  by pat_completeness auto

termination
  by (relation "measures [\<lambda>x. (case x of
         Inl (Inl (_, _, fs, _)) \<Rightarrow> size_list size fs
       | Inl (Inr (_, _, f, _)) \<Rightarrow> size f
       | Inr (Inl (_, _, f, _)) \<Rightarrow> size f
       | Inr (Inr (_, _, f, _)) \<Rightarrow> size f),
     \<lambda>x. (case x of
         Inl (Inl _) \<Rightarrow> 0
       | Inl (Inr _) \<Rightarrow> 3
       | Inr (Inl _) \<Rightarrow> 2
       | Inr (Inr _) \<Rightarrow> 1),
     \<lambda>x. (case x of Inr (Inl (_, _, _, _, _, k, _)) \<Rightarrow> k | _ \<Rightarrow> 0)]")
    (auto simp: size_children)

definition encode_seq ::
  "chrono \<Rightarrow> encoding \<Rightarrow> field list \<Rightarrow> nat \<Rightarrow> bytes \<Rightarrow> pairs \<Rightarrow> error + (bytes \<times> nat)" where
  "encode_seq c enc fs base buf vs =
     rbind (encode_fields c enc fs base 0 base buf vs) (\<lambda>(buf, fin). Ok (buf, fin - base))"

definition encode_record :: "chrono \<Rightarrow> layout \<Rightarrow> pairs \<Rightarrow> encoding \<Rightarrow> error + bytes" where
  "encode_record c l vs enc =
     (let missing = map f_name
            (filter (\<lambda>f. \<not> list_ex (\<lambda>(n, v). eq_ignore_ascii_case n (f_name f)) vs)
              (filter (\<lambda>f. \<not> is_pad f) (l_fields l)))
      in if missing \<noteq> [] then Err (MissingFields missing (map fst vs))
         else rbind (encode_seq c enc (l_fields l) 0 (replicate (l_record_len l) 0) vs)
                (\<lambda>(buf, consumed). Ok buf))"

end
