(* ===== verification/FieldCodec.thy ===== *)
theory FieldCodec
  imports Encode
begin

text \<open>
  The field codecs of \<open>decode.rs\<close> and \<open>encode.rs\<close> against each other: for each kind of
  field the values it represents exactly (\<open>text_ok\<close>, \<open>display_ok\<close>, \<open>binary_ok\<close>, ...), and the
  proof that such a value is written in the full width of the field and read back unchanged.
  \<open>leaf_ok\<close> collects the conditions, \<open>leaf_roundtrip\<close> the proofs.
\<close>

section \<open>Transcoding\<close>

lemma to_ascii_maybe_ebcdic [simp]: "to_ascii (maybe_ebcdic bs enc) enc = bs"
  by (cases enc) (simp_all add: to_ascii_def maybe_ebcdic_def cp037.rd_wr)

lemma length_maybe_ebcdic [simp]: "length (maybe_ebcdic bs enc) = length bs"
  by (cases enc) (simp_all add: maybe_ebcdic_def cp037.wr_length)

section \<open>Text\<close>

definition text_ok :: "justify \<Rightarrow> bool \<Rightarrow> byte \<Rightarrow> nat \<Rightarrow> rstr \<Rightarrow> bool" where
  "text_ok justify trimming pad width s \<longleftrightarrow>
     list_all is_scalar s \<and> length (utf8 s) \<le> width \<and> unat pad < 0x80 \<and>
     (if trimming then
        0 \<notin> set s \<and> (s = [] \<or> (case justify of JLeft \<Rightarrow> last s \<noteq> unat pad | JRight \<Rightarrow> hd s \<noteq> unat pad))
      else length (utf8 s) = width)"

lemma utf8_lossy_pad_right:
  assumes "list_all is_scalar s" "unat pad < 0x80"
  shows "utf8_lossy (utf8 s @ replicate n pad) = s @ replicate n (unat pad)"
    "utf8_lossy (replicate n pad @ utf8 s) = replicate n (unat pad) @ s"
proof -
  have p: "utf8 (replicate n (unat pad)) = replicate n pad"
    using assms(2) by (simp add: utf8_ascii is_ascii_def)
  have sc: "\<forall>c \<in> set (s @ replicate n (unat pad)). is_scalar c" "\<forall>c \<in> set (replicate n (unat pad) @ s). is_scalar c"
    using assms by (auto simp: list_all_iff is_scalar_def)
  show "utf8_lossy (utf8 s @ replicate n pad) = s @ replicate n (unat pad)"
    using utf8_lossy_utf8 [OF sc(1)] p by simp
  show "utf8_lossy (replicate n pad @ utf8 s) = replicate n (unat pad) @ s"
    using utf8_lossy_utf8 [OF sc(2)] p by simp
qed

lemma takeWhile_no_nul: "(0::nat) \<notin> set s \<Longrightarrow> takeWhile ((<) 0) s = s"
  unfolding takeWhile_eq_all_conv using neq0_conv by metis

lemma text_roundtrip:
  assumes "text_ok justify trimming pad width s"
  shows "\<exists>bs. justify_pad (utf8 s) width justify pad = Ok bs \<and> length bs = width \<and>
    (if trimming then trim_pad (utf8_lossy bs) justify (unat pad) else utf8_lossy bs) = s"
proof -
  have sc: "list_all is_scalar s" "unat pad < 0x80"
    using assms by (simp_all add: text_ok_def)
  have u: "utf8_lossy (utf8 s) = s"
    using utf8_lossy_utf8 sc(1) by (simp add: list_all_iff)
  show ?thesis
  proof (cases justify)
    case JLeft
    then show ?thesis
      using assms utf8_lossy_pad_right [OF sc] u
      by (auto simp: text_ok_def justify_pad_def trim_pad_def trim_end_by_replicate trim_end_by_no takeWhile_no_nul)
  next
    case JRight
    then show ?thesis
      using assms utf8_lossy_pad_right [OF sc] u
      by (auto simp: text_ok_def justify_pad_def trim_pad_def trim_start_by_replicate trim_start_by_no takeWhile_no_nul)
  qed
qed

section \<open>Display numbers\<close>

definition display_ok :: "nat \<Rightarrow> sign_kind \<Rightarrow> int \<Rightarrow> bool" where
  "display_ok width sign n \<longleftrightarrow>
     (case sign of
        SLeading \<Rightarrow> 1 < width \<and> nat \<bar>n\<bar> < 10 ^ (width - 1)
      | STrailing \<Rightarrow> 1 < width \<and> nat \<bar>n\<bar> < 10 ^ (width - 1)
      | _ \<Rightarrow> 0 < width \<and> 0 \<le> n \<and> nat n < 10 ^ width)"

definition padded :: "nat \<Rightarrow> int \<Rightarrow> rstr" where
  "padded k n = replicate (k - length (nat_str (nat \<bar>n\<bar>))) (ch CHR ''0'') @ nat_str (nat \<bar>n\<bar>)"

definition display_text :: "nat \<Rightarrow> sign_kind \<Rightarrow> int \<Rightarrow> rstr" where
  "display_text width sign n =
     (case sign of
        SLeading \<Rightarrow> sign_char (n < 0) # padded (width - 1) n
      | STrailing \<Rightarrow> padded (width - 1) n @ [sign_char (n < 0)]
      | _ \<Rightarrow> padded width n)"

lemma padded_digits: "list_all is_ascii_digit (padded k n)"
  using zeros_digits nat_str_digits by (simp add: padded_def)

lemma padded_ne [simp]: "padded k n \<noteq> []"
  by (simp add: padded_def)

lemma digits_val_padded [simp]: "digits_val (padded k n) = nat \<bar>n\<bar>"
  by (simp add: padded_def)

lemma padded_length: "0 < k \<Longrightarrow> nat \<bar>n\<bar> < 10 ^ k \<Longrightarrow> length (padded k n) = k"
  using length_nat_str_le [of k "nat \<bar>n\<bar>"] by (simp add: padded_def)

lemma zero_pad_eq:
  "0 < k \<Longrightarrow> nat \<bar>n\<bar> < 10 ^ k \<Longrightarrow> zero_pad (nat_str (nat \<bar>n\<bar>)) k = Ok (padded k n)"
  using length_nat_str_le [of k "nat \<bar>n\<bar>"] by (simp add: zero_pad_def padded_def)

lemma display_text_ascii: "is_ascii (display_text width sign n)"
  using padded_digits [of _ n] digit_lt
  by (auto simp: display_text_def is_ascii_def list_all_iff sign_char_def split: sign_kind.splits)

lemma display_length: "display_ok width sign n \<Longrightarrow> length (display_text width sign n) = width"
  using padded_length by (auto simp: display_ok_def display_text_def split: sign_kind.splits)

lemma encode_display_int_eq:
  "display_ok width sign n \<Longrightarrow>
   encode_display_int n width sgnd sign = Ok (map byte_of (display_text width sign n))"
  using utf8_ascii [OF display_text_ascii [of width sign n]] zero_pad_eq [of "width - 1" n] zero_pad_eq [of width n]
  by (auto simp: display_ok_def display_text_def encode_display_int_def Let_def split: sign_kind.splits)

lemma digits_trim: "list_all is_ascii_digit s \<Longrightarrow> trim s = s"
  by (rule trim_none_white) (use digit_not_white in \<open>auto simp: list_all_iff\<close>)

lemma display_strip:
  assumes "display_ok width sign n"
  shows "\<exists>k. strip_separate_sign (trim (display_text width sign n)) sign
    = (padded k n, n < 0 \<and> (sign = SLeading \<or> sign = STrailing))"
proof -
  have nw: "\<forall>c \<in> set (display_text width sign n). \<not> is_white c"
    using padded_digits [of _ n] digit_not_white
    by (auto simp: display_text_def list_all_iff sign_char_def is_white_def split: sign_kind.splits)
  then have t: "trim (display_text width sign n) = display_text width sign n"
    by (rule trim_none_white)
  have ts: "trim_start (display_text width sign n) = display_text width sign n"
     "trim_end (display_text width sign n) = display_text width sign n"
    using nw by (cases "display_text width sign n = []"; simp add: trim_start_def trim_end_def trim_start_by_no trim_end_by_no)+
  show ?thesis
    unfolding t strip_separate_sign_def Let_def ts
    by (cases sign)
      (auto simp: display_text_def sign_char_def strip_prefix_def strip_suffix_def starts_with_def ends_with_def)
qed

lemma parse_i64_digits:
  "list_all is_ascii_digit s \<Longrightarrow> s \<noteq> [] \<Longrightarrow> digits_val s < 2 ^ 63 \<Longrightarrow> parse_i64 s = Some (int (digits_val s))"
  by (cases s) (auto simp: parse_i64_def parse_signed_def parse_digits_def starts_with_def is_ascii_digit_def)

lemma display_int_roundtrip:
  assumes "display_ok width sign n" "\<bar>n\<bar> < 2 ^ 63"
  shows "parse_display_int (map byte_of (display_text width sign n)) sign = Ok n"
proof -
  obtain k where "strip_separate_sign (trim (display_text width sign n)) sign
    = (padded k n, n < 0 \<and> (sign = SLeading \<or> sign = STrailing))"
    using display_strip [OF assms(1)] by blast
  moreover have "parse_i64 (padded k n) = Some \<bar>n\<bar>"
    using parse_i64_digits [OF padded_digits padded_ne, of k n] assms(2) by (simp add: nat_less_iff)
  moreover have "in_i64 n"
    using assms(2) by (auto simp: in_i64_def)
  moreover have "sign = SLeading \<or> sign = STrailing \<or> 0 \<le> n"
    using assms(1) by (auto simp: display_ok_def split: sign_kind.splits)
  ultimately show ?thesis
    using utf8_lossy_map_byte [OF display_text_ascii [of width sign n]]
    by (auto simp: parse_display_int_def digits_trim padded_digits Let_def)
qed

lemma display_decimal_roundtrip:
  assumes "display_ok width sign n" "\<bar>n\<bar> < 2 ^ 127"
  shows "parse_display_decimal (map byte_of (display_text width sign n)) sign = Ok n"
proof -
  obtain k where "strip_separate_sign (trim (display_text width sign n)) sign
    = (padded k n, n < 0 \<and> (sign = SLeading \<or> sign = STrailing))"
    using display_strip [OF assms(1)] by blast
  moreover have "parse_i128 (padded k n) = Some \<bar>n\<bar>"
    using parse_i128_digits [OF padded_digits padded_ne, of k n] assms(2) by (simp add: nat_less_iff)
  moreover have "in_i128 n"
    using assms(2) by (auto simp: in_i128_def)
  moreover have "sign = SLeading \<or> sign = STrailing \<or> 0 \<le> n"
    using assms(1) by (auto simp: display_ok_def split: sign_kind.splits)
  moreover have "filter is_ascii_digit (padded k n) = padded k n"
    using padded_digits [of k n] by (simp add: list_all_iff)
  ultimately show ?thesis
    using utf8_lossy_map_byte [OF display_text_ascii [of width sign n]]
    by (auto simp: parse_display_decimal_def Let_def)
qed
section \<open>Binary numbers\<close>

lemma ordered_ordered [simp]: "ordered e (ordered e bs) = bs"
  by (cases e) (simp_all add: ordered_def)

lemma length_ordered [simp]: "length (ordered e bs) = length bs"
  by (cases e) (simp_all add: ordered_def)

lemma length_be_bytes [simp]: "length (be_bytes w n) = w"
  by (induction w arbitrary: n) simp_all

lemma be_val_snoc: "be_val (bs @ [b]) = be_val bs * 256 + unat b"
  by (simp add: be_val_def)

lemma be_val_Nil [simp]: "be_val [] = 0"
  by (simp add: be_val_def)

lemma be_val_less: "be_val bs < 256 ^ length bs"
proof (induction bs rule: rev_induct)
  case (snoc b bs)
  have "Suc (be_val bs) * 256 \<le> 256 ^ length bs * 256"
    using snoc by (intro mult_le_mono1) simp
  moreover have "unat b < 256" by simp
  ultimately have "be_val bs * 256 + unat b < 256 ^ length bs * 256"
    unfolding mult_Suc by linarith
  then show ?case by (simp add: be_val_snoc mult.commute)
qed simp

lemma be_val_Cons: "be_val (b # bs) = unat b * 256 ^ length bs + be_val bs"
proof (induction bs rule: rev_induct)
  case Nil
  then show ?case using be_val_snoc [of "[]" b] by simp
next
  case (snoc c bs)
  have "be_val (b # bs @ [c]) = be_val (b # bs) * 256 + unat c"
    using be_val_snoc [of "b # bs" c] by simp
  with snoc show ?case by (simp add: be_val_snoc algebra_simps)
qed

lemma be_val_be_bytes: "be_val (be_bytes w n) = n mod 256 ^ w"
proof (induction w arbitrary: n)
  case (Suc w)
  have "n mod (256 * 256 ^ w) = 256 * (n div 256 mod 256 ^ w) + n mod 256"
    by (rule mod_mult2_eq)
  with Suc show ?case by (simp add: be_val_snoc)
qed simp

lemma be_bytes_be_val: "be_bytes (length bs) (be_val bs) = bs"
  by (induction bs rule: rev_induct) (simp_all add: be_val_snoc)

lemma top_bit: "(b :: byte) AND 0x80 \<noteq> 0 \<longleftrightarrow> 128 \<le> unat b"
proof -
  have "b AND 2 ^ 7 = 0 \<longleftrightarrow> \<not> bit b 7"
    by (rule and_exp_eq_0_iff_not_bit)
  moreover have "bit b 7 \<longleftrightarrow> bit (unat b) 7"
    by (simp add: bit_unsigned_iff)
  moreover have "bit (unat b) 7 \<longleftrightarrow> odd (unat b div 128)"
    by (simp add: bit_iff_odd)
  moreover have "odd (unat b div 128) \<longleftrightarrow> 128 \<le> unat b"
  proof -
    have "unat b div 128 < 2"
      by (simp add: div_less_iff_less_mult)
    then have "unat b div 128 = 0 \<or> unat b div 128 = 1"
      by linarith
    then show ?thesis by auto
  qed
  ultimately show ?thesis by simp
qed

lemma top_bit_be_val:
  assumes "bs \<noteq> []"
  shows "bs ! 0 AND 0x80 \<noteq> 0 \<longleftrightarrow> 2 ^ (8 * length bs - 1) \<le> be_val bs"
proof -
  obtain b cs where bs: "bs = b # cs"
    using assms by (cases bs) auto
  have "(2::nat) ^ (8 * length bs - 1) = 128 * 256 ^ length cs"
  proof -
    have "8 * length bs - 1 = 7 + 8 * length cs"
      by (simp add: bs)
    then have "(2::nat) ^ (8 * length bs - 1) = 2 ^ 7 * (2 ^ 8) ^ length cs"
      by (simp only: power_add power_mult)
    then show ?thesis by simp
  qed
  moreover have "128 * 256 ^ length cs \<le> unat b * 256 ^ length cs + be_val cs \<longleftrightarrow> 128 \<le> unat b"
  proof
    assume "128 * 256 ^ length cs \<le> unat b * 256 ^ length cs + be_val cs"
    then have "128 * 256 ^ length cs < (unat b + 1) * 256 ^ length cs"
      using be_val_less [of cs] unfolding distrib_right by linarith
    then have "128 < unat b + 1"
      by (simp only: mult_less_cancel2)
    then show "128 \<le> unat b" by simp
  next
    assume "128 \<le> unat b"
    then have "128 * 256 ^ length cs \<le> unat b * 256 ^ length cs"
      by simp
    then show "128 * 256 ^ length cs \<le> unat b * 256 ^ length cs + be_val cs"
      by linarith
  qed
  ultimately show ?thesis
    by (simp only: bs nth_Cons_0 top_bit be_val_Cons)
qed

definition binary_ok :: "nat \<Rightarrow> bool \<Rightarrow> int \<Rightarrow> bool" where
  "binary_ok width sgnd n \<longleftrightarrow>
     0 < width \<and> width \<le> 8 \<and> in_i64 n \<and>
     (if sgnd then - (2 ^ (8 * width - 1)) \<le> n \<and> n < 2 ^ (8 * width - 1)
      else 0 \<le> n \<and> n < 2 ^ (8 * width))"

lemma binary_bytes_value:
  assumes "0 < width" "width \<le> 8"
  shows "int (be_val (be_bytes width (nat (n mod 2 ^ 128)))) = n mod 2 ^ (8 * width)"
proof -
  have "(2::int) ^ (8 * width) dvd 2 ^ 128"
    using assms(2) by (intro le_imp_power_dvd) simp
  then have "n mod 2 ^ 128 mod 2 ^ (8 * width) = n mod 2 ^ (8 * width)"
    by (rule mod_mod_cancel)
  moreover have "(256::int) ^ width = 2 ^ (8 * width)"
    by (simp add: power_mult)
  moreover have "int (nat (n mod 2 ^ 128) mod 256 ^ width) = n mod 2 ^ 128 mod 256 ^ width"
    by (simp add: zmod_int del: of_nat_mod)
  ultimately show ?thesis
    by (simp only: be_val_be_bytes)
qed

lemma parse_binary_ordered:
  "parse_binary_int (ordered e bs) e sgnd =
     (if length bs = 0 \<or> length bs > 8 then Err (BinaryWidth (length bs))
      else Ok (wrap_i64 (if sgnd \<and> bs ! 0 AND 0x80 \<noteq> 0 then int (be_val bs) - 2 ^ (8 * length bs)
                         else int (be_val bs))))"
  unfolding parse_binary_int_def Let_def ordered_ordered length_ordered ..

lemma binary_roundtrip:
  assumes "binary_ok width sgnd n"
  shows "\<exists>bs. encode_binary_int n width endian = Ok bs \<and> length bs = width
    \<and> parse_binary_int bs endian sgnd = Ok n"
proof -
  let ?bs = "be_bytes width (nat (n mod 2 ^ 128))"
  have w: "0 < width" "width \<le> 8" "in_i64 n"
    using assms by (auto simp: binary_ok_def)
  have v: "int (be_val ?bs) = n mod 2 ^ (8 * width)"
    by (rule binary_bytes_value [OF w(1,2)])
  have half: "(2::int) ^ (8 * width) = 2 * 2 ^ (8 * width - 1)"
    using w(1) by (cases width) (simp_all add: power_add)
  have tb: "?bs ! 0 AND 0x80 \<noteq> 0 \<longleftrightarrow> 2 ^ (8 * width - 1) \<le> n mod 2 ^ (8 * width)"
  proof -
    have ne: "?bs \<noteq> []" using w(1) by (metis length_be_bytes list.size(3) less_irrefl)
    have "2 ^ k \<le> B \<longleftrightarrow> (2::int) ^ k \<le> int B" for k B
      by (metis of_nat_le_iff of_nat_numeral of_nat_power)
    then show ?thesis
      unfolding top_bit_be_val [OF ne] length_be_bytes v [symmetric] by blast
  qed
  have val: "(if sgnd \<and> ?bs ! 0 AND 0x80 \<noteq> 0 then int (be_val ?bs) - 2 ^ (8 * width) else int (be_val ?bs)) = n"
  proof (cases "0 \<le> n")
    case True
    then have "n < 2 ^ (8 * width)" "sgnd \<Longrightarrow> n < 2 ^ (8 * width - 1)"
      using assms half by (auto simp: binary_ok_def split: if_splits)
    then show ?thesis
      using True tb v by auto
  next
    case False
    then have s: "sgnd" "- (2 ^ (8 * width - 1)) \<le> n"
      using assms by (auto simp: binary_ok_def split: if_splits)
    have "n mod 2 ^ (8 * width) = (n + 2 ^ (8 * width)) mod 2 ^ (8 * width)"
      by simp
    also have "\<dots> = n + 2 ^ (8 * width)"
      using False s half by (intro mod_pos_pos_trivial) auto
    finally show ?thesis
      using s tb v half by auto
  qed
  have wd: "(width = 0 \<or> 8 < width) = False"
    using w by simp
  have "encode_binary_int n width endian = Ok (ordered endian ?bs)"
    unfolding encode_binary_int_def wd by (rule if_False)
  moreover have "parse_binary_int (ordered endian ?bs) endian sgnd = Ok n"
    unfolding parse_binary_ordered length_be_bytes wd val if_False wrap_i64_id [OF w(3)] ..
  ultimately show ?thesis by auto
qed

section \<open>Floats\<close>

definition float_ok :: "nat \<Rightarrow> nat \<Rightarrow> f64 \<Rightarrow> bool" where
  "float_ok width bits x \<longleftrightarrow>
     (if bits = 64 then width = 8
      else if bits = 32 then width = 4 \<and> f32_to_f64 (f64_to_f32 x) = x
      else bits = 16 \<and> width = 2 \<and> f16_to_f64 (f64_to_f16 x) = x)"

lemma word_be_bytes: "word_of_nat (be_val (be_bytes w (unat (x :: 'a::len word)))) = x"
  if "8 * w = LENGTH('a)"
proof -
  have "(256::nat) ^ w = 2 ^ LENGTH('a)"
    unfolding that [symmetric] by (simp add: power_mult)
  then show ?thesis
    using unsigned_less [of x] by (simp add: be_val_be_bytes)
qed

lemma float_roundtrip:
  assumes "float_ok width bits x"
  shows "\<exists>bs. encode_float x bits endian = Ok bs \<and> length bs = width \<and> parse_float bs bits endian = Ok x"
proof -
  have "word_of_nat (be_val (be_bytes 8 (unat x))) = x"
    "word_of_nat (be_val (be_bytes 4 (unat (f64_to_f32 x)))) = f64_to_f32 x"
    "word_of_nat (be_val (be_bytes 2 (unat (f64_to_f16 x)))) = f64_to_f16 x"
    by (rule word_be_bytes; simp)+
  then show ?thesis
    using assms by (auto simp: float_ok_def encode_float_def parse_float_def Let_def split: if_splits)
qed

section \<open>Hexadecimal\<close>

definition is_lower_hex :: "rchar \<Rightarrow> bool" where
  "is_lower_hex c \<longleftrightarrow> is_ascii_digit c \<or> (ch CHR ''a'' \<le> c \<and> c \<le> ch CHR ''f'')"

definition hex_ok :: "nat \<Rightarrow> rstr \<Rightarrow> bool" where
  "hex_ok width s \<longleftrightarrow> list_all is_lower_hex s \<and> length s = 2 * width"

lemma hex_nibble: "is_lower_hex c \<Longrightarrow> \<exists>n < 16. to_digit_16 c = Some n \<and> nibble_hex n = c"
  by (auto simp: is_lower_hex_def to_digit_16_def nibble_hex_def is_ascii_digit_def)

lemma hex_byte_nibs:
  assumes "h < 16" "l < 16"
  shows "push_bit 4 (byte_of h) OR byte_of l = byte_of (h * 16 + l)"
proof -
  have "list_all (\<lambda>l. byte_of l AND 0x0F = byte_of l) [0..<16]"
    by code_simp
  with assms(2) have "byte_of l AND 0x0F = byte_of l"
    by (simp add: list_all_iff)
  with or_nibbles [OF assms] show ?thesis by simp
qed

lemma hex_pairs_roundtrip:
  "list_all is_lower_hex s \<Longrightarrow> even (length s) \<Longrightarrow>
   \<exists>bs. hex_pairs order s = Ok bs \<and> 2 * length bs = length s \<and> to_hex bs order = s"
proof (induction order s rule: hex_pairs.induct)
  case (3 order c d cs)
  obtain h l where hl: "h < 16" "to_digit_16 c = Some h" "nibble_hex h = c" "l < 16" "to_digit_16 d = Some l" "nibble_hex l = d"
    using "3.prems"(1) hex_nibble [of c] hex_nibble [of d] by auto
  obtain bs where bs: "hex_pairs order cs = Ok bs" "2 * length bs = length cs" "to_hex bs order = cs"
    using "3.IH" "3.prems" hl by auto
  have n1: "nib_hi (byte_of (h * 16 + l)) = h" "nib_lo (byte_of (h * 16 + l)) = l"
    "nib_hi (byte_of (l * 16 + h)) = l" "nib_lo (byte_of (l * 16 + h)) = h"
    using nibs_of_byte hl by blast+
  show ?case
    using bs hl n1
    by (cases order) (auto simp: hex_byte_def hex_byte_nibs to_hex_def nib_hi_def nib_lo_def)
qed (simp_all add: to_hex_def)

lemma hex_roundtrip:
  assumes "hex_ok width s"
  shows "\<exists>bs. encode_hex s width order = Ok bs \<and> length bs = width \<and> to_hex bs order = s"
proof -
  have nw: "\<forall>c \<in> set s. \<not> is_white c \<and> c < 0x80"
    using assms by (auto simp: hex_ok_def list_all_iff is_lower_hex_def is_ascii_digit_def is_white_def)
  then have "filter (\<lambda>c. \<not> is_white c) s = s" "is_ascii s"
    by (simp_all add: is_ascii_def)
  moreover obtain bs where "hex_pairs order s = Ok bs" "2 * length bs = length s" "to_hex bs order = s"
    using hex_pairs_roundtrip [of s order] assms by (auto simp: hex_ok_def)
  ultimately show ?thesis
    using assms by (auto simp: encode_hex_def hex_ok_def length_utf8_ascii)
qed
section \<open>All kinds of fields\<close>

definition leaf_ok :: "chrono \<Rightarrow> field \<Rightarrow> fval \<Rightarrow> bool" where
  "leaf_ok c f v =
     (case f_kind f of
        KText justify trimming pad \<Rightarrow>
          (case v of VText s \<Rightarrow> text_ok justify trimming pad (f_width f) s | _ \<Rightarrow> False)
      | KInt sgnd sign \<Rightarrow>
          (case v of VInt n \<Rightarrow> display_ok (f_width f) sign n \<and> \<bar>n\<bar> < 2 ^ 63 | _ \<Rightarrow> False)
      | KBinary endian sgnd \<Rightarrow> (case v of VInt n \<Rightarrow> binary_ok (f_width f) sgnd n | _ \<Rightarrow> False)
      | KFloat bits endian \<Rightarrow> (case v of VFloat x \<Rightarrow> float_ok (f_width f) bits x | _ \<Rightarrow> False)
      | KHex order \<Rightarrow> (case v of VText s \<Rightarrow> hex_ok (f_width f) s | _ \<Rightarrow> False)
      | KBool \<Rightarrow> (case v of VBool b \<Rightarrow> f_width f = 1 | _ \<Rightarrow> False)
      | KPad pad \<Rightarrow> v = VNull
      | KDecimal precision scale repr sign \<Rightarrow>
          (case v of VDecimal u s \<Rightarrow>
             s = scale \<and> \<bar>u\<bar> < 2 ^ 127 \<and> 0 < f_width f \<and>
             (case repr of
                RComp3 \<Rightarrow> nat \<bar>u\<bar> < 10 ^ (2 * f_width f - 1) \<and> (sign = SUnsigned \<longrightarrow> 0 \<le> u)
              | RZoned \<Rightarrow> nat \<bar>u\<bar> < 10 ^ f_width f \<and> (sign = SUnsigned \<longrightarrow> 0 \<le> u)
              | RDisplay \<Rightarrow> precision \<le> f_width f \<and> display_ok (f_width f) sign u)
           | _ \<Rightarrow> False)
      | KDateTime kind fmt \<Rightarrow>
          temporal_kind v = Some kind \<and> chrono_inverts c fmt v \<and>
          (case v of VDate d \<Rightarrow> wrap_i32 d = d | _ \<Rightarrow> True) \<and>
          (case datetime_format c v fmt (f_width f) (f_name f) of Inl e \<Rightarrow> False | Inr bs \<Rightarrow> True)
      | KEdited precision scale sgnd msk \<Rightarrow>
          (case v of VDecimal u s \<Rightarrow>
             s = scale \<and> \<bar>u\<bar> < 2 ^ 127 \<and> edit_mask_ok msk \<and> length msk = f_width f \<and>
             (if sgnd then sign_shown msk else 0 \<le> u) \<and>
             (case edited_encode u msk of Inl e \<Rightarrow> False | Inr bs \<Rightarrow> True)
           | _ \<Rightarrow> False)
      | KGroup children \<Rightarrow> False)"

lemma display_decimal_eq:
  assumes "display_ok width sign u" "precision \<le> width"
  shows "encode_display_decimal u precision width sign = Ok (map byte_of (display_text width sign u))"
  using assms encode_display_int_eq [OF assms(1), of "sign \<noteq> SUnsigned"] display_length [OF assms(1)]
  by (simp add: encode_display_decimal_def max_absorb1)

lemma decimal_leaf:
  assumes "leaf_ok c f v" "f_kind f = KDecimal precision scale repr sign"
  shows "\<exists>bs. length bs = f_width f \<and> decode_leaf c f bs enc = Ok v \<and>
    (\<forall>buf pos. encode_leaf c f pos buf v enc = Ok (put buf pos bs))"
proof -
  obtain u where v: "v = VDecimal u scale" and u: "\<bar>u\<bar> < 2 ^ 127" and w: "0 < f_width f"
    using assms by (auto simp: leaf_ok_def split: fval.splits)
  show ?thesis
  proof (cases repr)
    case RComp3
    then have fit: "nat \<bar>u\<bar> < 10 ^ (f_width f * 2 - 1)" "sign = SUnsigned \<Longrightarrow> 0 \<le> u"
      using assms v by (auto simp: leaf_ok_def mult.commute)
    obtain bs where bs: "packed_encode u (f_width f) (sign \<noteq> SUnsigned) = Ok bs" "length bs = f_width f"
      using packed.enc_total [OF w, of u "sign \<noteq> SUnsigned"] fit(1) by (auto simp: packed_max_digits_def)
    moreover have "packed_decode bs = Ok u"
      using packed.dec_enc [OF bs(1) u] fit(2) by auto
    ultimately show ?thesis
      using RComp3 assms(2) v
      by (intro exI [of _ bs]) (simp add: decode_leaf_def encode_leaf_def as_decimal_def rescale_def)
  next
    case RZoned
    then have fit: "nat \<bar>u\<bar> < 10 ^ f_width f" "sign = SUnsigned \<Longrightarrow> 0 \<le> u"
      using assms v by (auto simp: leaf_ok_def)
    obtain bs where bs: "zoned_encode u (f_width f) (sign \<noteq> SUnsigned) = Ok bs" "length bs = f_width f"
      using zoned.enc_total [OF w, of u "sign \<noteq> SUnsigned"] fit(1) by auto
    moreover have "zoned_decode bs = Ok u"
      using zoned.dec_enc [OF bs(1) u] fit(2) by auto
    ultimately show ?thesis
      using RZoned assms(2) v
      by (intro exI [of _ "maybe_ebcdic bs enc"])
        (simp add: decode_leaf_def encode_leaf_def as_decimal_def rescale_def)
  next
    case RDisplay
    then have fit: "display_ok (f_width f) sign u" "precision \<le> f_width f"
      using assms v by (auto simp: leaf_ok_def)
    show ?thesis
      using RDisplay assms(2) v display_decimal_eq [OF fit] display_decimal_roundtrip [OF fit(1) u]
        display_length [OF fit(1)]
      by (intro exI [of _ "maybe_ebcdic (map byte_of (display_text (f_width f) sign u)) enc"])
        (simp add: decode_leaf_def encode_leaf_def as_decimal_def rescale_def)
  qed
qed

text \<open>Every value that conforms to a field is written in its width and read back.\<close>

lemma leaf_roundtrip:
  assumes "leaf_ok c f v"
  shows "\<exists>bs. length bs = f_width f \<and> decode_leaf c f bs enc = Ok v \<and>
    (\<forall>buf pos. encode_leaf c f pos buf v enc = Ok (put buf pos bs))"
proof (cases "f_kind f")
  case (KText justify trimming pad)
  then obtain s where v: "v = VText s" "text_ok justify trimming pad (f_width f) s"
    using assms by (auto simp: leaf_ok_def split: fval.splits)
  then obtain bs where "justify_pad (utf8 s) (f_width f) justify pad = Ok bs" "length bs = f_width f"
    "(if trimming then trim_pad (utf8_lossy bs) justify (unat pad) else utf8_lossy bs) = s"
    using text_roundtrip by blast
  then show ?thesis
    using KText v(1)
    by (intro exI [of _ "maybe_ebcdic bs enc"]) (auto simp: decode_leaf_def encode_leaf_def Let_def)
next
  case (KInt sgnd sign)
  then obtain n where v: "v = VInt n" "display_ok (f_width f) sign n" "\<bar>n\<bar> < 2 ^ 63"
    using assms by (auto simp: leaf_ok_def split: fval.splits)
  then show ?thesis
    using KInt encode_display_int_eq [OF v(2)] display_int_roundtrip [OF v(2,3)] display_length [OF v(2)]
    by (intro exI [of _ "maybe_ebcdic (map byte_of (display_text (f_width f) sign n)) enc"])
      (simp add: decode_leaf_def encode_leaf_def as_i128_def)
next
  case (KBinary endian sgnd)
  then obtain n where v: "v = VInt n" "binary_ok (f_width f) sgnd n"
    using assms by (auto simp: leaf_ok_def split: fval.splits)
  then show ?thesis
    using KBinary binary_roundtrip [OF v(2), of endian]
    by (auto simp: decode_leaf_def encode_leaf_def as_i128_def)
next
  case (KFloat bits endian)
  then obtain x where v: "v = VFloat x" "float_ok (f_width f) bits x"
    using assms by (auto simp: leaf_ok_def split: fval.splits)
  then show ?thesis
    using KFloat float_roundtrip [OF v(2), of endian]
    by (auto simp: decode_leaf_def encode_leaf_def as_f64_def)
next
  case (KHex order)
  then obtain s where v: "v = VText s" "hex_ok (f_width f) s"
    using assms by (auto simp: leaf_ok_def split: fval.splits)
  then show ?thesis
    using KHex hex_roundtrip [OF v(2), of order]
    by (auto simp: decode_leaf_def encode_leaf_def)
next
  case KBool
  then obtain b where v: "v = VBool b" "f_width f = 1"
    using assms by (auto simp: leaf_ok_def split: fval.splits)
  then show ?thesis
    using KBool by (intro exI [of _ "[if b then 1 else 0]"]) (auto simp: decode_leaf_def encode_leaf_def byte_of_def)
next
  case (KPad pad)
  let ?b = "case enc of Ascii \<Rightarrow> pad | Ebcdic \<Rightarrow> to_ebcdic_byte pad"
  show ?thesis
    using KPad assms
    by (intro exI [of _ "replicate (f_width f) ?b"])
      (simp add: leaf_ok_def decode_leaf_def encode_leaf_def fill_def put_def Let_def)
next
  case (KDecimal precision scale repr sign)
  then show ?thesis
    using decimal_leaf assms by blast
next
  case (KEdited precision scale sgnd msk)
  then obtain u where v: "v = VDecimal u scale" and u: "\<bar>u\<bar> < 2 ^ 127" "edit_mask_ok msk"
    "length msk = f_width f" "if sgnd then sign_shown msk else 0 \<le> u"
    using assms by (auto simp: leaf_ok_def split: fval.splits)
  obtain bs where bs: "edited_encode u msk = Ok bs"
    using KEdited v assms by (auto simp: leaf_ok_def split: sum.splits)
  have "length bs = f_width f" "edited_decode bs sgnd = Ok u"
    using edited_decode_encode [OF bs u(2,1)] u(3,4) by (auto split: if_splits)
  then show ?thesis
    using KEdited v bs
    by (intro exI [of _ "maybe_ebcdic bs enc"])
      (simp add: decode_leaf_def encode_leaf_def as_decimal_def rescale_def)
next
  case (KGroup children)
  then show ?thesis
    using assms by (simp add: leaf_ok_def)
next
  case (KDateTime kind fmt)
  then obtain bs where bs: "datetime_format c v fmt (f_width f) (f_name f) = Ok bs"
    and k: "temporal_kind v = Some kind" "chrono_inverts c fmt v"
    using assms by (auto simp: leaf_ok_def split: sum.splits)
  have d: "v = VDate d \<Longrightarrow> wrap_i32 d = d" for d
    using KDateTime assms by (auto simp: leaf_ok_def)
  then show ?thesis
    using KDateTime bs datetime_parse_format [OF bs k(2,1) d] datetime_format_length [OF bs]
    by (intro exI [of _ "maybe_ebcdic bs enc"]) (simp add: decode_leaf_def encode_leaf_def)
qed

end
