(* ===== verification/RoundTrip.thy ===== *)
theory RoundTrip
  imports FieldCodec
begin

text \<open>
  Records: decoding what was encoded. \<open>conforms\<close> says which value trees a layout represents
  exactly, threading the scope of decoded integers that \<open>OCCURS DEPENDING ON\<close> reads;
  \<open>apart\<close> says that the fields of every sibling list follow one another without overlap. The
  simulation shows that each write keeps everything before it and leaves bytes that the reader
  turns back into the value.
\<close>

section \<open>Writes that keep what is before them\<close>

text \<open>\<open>kept p a b\<close>: \<open>b\<close> is at least as long as \<open>a\<close> and agrees with it below \<open>p\<close>.\<close>

definition kept :: "nat \<Rightarrow> bytes \<Rightarrow> bytes \<Rightarrow> bool" where
  "kept p a b \<longleftrightarrow> length a \<le> length b \<and> (\<forall>i < length a. i < p \<longrightarrow> b ! i = a ! i)"

lemma kept_refl [simp]: "kept p a a"
  by (simp add: kept_def)

lemma kept_le: "kept p a b \<Longrightarrow> q \<le> p \<Longrightarrow> kept q a b"
  by (simp add: kept_def)

lemma kept_trans: "kept p a b \<Longrightarrow> kept q b d \<Longrightarrow> p \<le> q \<Longrightarrow> kept p a d"
  by (simp add: kept_def)

lemma put_length: "length (put buf pos bs) = max (length buf) (pos + length bs)"
  by (simp add: put_def ensure_def Let_def)

lemma put_kept: "kept pos buf (put buf pos bs)"
  by (simp add: kept_def put_length) (simp add: put_def ensure_def Let_def nth_append)

lemma put_slice: "get_slice (put buf pos bs) pos (length bs) = Some bs"
  by (simp add: get_slice_def put_length) (simp add: put_def ensure_def Let_def)

lemma kept_slice:
  assumes "get_slice a pos w = Some bs" "kept p a b" "pos + w \<le> p"
  shows "get_slice b pos w = Some bs"
proof -
  have len: "pos + w \<le> length a" "length a \<le> length b" and bs: "bs = take w (drop pos a)"
    using assms by (auto simp: get_slice_def kept_def split: if_splits)
  have "take w (drop pos b) = take w (drop pos a)"
    using assms(2,3) len by (intro nth_equalityI) (simp_all add: kept_def)
  then show ?thesis
    using len bs by (simp add: get_slice_def)
qed

section \<open>Layouts without overlap\<close>

text \<open>
  Each field of a sibling list starts at or after the static end of the one before it (so there
  is no \<open>REDEFINES\<close>), at every depth. The least number of bytes that one occurrence takes:
\<close>

fun min_size :: "field \<Rightarrow> nat" where
  "min_size (Field nm off w k occ dep red) =
     (case k of
        KGroup cs \<Rightarrow> max_of (map (\<lambda>f. f_offset f +
          (if f_depending_on f \<noteq> None then 0
           else case f_occurs f of None \<Rightarrow> min_size f | Some n \<Rightarrow> n * min_size f)) cs)
      | _ \<Rightarrow> w)"

fun apart :: "nat \<Rightarrow> field list \<Rightarrow> bool" where
  "apart lo [] = True"
| "apart lo (f # fs) = (lo \<le> f_offset f \<and> apart (f_offset f + reserved_width f) fs)"

fun apart_deep :: "field \<Rightarrow> bool" where
  "apart_deep (Field nm off w k occ dep red) =
     (case k of KGroup cs \<Rightarrow> apart 0 cs \<and> list_all apart_deep cs | _ \<Rightarrow> True)"

definition layout_apart :: "field list \<Rightarrow> bool" where
  "layout_apart fs \<longleftrightarrow> apart 0 fs \<and> list_all apart_deep fs"

lemma apart_deep_group: "f_kind f = KGroup cs \<Longrightarrow> apart_deep f \<longleftrightarrow> layout_apart cs"
  by (cases f) (simp add: layout_apart_def)

section \<open>Values of a layout\<close>

text \<open>
  \<open>conforms_fields c fs sc vs\<close> returns the scope after the fields when \<open>vs\<close> are values
  of the (non-pad) fields in order. Names of a record are distinct up to case, because
  the encoder looks values up by name.
\<close>

definition names_distinct :: "pairs \<Rightarrow> bool" where
  "names_distinct vs \<longleftrightarrow> distinct (map (\<lambda>p. to_ascii_lowercase (fst p)) vs)"

function (sequential)
    conforms_fields :: "chrono \<Rightarrow> field list \<Rightarrow> scope \<Rightarrow> pairs \<Rightarrow> scope option"
and conforms_field :: "chrono \<Rightarrow> field \<Rightarrow> scope \<Rightarrow> fval \<Rightarrow> scope option"
and conforms_items :: "chrono \<Rightarrow> field \<Rightarrow> scope \<Rightarrow> fval list \<Rightarrow> scope option"
and conforms_one :: "chrono \<Rightarrow> field \<Rightarrow> scope \<Rightarrow> fval \<Rightarrow> scope option"
where
  "conforms_fields c [] sc vs = (if vs = [] then Some sc else None)"
| "conforms_fields c (f # fs) sc vs =
     (if is_pad f then
        (if f_occurs f = None \<and> f_depending_on f = None then conforms_fields c fs sc vs else None)
      else case vs of
        [] \<Rightarrow> None
      | (n, v) # rest \<Rightarrow>
          if n = f_name f then
            Option.bind (conforms_field c f sc v) (\<lambda>sc. conforms_fields c fs (scope_insert f v sc) rest)
          else None)"
| "conforms_field c f sc v =
     (case decode_count f sc of
        Inl e \<Rightarrow> None
      | Inr None \<Rightarrow> conforms_one c f sc v
      | Inr (Some n) \<Rightarrow>
          (case v of
             VList items \<Rightarrow>
               if length items = n \<and> 0 < min_size f then conforms_items c f sc items else None
           | _ \<Rightarrow> None))"
| "conforms_items c f sc [] = Some sc"
| "conforms_items c f sc (v # vs) =
     Option.bind (conforms_one c f sc v) (\<lambda>sc. conforms_items c f sc vs)"
| "conforms_one c f sc v =
     (case f_kind f of
        KGroup children \<Rightarrow>
          (case v of
             VStruct vs \<Rightarrow> if names_distinct vs then conforms_fields c children sc vs else None
           | _ \<Rightarrow> None)
      | _ \<Rightarrow> if leaf_ok c f v then Some sc else None)"
  by pat_completeness auto

termination
  by (relation "measures [\<lambda>x. (case x of
         Inl (Inl (_, fs, _)) \<Rightarrow> size_list size fs
       | Inl (Inr (_, f, _)) \<Rightarrow> size f
       | Inr (Inl (_, f, _)) \<Rightarrow> size f
       | Inr (Inr (_, f, _)) \<Rightarrow> size f),
     \<lambda>x. (case x of
         Inl (Inl _) \<Rightarrow> 0
       | Inl (Inr _) \<Rightarrow> 3
       | Inr (Inl _) \<Rightarrow> 2
       | Inr (Inr _) \<Rightarrow> 1),
     \<lambda>x. (case x of Inr (Inl (_, _, _, vs)) \<Rightarrow> length vs | _ \<Rightarrow> 0)]")
    (auto simp: size_children)

section \<open>The simulation\<close>

definition min_total :: "field \<Rightarrow> nat" where
  "min_total f =
     (if f_depending_on f \<noteq> None then 0
      else case f_occurs f of None \<Rightarrow> min_size f | Some n \<Rightarrow> n * min_size f)"

lemma min_size_group:
  "f_kind f = KGroup cs \<Longrightarrow> min_size f = max_of (map (\<lambda>f. f_offset f + min_total f) cs)"
  by (cases f) (simp add: min_total_def)

lemma min_size_leaf: "(\<And>cs. f_kind f \<noteq> KGroup cs) \<Longrightarrow> min_size f = f_width f"
  by (cases f) (auto split: field_kind.splits)

text \<open>
  What one write promises: it returns a buffer that keeps everything before \<open>pos\<close>, it takes at
  least the minimal size, and whatever is written after it later, \<open>dec\<close> reads the value back.
\<close>

definition writes ::
  "nat \<Rightarrow> nat \<Rightarrow> bytes \<Rightarrow> error + (bytes \<times> nat) \<Rightarrow> (bytes \<Rightarrow> error + ('a \<times> nat \<times> scope)) \<Rightarrow> 'a \<Rightarrow> scope \<Rightarrow> bool" where
  "writes pos low buf r dec v sc' \<longleftrightarrow>
     (\<exists>buf' n. r = Ok (buf', n) \<and> kept pos buf buf' \<and> low \<le> n \<and>
        (\<forall>B. kept (pos + n) buf' B \<longrightarrow> dec B = Ok (v, n, sc')))"

lemma writes_I:
  "r = Ok (buf', n) \<Longrightarrow> kept pos buf buf' \<Longrightarrow> low \<le> n \<Longrightarrow>
   (\<And>B. kept (pos + n) buf' B \<Longrightarrow> dec B = Ok (v, n, sc')) \<Longrightarrow> writes pos low buf r dec v sc'"
  by (auto simp: writes_def)

text \<open>The same for a loop, whose counter is an absolute position.\<close>

definition runs ::
  "nat \<Rightarrow> nat \<Rightarrow> bytes \<Rightarrow> error + (bytes \<times> nat) \<Rightarrow> (bytes \<Rightarrow> error + ('a \<times> nat \<times> scope)) \<Rightarrow> 'a \<Rightarrow> scope \<Rightarrow> bool" where
  "runs fin low buf r dec v sc' \<longleftrightarrow>
     (\<exists>buf' fin'. r = Ok (buf', fin') \<and> kept fin buf buf' \<and> low \<le> fin' \<and> fin \<le> fin' \<and>
        (\<forall>B. kept fin' buf' B \<longrightarrow> dec B = Ok (v, fin', sc')))"

lemma leaf_writes:
  assumes "leaf_ok c f v" "\<And>cs. f_kind f \<noteq> KGroup cs"
    and w: "\<And>bs. encode_leaf c f pos buf v enc = Ok (put buf pos bs) \<Longrightarrow> encode_leaf c f pos buf w enc = Ok (put buf pos bs)"
  shows "writes pos (min_size f) buf (encode_one c enc f pos buf w) (\<lambda>B. decode_one c B enc f pos sc) v sc"
proof -
  obtain bs where bs: "length bs = f_width f" "decode_leaf c f bs enc = Ok v"
    "encode_leaf c f pos buf v enc = Ok (put buf pos bs)"
    using leaf_roundtrip [OF assms(1)] by blast
  show ?thesis
  proof (rule writes_I)
    show "encode_one c enc f pos buf w = Ok (put buf pos bs, f_width f)"
      using w [OF bs(3)] assms(2) by (simp split: field_kind.splits)
    show "kept pos buf (put buf pos bs)"
      by (rule put_kept)
    show "min_size f \<le> f_width f"
      using min_size_leaf assms(2) by simp
    fix B assume B: "kept (pos + f_width f) (put buf pos bs) B"
    have "get_slice B pos (f_width f) = Some bs"
      by (rule kept_slice [OF put_slice [of buf pos bs, unfolded bs(1)] B]) simp
    then have "slice B pos (f_width f) = Ok bs"
      by (simp add: slice_def)
    then show "decode_one c B enc f pos sc = Ok (v, f_width f, sc)"
      using bs(2) assms(2) by (simp split: field_kind.splits)
  qed
qed

lemma fields_step:
  assumes one: "writes pos low buf (encode_field c enc f pos buf (lookup_value all (f_name f)))
      (\<lambda>B. decode_field c B enc f pos sc) v sc1"
    and rest: "\<And>buf n. low \<le> n \<Longrightarrow> runs (max fin (pos + n)) low' buf
        (encode_fields c enc fs base (shift + (n - reserved_width f)) (max fin (pos + n)) buf all)
        (\<lambda>B. decode_fields c B enc fs base (shift + (n - reserved_width f)) (max fin (pos + n)) sc2) vs sc'"
    and pos: "pos = base + f_offset f + shift" and fin: "fin \<le> pos"
    and pairs: "if is_pad f then pairs = vs \<and> sc2 = sc1 else pairs = (f_name f, v) # vs \<and> sc2 = scope_insert f v sc1"
  shows "runs fin (max (pos + low) low') buf (encode_fields c enc (f # fs) base shift fin buf all)
      (\<lambda>B. decode_fields c B enc (f # fs) base shift fin sc) pairs sc'"
proof -
  obtain buf1 n where 1: "encode_field c enc f pos buf (lookup_value all (f_name f)) = Ok (buf1, n)"
    "kept pos buf buf1" "low \<le> n" "\<And>B. kept (pos + n) buf1 B \<Longrightarrow> decode_field c B enc f pos sc = Ok (v, n, sc1)"
    using one by (auto simp: writes_def)
  obtain buf' fin' where 2:
    "encode_fields c enc fs base (shift + (n - reserved_width f)) (max fin (pos + n)) buf1 all = Ok (buf', fin')"
    "kept (max fin (pos + n)) buf1 buf'" "low' \<le> fin'" "max fin (pos + n) \<le> fin'"
    "\<And>B. kept fin' buf' B \<Longrightarrow>
       decode_fields c B enc fs base (shift + (n - reserved_width f)) (max fin (pos + n)) sc2 = Ok (vs, fin', sc')"
    using rest [OF 1(3), of buf1] by (auto simp: runs_def)
  have "kept fin buf buf'"
    using kept_trans [OF kept_le [OF 1(2) fin] 2(2)] by simp
  moreover have "decode_fields c B enc (f # fs) base shift fin sc = Ok (pairs, fin', sc')"
    if B: "kept fin' buf' B" for B
  proof -
    have "kept (pos + n) buf1 B"
      using kept_trans [OF 2(2) B 2(4)] by (rule kept_le) simp
    then show ?thesis
      using 1(4) [of B] 2(5) [OF B] pos pairs by (simp add: Let_def split: if_splits)
  qed
  ultimately show ?thesis
    using 1(1,3) 2(1,3,4) pos by (auto simp: runs_def Let_def)
qed

lemma items_step:
  assumes one: "\<And>buf. writes cur low buf (encode_one c enc f cur buf v) (\<lambda>B. decode_one c B enc f cur sc) v sc1"
    and rest: "\<And>buf cur. runs cur (cur + k * low) buf (encode_items c enc f items (Suc i) k cur buf)
        (\<lambda>B. decode_items c B enc f m k cur sc1) vs sc'"
    and i: "nth_or_null items i = v" and low: "0 < low"
  shows "runs cur (cur + Suc k * low) buf (encode_items c enc f items i (Suc k) cur buf)
        (\<lambda>B. decode_items c B enc f m (Suc k) cur sc) (v # vs) sc'"
proof -
  obtain buf1 n where 1: "encode_one c enc f cur buf v = Ok (buf1, n)"
    "kept cur buf buf1" "low \<le> n" "\<And>B. kept (cur + n) buf1 B \<Longrightarrow> decode_one c B enc f cur sc = Ok (v, n, sc1)"
    using one [of buf] by (auto simp: writes_def)
  obtain buf' fin' where 2: "encode_items c enc f items (Suc i) k (cur + n) buf1 = Ok (buf', fin')"
    "kept (cur + n) buf1 buf'" "cur + n + k * low \<le> fin'" "cur + n \<le> fin'"
    "\<And>B. kept fin' buf' B \<Longrightarrow> decode_items c B enc f m k (cur + n) sc1 = Ok (vs, fin', sc')"
    using rest [of "cur + n" buf1] by (auto simp: runs_def)
  have "kept cur buf buf'"
    using kept_trans [OF 1(2) 2(2)] by simp
  moreover have "decode_items c B enc f m (Suc k) cur sc = Ok (v # vs, fin', sc')" if B: "kept fin' buf' B" for B
  proof -
    have "kept (cur + n) buf1 B"
      using kept_trans [OF 2(2) B 2(4)] .
    then show ?thesis
      using 1(3) 1(4) [of B] 2(5) [OF B] low by simp
  qed
  ultimately show ?thesis
    using 1(1,3) 2(1,3,4) i by (auto simp: runs_def)
qed

lemma pad_write:
  "is_pad f \<Longrightarrow> encode_leaf c f pos buf v enc = encode_leaf c f pos buf w enc"
  by (auto simp: is_pad_def encode_leaf_def split: field_kind.splits)

lemma pad_conforms: "is_pad f \<Longrightarrow> leaf_ok c f VNull"
  by (auto simp: is_pad_def leaf_ok_def split: field_kind.splits)

definition sim_one :: "chrono \<Rightarrow> encoding \<Rightarrow> field \<Rightarrow> scope \<Rightarrow> fval \<Rightarrow> bool" where
  "sim_one c enc f sc v \<longleftrightarrow>
     (\<forall>sc' pos buf. conforms_one c f sc v = Some sc' \<longrightarrow> apart_deep f \<longrightarrow>
        writes pos (min_size f) buf (encode_one c enc f pos buf v) (\<lambda>B. decode_one c B enc f pos sc) v sc')"

definition sim_items :: "chrono \<Rightarrow> encoding \<Rightarrow> field \<Rightarrow> scope \<Rightarrow> fval list \<Rightarrow> bool" where
  "sim_items c enc f sc vs \<longleftrightarrow>
     (\<forall>sc' cur buf items i m. conforms_items c f sc vs = Some sc' \<longrightarrow> apart_deep f \<longrightarrow> 0 < min_size f \<longrightarrow>
        drop i items = vs \<longrightarrow>
        runs cur (cur + length vs * min_size f) buf (encode_items c enc f items i (length vs) cur buf)
          (\<lambda>B. decode_items c B enc f m (length vs) cur sc) vs sc')"

definition sim_field :: "chrono \<Rightarrow> encoding \<Rightarrow> field \<Rightarrow> scope \<Rightarrow> fval \<Rightarrow> bool" where
  "sim_field c enc f sc v \<longleftrightarrow>
     (\<forall>sc' pos buf. conforms_field c f sc v = Some sc' \<longrightarrow> apart_deep f \<longrightarrow>
        writes pos (min_total f) buf (encode_field c enc f pos buf v) (\<lambda>B. decode_field c B enc f pos sc) v sc')"

definition sim_fields :: "chrono \<Rightarrow> encoding \<Rightarrow> field list \<Rightarrow> scope \<Rightarrow> pairs \<Rightarrow> bool" where
  "sim_fields c enc fs sc vs \<longleftrightarrow>
     (\<forall>sc' base shift fin lo all buf. conforms_fields c fs sc vs = Some sc' \<longrightarrow>
        apart lo fs \<longrightarrow> list_all apart_deep fs \<longrightarrow> fin \<le> base + lo + shift \<longrightarrow>
        (\<forall>p \<in> set vs. lookup_value all (fst p) = snd p) \<longrightarrow>
        runs fin (max_of (map (\<lambda>f. base + f_offset f + min_total f) fs)) buf
          (encode_fields c enc fs base shift fin buf all)
          (\<lambda>B. decode_fields c B enc fs base shift fin sc) vs sc')"

lemma lookup_distinct:
  "names_distinct vs \<Longrightarrow> p \<in> set vs \<Longrightarrow> lookup_value vs (fst p) = snd p"
proof (induction vs)
  case (Cons q vs)
  show ?case
  proof (cases "p = q")
    case True
    then show ?thesis by (cases q) simp
  next
    case False
    then have "p \<in> set vs" using Cons.prems by simp
    moreover from this have "to_ascii_lowercase (fst p) \<noteq> to_ascii_lowercase (fst q)"
      using Cons.prems(1) by (auto simp: names_distinct_def) (metis image_eqI)
    ultimately show ?thesis
      using Cons by (cases q) (auto simp: names_distinct_def eq_ignore_ascii_case_def)
  qed
qed simp

lemma runs_nil: "r = Ok (buf, fin) \<Longrightarrow> low \<le> fin \<Longrightarrow> (\<And>B. dec B = Ok (v, fin, sc')) \<Longrightarrow> runs fin low buf r dec v sc'"
  by (auto simp: runs_def)

lemma runs_low: "runs fin low buf r dec v sc' \<Longrightarrow> low' \<le> max low fin \<Longrightarrow> runs fin low' buf r dec v sc'"
  by (auto simp: runs_def) 

lemma sim_one_step:
  assumes "\<And>cs vs. f_kind f = KGroup cs \<Longrightarrow> v = VStruct vs \<Longrightarrow> names_distinct vs \<Longrightarrow> sim_fields c enc cs sc vs"
  shows "sim_one c enc f sc v"
  unfolding sim_one_def
proof (intro allI impI)
  fix sc' pos buf
  assume conf: "conforms_one c f sc v = Some sc'" and ap: "apart_deep f"
  show "writes pos (min_size f) buf (encode_one c enc f pos buf v) (\<lambda>B. decode_one c B enc f pos sc) v sc'"
  proof (cases "\<exists>cs. f_kind f = KGroup cs")
    case False
    then have "leaf_ok c f v" "sc' = sc"
      using conf by (auto split: field_kind.splits if_splits)
    then show ?thesis
      using leaf_writes [of c f v] False by blast
  next
    case True
    then obtain cs vs where k: "f_kind f = KGroup cs" and v: "v = VStruct vs" "names_distinct vs"
      and cf: "conforms_fields c cs sc vs = Some sc'"
      using conf by (auto split: fval.splits if_splits)
    have "runs pos (max_of (map (\<lambda>f. pos + f_offset f + min_total f) cs)) buf
          (encode_fields c enc cs pos 0 pos buf vs) (\<lambda>B. decode_fields c B enc cs pos 0 pos sc) vs sc'"
      using assms [OF k v] cf ap k lookup_distinct [OF v(2)]
      by (auto simp: sim_fields_def apart_deep_group layout_apart_def)
    then obtain buf' fin' where r: "encode_fields c enc cs pos 0 pos buf vs = Ok (buf', fin')"
      "kept pos buf buf'" "max_of (map (\<lambda>f. pos + f_offset f + min_total f) cs) \<le> fin'" "pos \<le> fin'"
      "\<And>B. kept fin' buf' B \<Longrightarrow> decode_fields c B enc cs pos 0 pos sc = Ok (vs, fin', sc')"
      by (auto simp: runs_def)
    have "min_size f \<le> fin' - pos"
      unfolding min_size_group [OF k]
    proof (rule max_of_least)
      fix n assume "n \<in> set (map (\<lambda>f. f_offset f + min_total f) cs)"
      then have "pos + n \<in> set (map (\<lambda>f. pos + f_offset f + min_total f) cs)" by auto
      then show "n \<le> fin' - pos"
        using max_of_upper r(3) by fastforce
    qed
    with r k v show ?thesis
      by (intro writes_I [of _ buf' "fin' - pos"]) (simp_all add: struct_fields_def)
  qed
qed

lemma sim_items_nil: "sim_items c enc f sc []"
  by (auto simp: sim_items_def intro: runs_nil)

lemma sim_items_step:
  assumes "sim_one c enc f sc v" "\<And>sc1. conforms_one c f sc v = Some sc1 \<Longrightarrow> sim_items c enc f sc1 vs"
  shows "sim_items c enc f sc (v # vs)"
  unfolding sim_items_def
proof (intro allI impI)
  fix sc' cur buf items i m
  assume cf: "conforms_items c f sc (v # vs) = Some sc'" and ap: "apart_deep f" "0 < min_size f"
    and dr: "drop i items = v # vs"
  obtain sc1 where sc1: "conforms_one c f sc v = Some sc1" "conforms_items c f sc1 vs = Some sc'"
    using cf by (auto simp: bind_eq_Some_conv)
  have i: "nth_or_null items i = v"
    using dr nth_via_drop [OF dr] by (auto simp: nth_or_null_def not_less)
  have i': "drop (Suc i) items = vs"
    unfolding drop_Suc tl_drop [symmetric] dr by simp
  show "runs cur (cur + length (v # vs) * min_size f) buf (encode_items c enc f items i (length (v # vs)) cur buf)
          (\<lambda>B. decode_items c B enc f m (length (v # vs)) cur sc) (v # vs) sc'"
    unfolding list.size add_0_right add_Suc_right
  proof (rule items_step [where ?sc1.0 = sc1])
    show "writes cur (min_size f) buf (encode_one c enc f cur buf v) (\<lambda>B. decode_one c B enc f cur sc) v sc1" for buf
      using assms(1) sc1(1) ap by (simp add: sim_one_def)
    show "runs cur (cur + length vs * min_size f) buf (encode_items c enc f items (Suc i) (length vs) cur buf)
        (\<lambda>B. decode_items c B enc f m (length vs) cur sc1) vs sc'" for buf cur
      using assms(2) [OF sc1(1)] sc1(2) ap i' by (simp add: sim_items_def)
  qed (use i ap in simp_all)
qed

lemma sim_field_step:
  assumes one: "decode_count f sc = Inr None \<Longrightarrow> sim_one c enc f sc v"
    and items: "\<And>n vs. decode_count f sc = Inr (Some n) \<Longrightarrow> v = VList vs \<Longrightarrow>
      length vs = n \<and> 0 < min_size f \<Longrightarrow> sim_items c enc f sc vs"
  shows "sim_field c enc f sc v"
  unfolding sim_field_def
proof (intro allI impI)
  fix sc' pos buf
  assume cf: "conforms_field c f sc v = Some sc'" and ap: "apart_deep f"
  obtain cnt where cnt: "decode_count f sc = Inr cnt"
    using cf by (cases "decode_count f sc") auto
  show "writes pos (min_total f) buf (encode_field c enc f pos buf v) (\<lambda>B. decode_field c B enc f pos sc) v sc'"
  proof (cases cnt)
    case None
    then have "f_depending_on f = None" "f_occurs f = None"
      using cnt by (auto simp: decode_count_def split: option.splits if_splits)
    then show ?thesis
      using one cnt None cf ap by (auto simp: sim_one_def encode_count_def min_total_def)
  next
    case (Some n)
    then obtain vs where v: "v = VList vs" "length vs = n" "0 < min_size f" "conforms_items c f sc vs = Some sc'"
      using cf cnt by (auto split: fval.splits if_splits)
    have ec: "encode_count f v = Ok (Some n)"
      using cnt Some v by (auto simp: decode_count_def encode_count_def split: option.splits if_splits)
    have mt: "min_total f \<le> n * min_size f"
      using cnt Some by (auto simp: decode_count_def min_total_def split: option.splits if_splits)
    have "runs pos (pos + n * min_size f) buf (encode_items c enc f vs 0 n pos buf)
          (\<lambda>B. decode_items c B enc f n n pos sc) vs sc'"
      using items [OF cnt [unfolded Some] v(1)] v ap by (auto simp: sim_items_def)
    then obtain buf' fin' where "encode_items c enc f vs 0 n pos buf = Ok (buf', fin')"
      "kept pos buf buf'" "pos + n * min_size f \<le> fin'" "pos \<le> fin'"
      "\<And>B. kept fin' buf' B \<Longrightarrow> decode_items c B enc f n n pos sc = Ok (vs, fin', sc')"
      by (auto simp: runs_def)
    then show ?thesis
      using ec mt cnt Some v
      by (intro writes_I [of _ buf' "fin' - pos"]) (simp_all add: encode_list_def)
  qed
qed

lemma sim_fields_nil: "sim_fields c enc [] sc vs"
  by (auto simp: sim_fields_def split: if_splits intro!: runs_nil)

lemma sim_fields_step:
  assumes pad: "is_pad f \<Longrightarrow> f_occurs f = None \<and> f_depending_on f = None \<Longrightarrow> sim_fields c enc fs sc vs"
    and val: "\<And>v rest. \<not> is_pad f \<Longrightarrow> vs = (f_name f, v) # rest \<Longrightarrow> sim_field c enc f sc v"
    and rest: "\<And>v rest sc1. \<not> is_pad f \<Longrightarrow> vs = (f_name f, v) # rest \<Longrightarrow> conforms_field c f sc v = Some sc1 \<Longrightarrow>
      sim_fields c enc fs (scope_insert f v sc1) rest"
  shows "sim_fields c enc (f # fs) sc vs"
  unfolding sim_fields_def
proof (intro allI impI)
  fix sc' base shift fin lo all buf
  assume cf: "conforms_fields c (f # fs) sc vs = Some sc'" and ap: "apart lo (f # fs)" "list_all apart_deep (f # fs)"
    and fin: "fin \<le> base + lo + shift" and all: "\<forall>p \<in> set vs. lookup_value all (fst p) = snd p"
  define pos where "pos = base + f_offset f + shift"
  let ?fm = "\<lambda>f. base + f_offset f + min_total f"
  have fp: "fin \<le> pos"
    using fin ap(1) by (simp add: pos_def)
  have nxt: "max fin (pos + n) \<le> base + (f_offset f + reserved_width f) + (shift + (n - reserved_width f))" for n
    using fp by (simp add: pos_def)
  have "runs fin (max (pos + min_total f) (max_of (map ?fm fs))) buf (encode_fields c enc (f # fs) base shift fin buf all)
      (\<lambda>B. decode_fields c B enc (f # fs) base shift fin sc) vs sc'"
  proof (cases "is_pad f")
    case True
    then have none: "f_occurs f = None" "f_depending_on f = None" and cfs: "conforms_fields c fs sc vs = Some sc'"
      using cf by (auto split: if_splits)
    have leaf: "\<And>cs. f_kind f \<noteq> KGroup cs"
      using True by (auto simp: is_pad_def)
    have w: "writes pos (min_size f) buf (encode_one c enc f pos buf (lookup_value all (f_name f)))
        (\<lambda>B. decode_one c B enc f pos sc) VNull sc"
      by (rule leaf_writes [OF pad_conforms [OF True] leaf])
        (simp only: pad_write [OF True, of c pos buf "lookup_value all (f_name f)" enc VNull])
    show ?thesis
    proof (rule fields_step [where ?sc2.0 = sc])
      show "writes pos (min_total f) buf (encode_field c enc f pos buf (lookup_value all (f_name f)))
        (\<lambda>B. decode_field c B enc f pos sc) VNull sc"
        using w none by (simp add: encode_count_def decode_count_def min_total_def)
      show "runs (max fin (pos + n)) (max_of (map ?fm fs)) buf'
          (encode_fields c enc fs base (shift + (n - reserved_width f)) (max fin (pos + n)) buf' all)
          (\<lambda>B. decode_fields c B enc fs base (shift + (n - reserved_width f)) (max fin (pos + n)) sc) vs sc'" for n buf'
        using pad [OF True] none cfs ap nxt all unfolding sim_fields_def by fastforce
    qed (use True fp in \<open>simp_all add: pos_def\<close>)
  next
    case False
    then obtain v rst sc1 where vs: "vs = (f_name f, v) # rst" and c1: "conforms_field c f sc v = Some sc1"
      "conforms_fields c fs (scope_insert f v sc1) rst = Some sc'"
      using cf by (auto simp: bind_eq_Some_conv split: if_splits list.splits prod.splits)
    have lk: "lookup_value all (f_name f) = v"
      using all vs by simp
    show ?thesis
    proof (rule fields_step [where ?sc2.0 = "scope_insert f v sc1"])
      show "writes pos (min_total f) buf (encode_field c enc f pos buf (lookup_value all (f_name f)))
        (\<lambda>B. decode_field c B enc f pos sc) v sc1"
        using val [OF False vs] c1(1) ap(2) lk by (simp add: sim_field_def)
      show "runs (max fin (pos + n)) (max_of (map ?fm fs)) buf'
          (encode_fields c enc fs base (shift + (n - reserved_width f)) (max fin (pos + n)) buf' all)
          (\<lambda>B. decode_fields c B enc fs base (shift + (n - reserved_width f)) (max fin (pos + n)) (scope_insert f v sc1)) rst sc'" for n buf'
        using rest [OF False vs c1(1)] c1(2) ap nxt all vs unfolding sim_fields_def by fastforce
    qed (use False fp vs in \<open>simp_all add: pos_def\<close>)
  qed
  then show "runs fin (max_of (map ?fm (f # fs))) buf (encode_fields c enc (f # fs) base shift fin buf all)
      (\<lambda>B. decode_fields c B enc (f # fs) base shift fin sc) vs sc'"
    by (rule runs_low) (auto simp: pos_def)
qed

lemma simulation:
  "sim_fields c enc fs sc vs" "sim_field c enc f sc v" "sim_items c enc f sc items" "sim_one c enc f sc v"
proof (induction c fs sc vs and c f sc v and c f sc items and c f sc v
    rule: conforms_fields_conforms_field_conforms_items_conforms_one.induct)
  case (1 c sc vs)
  show ?case by (rule sim_fields_nil)
next
  case (2 c f fs sc vs)
  show ?case by (rule sim_fields_step) (use 2 in auto)
next
  case (3 c f sc v)
  show ?case by (rule sim_field_step) (use 3 in auto)
next
  case (4 c f sc)
  show ?case by (rule sim_items_nil)
next
  case (5 c f sc v vs)
  show ?case by (rule sim_items_step) (use 5 in auto)
next
  case (6 c f sc v)
  show ?case by (rule sim_one_step) (use 6 in auto)
qed

section \<open>Records\<close>

definition conforms_record :: "chrono \<Rightarrow> layout \<Rightarrow> pairs \<Rightarrow> bool" where
  "conforms_record c l vs \<longleftrightarrow>
     names_distinct vs \<and> layout_apart (l_fields l) \<and>
     conforms_fields c (l_fields l) Map.empty vs \<noteq> None"

lemma conforms_names:
  "conforms_fields c fs sc vs = Some sc' \<Longrightarrow> map fst vs = map f_name (filter (\<lambda>f. \<not> is_pad f) fs)"
proof (induction fs arbitrary: sc vs)
  case (Cons f fs)
  then show ?case
    by (cases "is_pad f") (auto simp: bind_eq_Some_conv split: list.splits prod.splits if_splits)
qed (simp split: if_splits)

lemma encode_decode_record:
  assumes "conforms_record c l vs"
  shows "\<exists>bs. encode_record c l vs enc = Ok bs \<and> l_record_len l \<le> length bs
    \<and> decode_record c l bs enc = Ok vs"
proof -
  let ?fs = "l_fields l" and ?buf = "replicate (l_record_len l) (0 :: byte)"
  obtain sc' where cf: "conforms_fields c ?fs Map.empty vs = Some sc'" and nd: "names_distinct vs"
    and ap: "layout_apart ?fs"
    using assms by (auto simp: conforms_record_def)
  have "runs 0 (max_of (map (\<lambda>f. 0 + f_offset f + min_total f) ?fs)) ?buf
      (encode_fields c enc ?fs 0 0 0 ?buf vs) (\<lambda>B. decode_fields c B enc ?fs 0 0 0 Map.empty) vs sc'"
    using simulation(1) [of c enc ?fs Map.empty vs] cf ap lookup_distinct [OF nd]
    unfolding sim_fields_def layout_apart_def by fastforce
  then obtain bs fin where r: "encode_fields c enc ?fs 0 0 0 ?buf vs = Ok (bs, fin)"
    "length ?buf \<le> length bs" "decode_fields c bs enc ?fs 0 0 0 Map.empty = Ok (vs, fin, sc')"
    by (fastforce simp: runs_def kept_def)
  have "f \<in> set ?fs \<Longrightarrow> \<not> is_pad f \<Longrightarrow> list_ex (\<lambda>(n, v). eq_ignore_ascii_case n (f_name f)) vs" for f
  proof -
    assume "f \<in> set ?fs" "\<not> is_pad f"
    then have "f_name f \<in> fst ` set vs"
      using conforms_names [OF cf, THEN arg_cong, of set] by auto
    then show ?thesis
      by (force simp: list_ex_iff)
  qed
  then have "filter (\<lambda>f. \<not> list_ex (\<lambda>(n, v). eq_ignore_ascii_case n (f_name f)) vs)
      (filter (\<lambda>f. \<not> is_pad f) ?fs) = []"
    unfolding filter_empty_conv by auto
  then have "encode_record c l vs enc = Ok bs"
    using r(1) by (simp add: encode_record_def encode_seq_def)
  moreover have "decode_record c l bs enc = Ok vs"
    using r(2,3) by (simp add: decode_record_def decode_seq_def check_record_len_def)
  ultimately show ?thesis
    using r(2) by simp
qed

section \<open>Properties\<close>

text \<open>A record with a counter, a packed amount and a table whose length the counter gives.\<close>

definition sample_layout :: layout where
  "sample_layout =
     \<lparr> l_record_len = 5,
       l_fields =
         [Field (lit ''N'') 0 2 (KInt False SUnsigned) None None None,
          Field (lit ''AMT'') 2 2 (KDecimal 3 2 RComp3 SEmbedded) None None None,
          Field (lit ''LINE'') 4 0
            (KGroup [Field (lit ''QTY'') 0 1 (KBinary Big True) None None None,
                     Field (lit ''OK'') 1 1 KBool None None None])
            (Some 9) (Some (lit ''n'')) None,
          Field [] 4 1 (KPad 32) None None None],
       l_variable = True \<rparr>"

definition sample_values :: pairs where
  "sample_values =
     [(lit ''N'', VInt 2), (lit ''AMT'', VDecimal (- 125) 2),
      (lit ''LINE'', VList [VStruct [(lit ''QTY'', VInt (- 3)), (lit ''OK'', VBool True)],
                          VStruct [(lit ''QTY'', VInt 7), (lit ''OK'', VBool False)]])]"

text \<open>
  C2. Encoding a record and decoding the bytes gives the values back, for every layout without
  overlapping fields (groups, fixed tables and \<open>OCCURS DEPENDING ON\<close> tables at any depth,
  pads, all field kinds, both byte encodings) and all values that the fields represent: the
  encoder succeeds, the buffer has at least the static record length, and the decoder returns
  the same tree.
\<close>

theorem record_roundtrip:
  "conforms_record c l vs \<Longrightarrow>
   \<exists>bs. encode_record c l vs enc = Ok bs \<and> l_record_len l \<le> length bs
     \<and> decode_record c l bs enc = Ok vs"
  by (rule encode_decode_record)

theorem record_roundtrip_witness:
  "\<exists>c bs. encode_record c sample_layout sample_values Ebcdic = Ok bs
     \<and> decode_record c sample_layout bs Ebcdic = Ok sample_values"
proof -
  have "conforms_record c sample_layout sample_values" for c
    by code_simp
  then show ?thesis
    using record_roundtrip by blast
qed

text \<open>
  The other way round only the values come back: a number that is padded with blanks is encoded
  with zeros.
\<close>

theorem reencoding_normalizes:
  "decode_record c (Layout.layout.make 2 [Field [78] 0 2 (KInt False SUnsigned) None None None] False) [32, 53] Ascii = Ok [([78], VInt 5)]
   \<and> encode_record c (Layout.layout.make 2 [Field [78] 0 2 (KInt False SUnsigned) None None None] False) [([78], VInt 5)] Ascii = Ok [48, 53]"
  by code_simp

end
