(* ===== verification/Template.thy ===== *)
theory Template
  imports Copybook
begin

text \<open>
  The template front end (\<open>template.rs\<close>): tokens that are not split inside parentheses, names,
  groups with a repeat count, count-prefixed groups, and the one-letter codes. \<open>parse_tokens\<close>
  recurses into the text of a group; a measure on the characters of the tokens shows that it
  returns. The host is little endian.
\<close>

section \<open>Tokens\<close>

fun tokenize_loop :: "rstr \<Rightarrow> rstr \<Rightarrow> nat \<Rightarrow> error + rstr list" where
  "tokenize_loop [] cur depth =
     (if depth \<noteq> 0 then Err (Spec TemplateOpen) else Ok (if cur = [] then [] else [cur]))"
| "tokenize_loop (c # cs) cur depth =
     (if c = ch CHR ''('' then tokenize_loop cs (cur @ [c]) (depth + 1)
      else if c = ch CHR '')'' then
        (if depth = 0 then Err (Spec TemplateClose) else tokenize_loop cs (cur @ [c]) (depth - 1))
      else if is_white c \<and> depth = 0 then
        (if cur = [] then tokenize_loop cs [] depth
         else rbind (tokenize_loop cs [] depth) (\<lambda>ts. Ok (cur # ts)))
      else tokenize_loop cs (cur @ [c]) depth)"

definition template_tokenize :: "rstr \<Rightarrow> error + rstr list" where
  "template_tokenize src = tokenize_loop src [] 0"

definition find_char :: "rchar \<Rightarrow> rstr \<Rightarrow> nat option" where
  "find_char c s = (if c \<in> set s then Some (length (takeWhile (\<lambda>x. x \<noteq> c) s)) else None)"

definition before_limit :: "nat \<Rightarrow> nat option \<Rightarrow> bool" where
  "before_limit c limit = (case limit of None \<Rightarrow> True | Some p \<Rightarrow> c < p)"

definition split_name :: "rstr \<Rightarrow> rstr option \<times> rstr" where
  "split_name token =
     (case find_char (ch CHR '':'') token of
        Some c \<Rightarrow>
          if before_limit c (find_char (ch CHR ''('') token) \<and> before_limit c (find_char (ch CHR ''/'') token)
          then (Some (take c token), drop (c + 1) token)
          else (None, token)
      | None \<Rightarrow> (None, token))"

text \<open>\<open>body.find("/(")\<close>\<close>

fun find_count_prefix :: "rstr \<Rightarrow> nat option" where
  "find_count_prefix (c # d # cs) =
     (if c = ch CHR ''/'' \<and> d = ch CHR ''('' then Some 0
      else map_option Suc (find_count_prefix (d # cs)))"
| "find_count_prefix _ = None"

definition parse_count :: "rstr \<Rightarrow> error + nat option" where
  "parse_count rest =
     (if rest = [] then Ok None
      else
        rbind (case strip_prefix (lit ''('') rest of
                 Some stripped \<Rightarrow> ok_or (strip_suffix (lit '')'') stripped) (Spec (CountParens rest))
               | None \<Rightarrow> Ok rest) (\<lambda>inner.
        rbind (ok_or (parse_usize (trim inner)) (Spec (InvalidCount inner))) (\<lambda>n.
        Ok (Some n))))"

fun find_close :: "rstr \<Rightarrow> nat \<Rightarrow> nat \<Rightarrow> nat option" where
  "find_close [] depth i = None"
| "find_close (c # cs) depth i =
     (if c = ch CHR ''('' then find_close cs (depth + 1) (i + 1)
      else if c = ch CHR '')'' then
        (if depth = 1 then Some i else find_close cs (depth - 1) (i + 1))
      else find_close cs depth (i + 1))"

definition strip_group :: "rstr \<Rightarrow> error + (rstr \<times> nat option)" where
  "strip_group body =
     rbind (ok_or (find_close body 0 0) (Spec (TemplateGroup body))) (\<lambda>close.
     rbind (parse_count (drop (close + 1) body)) (\<lambda>count.
     Ok (take (close - 1) (drop 1 body), count)))"

section \<open>Codes\<close>

definition order_control :: "rstr \<Rightarrow> endian option" where
  "order_control token =
     (if token = lit ''<'' then Some Little
      else if token = lit ''>'' \<or> token = lit ''!'' then Some Big
      else if token = lit ''='' \<or> token = lit ''@'' then Some Little
      else None)"

definition order_suffix :: "rstr \<Rightarrow> endian \<Rightarrow> endian \<times> rstr" where
  "order_suffix rest order =
     (if rest \<noteq> [] \<and> last rest = ch CHR ''<'' then (Little, butlast rest)
      else if rest \<noteq> [] \<and> last rest = ch CHR ''>'' then (Big, butlast rest)
      else (order, rest))"

text \<open>The codes whose count is a width, and those whose count repeats an element of fixed width.\<close>

definition width_code :: "rchar \<Rightarrow> field_kind option" where
  "width_code code =
     (if code = ch CHR ''A'' then Some (KText JLeft True (byte_of (ch CHR '' '')))
      else if code = ch CHR ''a'' \<or> code = ch CHR ''Z'' then Some (KText JLeft True 0)
      else if code = ch CHR ''H'' then Some (KHex Big)
      else if code = ch CHR ''h'' then Some (KHex Little)
      else if code = ch CHR ''x'' then Some (KPad 0)
      else None)"

definition repeat_code :: "rchar \<Rightarrow> endian \<Rightarrow> (nat \<times> field_kind) option" where
  "repeat_code code order =
     (if code = ch CHR ''c'' then Some (1, KBinary order True)
      else if code = ch CHR ''C'' then Some (1, KBinary order False)
      else if code = ch CHR ''s'' then Some (2, KBinary order True)
      else if code = ch CHR ''S'' then Some (2, KBinary order False)
      else if code \<in> set (lit ''li'') then Some (4, KBinary order True)
      else if code \<in> set (lit ''LI'') then Some (4, KBinary order False)
      else if code = ch CHR ''q'' then Some (8, KBinary order True)
      else if code = ch CHR ''Q'' then Some (8, KBinary order False)
      else if code = ch CHR ''n'' then Some (2, KBinary Big False)
      else if code = ch CHR ''N'' then Some (4, KBinary Big False)
      else if code = ch CHR ''v'' then Some (2, KBinary Little False)
      else if code = ch CHR ''V'' then Some (4, KBinary Little False)
      else if code = ch CHR ''e'' then Some (2, KFloat 16 order)
      else if code = ch CHR ''f'' then Some (4, KFloat 32 order)
      else if code = ch CHR ''d'' then Some (8, KFloat 64 order)
      else if code = ch CHR ''?'' then Some (1, KBool)
      else None)"

definition or_one :: "nat option \<Rightarrow> nat" where
  "or_one n = (case n of None \<Rightarrow> 1 | Some n \<Rightarrow> n)"

definition parse_body :: "rstr \<Rightarrow> endian \<Rightarrow> error + (field_kind \<times> nat \<times> nat option)" where
  "parse_body body order =
     (case body of
        [] \<Rightarrow> Err (Panic ''index out of bounds'')
      | code # rest \<Rightarrow>
          if code = ch CHR ''9'' \<or> code = ch CHR ''X''
             \<or> (code = ch CHR ''S'' \<and> starts_with (lit ''9'') rest)
          then rbind (parse_pic body UDisplay None) (\<lambda>(kind, width). Ok (kind, width, None))
          else
            let (local_order, rest) = order_suffix rest order in
            rbind (parse_count rest) (\<lambda>count.
            case width_code code of
              Some kind \<Rightarrow> Ok (kind, or_one count, None)
            | None \<Rightarrow>
                (case repeat_code code local_order of
                   Some (width, kind) \<Rightarrow> Ok (kind, width, count)
                 | None \<Rightarrow> Err (Spec (TemplateCode code)))))"

section \<open>Fields\<close>

definition name_or_auto :: "rstr option \<Rightarrow> nat \<Rightarrow> rstr \<times> nat" where
  "name_or_auto nm auto =
     (case nm of Some n \<Rightarrow> (n, auto) | None \<Rightarrow> (lit ''field_'' @ nat_str (auto + 1), auto + 1))"

definition is_count_kind :: "field_kind \<Rightarrow> bool" where
  "is_count_kind k = (case k of KBinary _ _ \<Rightarrow> True | KInt _ _ \<Rightarrow> True | _ \<Rightarrow> False)"

definition token_size :: "rstr list \<Rightarrow> nat" where
  "token_size ts = sum_list (map (\<lambda>t. length t + 1) ts)"

lemma token_size_simps [simp]: "token_size [] = 0" "token_size (t # ts) = length t + 1 + token_size ts"
  by (simp_all add: token_size_def)

lemma tokenize_loop_size: "tokenize_loop cs cur depth = Ok ts \<Longrightarrow> token_size ts \<le> length cs + length cur + 1"
  by (induction cs cur depth arbitrary: ts rule: tokenize_loop.induct) (fastforce split: if_splits)+

lemma tokenize_size: "template_tokenize s = Ok ts \<Longrightarrow> token_size ts \<le> length s + 1"
  using tokenize_loop_size [of s "[]" 0 ts] by (simp add: template_tokenize_def)

lemma strip_group_size: "body \<noteq> [] \<Longrightarrow> strip_group body = Ok (inner, count) \<Longrightarrow> length inner < length body"
  by (cases body) (auto simp: strip_group_def)

lemma split_name_size: "split_name token = (nm, body) \<Longrightarrow> length body \<le> length token"
  by (auto simp: split_name_def split: option.splits if_splits)

lemma find_count_prefix_size: "find_count_prefix body = Some i \<Longrightarrow> i + 2 \<le> length body"
  by (induction body arbitrary: i rule: find_count_prefix.induct) (auto split: if_splits)

lemma inner_size:
  assumes "split_name token = (nm, body)" "drop k body \<noteq> []" "strip_group (drop k body) = Ok (inner, count)"
    "template_tokenize inner = Ok ts"
  shows "token_size ts < Suc (length token)"
  using tokenize_size [OF assms(4)] strip_group_size [OF assms(2,3)] split_name_size [OF assms(1)] by simp

function (sequential) parse_tokens :: "rstr list \<Rightarrow> nat \<Rightarrow> endian \<Rightarrow> nat \<Rightarrow> error + (field list \<times> nat)" where
  "parse_tokens [] offset order auto = Ok ([], offset)"
| "parse_tokens (token # tokens) offset order auto =
     (case order_control token of
        Some order \<Rightarrow> parse_tokens tokens offset order auto
      | None \<Rightarrow>
          (case split_name token of (nm, body) \<Rightarrow>
          if body = [] then Err (Spec (TemplateEmpty token))
          else
            (case find_count_prefix body of
               Some idx \<Rightarrow>
                 rbind (parse_body (take idx body) order) (\<lambda>(cnt_kind, cnt_width, cnt_occurs).
                 if cnt_occurs \<noteq> None \<or> \<not> is_count_kind cnt_kind
                 then Err (Spec (TemplateCountCode (take idx body)))
                 else
                   rbind (strip_group (drop (idx + 1) body)) (\<lambda>(inner, trailing).
                   if trailing \<noteq> None then Err (Spec TemplateTrailing)
                   else
                     rbind (template_tokenize inner) (\<lambda>inner_tokens.
                     rbind (parse_tokens inner_tokens 0 Big 0) (\<lambda>(children, gw).
                     let (base, auto) = name_or_auto nm auto;
                         count_name = base @ lit ''_count'';
                         counter = Field count_name offset cnt_width cnt_kind None None None;
                         offset = offset + cnt_width;
                         table = Field base offset gw (KGroup children) None (Some count_name) None
                     in rbind (parse_tokens tokens offset order auto) (\<lambda>(fs, w).
                        Ok (counter # table # fs, w))))))
             | None \<Rightarrow>
                 if starts_with (lit ''('') body then
                   rbind (strip_group body) (\<lambda>(inner, count).
                   rbind (template_tokenize inner) (\<lambda>inner_tokens.
                   rbind (parse_tokens inner_tokens 0 Big 0) (\<lambda>(children, gw).
                   let (name, auto) = name_or_auto nm auto in
                   rbind (parse_tokens tokens (offset + gw * or_one count) order auto) (\<lambda>(fs, w).
                   Ok (Field name offset gw (KGroup children) count None None # fs, w)))))
                 else
                   rbind (parse_body body order) (\<lambda>(kind, width, occurs).
                   let (name, auto) = name_or_auto nm auto in
                   rbind (parse_tokens tokens (offset + width * or_one occurs) order auto) (\<lambda>(fs, w).
                   Ok (Field name offset width kind occurs None None # fs, w))))))"
  by pat_completeness auto

termination
proof (relation "measure (\<lambda>(ts, _). token_size ts)", auto, goal_cases)
  case (1 token tokens nm body inner count ts)
  then have "token_size ts < Suc (length token)"
    by (intro inner_size [of token nm body 0 inner count]) auto
  then show ?case by simp
next
  case (2 token tokens order nm body idx kind width inner ts)
  then have "token_size ts < Suc (length token)"
    using find_count_prefix_size [of body idx] by (intro inner_size [of token nm body "Suc idx" inner None]) auto
  then show ?case by simp
qed

definition template_parse :: "rstr \<Rightarrow> error + layout" where
  "template_parse src =
     rbind (template_tokenize src) (\<lambda>tokens.
     rbind (parse_tokens tokens 0 Big 0) (\<lambda>(fields, width).
     from_fields fields))"

end
