(* ===== verification/JsonSpec.thy ===== *)
theory JsonSpec
  imports Pic
begin

text \<open>
  The JSON front end (\<open>jsonspec.rs\<close>): the lowering of a deserialized field list into a layout.
  The parser of the JSON text is \<open>serde_json\<close>; its result, a spec or a failure, is a parameter
  of \<open>json_parse\<close>. The counter \<open>auto\<close> of generated names is threaded through the groups.
\<close>

section \<open>The deserialized spec\<close>

datatype json_field =
  JsonField (j_name: "rstr option") (j_ty: "rstr option") (j_width: "nat option") (j_digits: "nat option")
    (j_scale: "nat option") (j_signed: "bool option") (j_endian: "rstr option") (j_occurs: "nat option")
    (j_justify: "rstr option") (j_pad: "rstr option") (j_sign: "rstr option") (j_format: "rstr option")
    (j_fields: "json_field list option")

datatype json_spec = JArray "json_field list" | JWrapped "json_field list"

definition one_of :: "rstr \<Rightarrow> string list \<Rightarrow> bool" where
  "one_of s ws \<longleftrightarrow> s \<in> set (map lit ws)"

section \<open>Options of a field\<close>

definition req_width :: "json_field \<Rightarrow> error + nat" where
  "req_width jf =
     ok_or (case j_width jf of Some w \<Rightarrow> Some w | None \<Rightarrow> j_digits jf) (Spec (NeedsWidth (j_name jf)))"

definition req_format :: "json_field \<Rightarrow> error + rstr" where
  "req_format jf =
     ok_or (case j_format jf of Some f \<Rightarrow> if f = [] then None else Some f | None \<Rightarrow> None)
       (Spec (NeedsFormat (j_name jf)))"

definition req_digits :: "json_field \<Rightarrow> error + nat" where
  "req_digits jf =
     ok_or (case j_digits jf of Some d \<Rightarrow> Some d | None \<Rightarrow> map_option as_u8 (j_width jf))
       (Spec (NeedsDigits (j_name jf)))"

definition parse_justify :: "rstr option \<Rightarrow> error + justify" where
  "parse_justify s =
     (case s of
        None \<Rightarrow> Ok JLeft
      | Some s \<Rightarrow>
          if one_of s [''left'', ''l''] then Ok JLeft
          else if one_of s [''right'', ''r''] then Ok JRight
          else Err (Spec (UnknownJustify s)))"

definition parse_pad :: "rstr option \<Rightarrow> byte \<Rightarrow> error + byte" where
  "parse_pad s dflt =
     (case s of
        None \<Rightarrow> Ok dflt
      | Some s \<Rightarrow>
          if one_of s [''space''] then Ok (ch CHR '' '')
          else if one_of s [''zero''] then Ok (ch CHR ''0'')
          else if one_of s [''null'', ''nul''] then Ok 0
          else (case utf8 s of [] \<Rightarrow> Err (Spec EmptyPad) | b # _ \<Rightarrow> Ok b))"

definition parse_sign :: "rstr option \<Rightarrow> bool \<Rightarrow> error + sign_kind" where
  "parse_sign s sgnd =
     (case s of
        None \<Rightarrow> Ok (if sgnd then SEmbedded else SUnsigned)
      | Some s \<Rightarrow>
          if one_of s [''leading'', ''leading_separate''] then Ok SLeading
          else if one_of s [''trailing'', ''trailing_separate''] then Ok STrailing
          else if one_of s [''embedded'', ''overpunch''] then Ok SEmbedded
          else if one_of s [''none'', ''unsigned''] then Ok SUnsigned
          else Err (Spec (UnknownSign s)))"

definition parse_endian :: "rstr option \<Rightarrow> error + endian" where
  "parse_endian s =
     (case s of
        None \<Rightarrow> Ok Big
      | Some s \<Rightarrow>
          if one_of s [''big'', ''be'', ''network''] then Ok Big
          else if one_of s [''little'', ''le''] then Ok Little
          else Err (Spec (UnknownEndian s)))"

section \<open>The kind and the width of a leaf\<close>

definition or_zero :: "nat option \<Rightarrow> nat" where
  "or_zero n = (case n of None \<Rightarrow> 0 | Some n \<Rightarrow> n)"

definition temporal :: "json_field \<Rightarrow> date_time_kind \<Rightarrow> error + (field_kind \<times> nat)" where
  "temporal jf k =
     rbind (req_format jf) (\<lambda>fmt.
     rbind (req_width jf) (\<lambda>width.
     Ok (KDateTime k fmt, width)))"

definition kind_of_type :: "json_field \<Rightarrow> endian \<Rightarrow> bool \<Rightarrow> sign_kind \<Rightarrow> rstr \<Rightarrow> error + (field_kind \<times> nat)" where
  "kind_of_type jf endian sgnd sign ty =
     (let sep = (if is_separate sign then 1 else 0) in
      if one_of ty [''group'', ''struct''] then Err (Spec (GroupNeedsFields (j_name jf)))
      else if one_of ty [''str'', ''string'', ''text'', ''char'', ''x''] then
        rbind (req_width jf) (\<lambda>width.
        rbind (parse_justify (j_justify jf)) (\<lambda>justify.
        rbind (parse_pad (j_pad jf) (ch CHR '' '')) (\<lambda>pad.
        Ok (KText justify True pad, width))))
      else if one_of ty [''int'', ''integer'', ''display'', ''num'', ''numeric''] then
        rbind (req_digits jf) (\<lambda>digits. Ok (KInt sgnd sign, digits + sep))
      else if one_of ty [''binary'', ''comp'', ''comp4'', ''comp5''] then
        rbind (req_width jf) (\<lambda>width. Ok (KBinary endian sgnd, width))
      else if one_of ty [''comp3'', ''packed'', ''packed-decimal''] then
        rbind (req_digits jf) (\<lambda>digits.
        Ok (KDecimal digits (or_zero (j_scale jf)) RComp3 SEmbedded, packed_byte_width digits))
      else if one_of ty [''zoned''] then
        rbind (req_digits jf) (\<lambda>digits.
        Ok (KDecimal digits (or_zero (j_scale jf)) RZoned SEmbedded, digits))
      else if one_of ty [''decimal'', ''dec''] then
        rbind (req_digits jf) (\<lambda>digits.
        Ok (KDecimal digits (or_zero (j_scale jf)) RDisplay sign, digits + sep))
      else if one_of ty [''date''] then temporal jf DDate
      else if one_of ty [''time''] then temporal jf DTime
      else if one_of ty [''datetime'', ''timestamp''] then temporal jf DTimestamp
      else if one_of ty [''float'', ''real'', ''single'', ''f32''] then Ok (KFloat 32 endian, 4)
      else if one_of ty [''double'', ''f64''] then Ok (KFloat 64 endian, 8)
      else if one_of ty [''half'', ''f16''] then Ok (KFloat 16 endian, 2)
      else if one_of ty [''hex''] then rbind (req_width jf) (\<lambda>width. Ok (KHex endian, width))
      else if one_of ty [''bool'', ''boolean''] then Ok (KBool, 1)
      else if one_of ty [''pad'', ''filler''] then
        rbind (parse_pad (j_pad jf) (ch CHR '' '')) (\<lambda>pad.
        rbind (req_width jf) (\<lambda>width. Ok (KPad pad, width)))
      else Err (Spec (UnknownType ty)))"

definition json_kind :: "json_field \<Rightarrow> error + (field_kind \<times> nat)" where
  "json_kind jf =
     rbind (parse_endian (j_endian jf)) (\<lambda>endian.
     let sgnd = (j_signed jf = Some True) in
     rbind (parse_sign (j_sign jf) sgnd) (\<lambda>sign.
     rbind (ok_or (j_ty jf) (Spec (NoType (j_name jf)))) (\<lambda>ty.
     kind_of_type jf endian sgnd sign (to_ascii_lowercase ty))))"

section \<open>Fields and offsets\<close>

lemma size_json_fields: "j_fields jf = Some cs \<Longrightarrow> size_list size cs < size jf"
  by (cases jf) simp

text \<open>The fields, the bytes they take and the new name counter.\<close>

function (sequential)
    json_fields :: "json_field list \<Rightarrow> nat \<Rightarrow> nat \<Rightarrow> error + (field list \<times> nat \<times> nat)"
and json_loop :: "json_field list \<Rightarrow> nat \<Rightarrow> nat \<Rightarrow> nat \<Rightarrow> error + (field list \<times> nat \<times> nat)"
where
  "json_fields raw auto depth =
     (if depth > MAX_NESTING_DEPTH then Err (Spec (NestingTooDeep MAX_NESTING_DEPTH)) else json_loop raw auto depth 0)"
| "json_loop [] auto depth offset = Ok ([], offset, auto)"
| "json_loop (jf # raw) auto depth offset =
     (let (name, auto) =
        (case j_name jf of Some n \<Rightarrow> (n, auto) | None \<Rightarrow> (lit ''field_'' @ nat_str (auto + 1), auto + 1))
      in
      rbind (case j_fields jf of
               Some children \<Rightarrow>
                 rbind (json_fields children auto (depth + 1)) (\<lambda>(fs, gw, auto). Ok (KGroup fs, gw, auto))
             | None \<Rightarrow> rbind (json_kind jf) (\<lambda>(kind, width). Ok (kind, width, auto)))
      (\<lambda>(kind, width, auto).
      let total = width * (case j_occurs jf of None \<Rightarrow> 1 | Some n \<Rightarrow> n);
          f = Field name offset width kind (j_occurs jf) None None
      in rbind (json_loop raw auto depth (offset + total)) (\<lambda>(fs, w, auto). Ok (f # fs, w, auto))))"
  by pat_completeness auto

termination
  by (relation "measures [\<lambda>x. (case x of Inl (fs, _) \<Rightarrow> size_list size fs | Inr (fs, _) \<Rightarrow> size_list size fs),
      \<lambda>x. (case x of Inl _ \<Rightarrow> 1 | Inr _ \<Rightarrow> 0)]")
    (auto dest: size_json_fields)

definition json_parse :: "(rstr \<Rightarrow> json_spec option) \<Rightarrow> rstr \<Rightarrow> error + layout" where
  "json_parse from_str src =
     rbind (ok_or (from_str src) (Spec InvalidJson)) (\<lambda>spec.
     let raw = (case spec of JArray v \<Rightarrow> v | JWrapped fs \<Rightarrow> fs) in
     rbind (json_fields raw 0 0) (\<lambda>(fields, width, auto).
     from_fields fields))"

end
