(* ===== verification/MultiRecord.thy ===== *)
theory MultiRecord
  imports Template JsonSpec Ebcdic
begin

text \<open>
  The dispatch over the three front ends (\<open>parse_spec\<close> of \<open>layout.rs\<close>) and the
  multi-record layouts (\<open>multirecord.rs\<close>): one layout per record type, chosen by the bytes of
  a discriminator field. The two deserializers of \<open>serde_json\<close> are the parameter \<open>serde\<close>.
\<close>

section \<open>Deserialized input\<close>

text \<open>A JSON value, as far as the code looks at it: a string, or the text of anything else.\<close>

datatype json_value = JvString rstr | JvOther rstr

record raw_spec =
  rs_offset :: nat
  rs_width :: nat
  rs_records :: "(rstr \<times> json_value) list"
  rs_default :: "rstr option"

record serde =
  sd_spec :: "rstr \<Rightarrow> json_spec option"
  sd_multi :: "rstr \<Rightarrow> raw_spec option"

section \<open>One spec\<close>

definition parse_spec :: "serde \<Rightarrow> rstr \<Rightarrow> rstr option \<Rightarrow> error + layout" where
  "parse_spec sd spec format =
     (let fmt = (case format of Some f \<Rightarrow> to_ascii_lowercase f | None \<Rightarrow> detect_format spec) in
      if fmt = lit ''template'' then template_parse spec
      else if fmt = lit ''json'' then json_parse (sd_spec sd) spec
      else if fmt = lit ''copybook'' then copybook_parse spec
      else Err (UnknownSpecFormat fmt))"

section \<open>Several record types\<close>

record multi_layout =
  m_disc_offset :: nat
  m_disc_width :: nat
  m_variants :: "(rstr \<times> layout) list"
  m_default :: "nat option"

text \<open>\<open>iter().position(p)\<close>\<close>

fun position :: "('a \<Rightarrow> bool) \<Rightarrow> 'a list \<Rightarrow> nat option" where
  "position p [] = None"
| "position p (x # xs) = (if p x then Some 0 else map_option Suc (position p xs))"

definition parse_variant :: "serde \<Rightarrow> rstr \<times> json_value \<Rightarrow> error + (rstr \<times> layout)" where
  "parse_variant sd entry =
     (case entry of (tag, value) \<Rightarrow>
       rmap_value (\<lambda>l. (tag, l)) (map_err (RecordType tag)
         (case value of
            JvString s \<Rightarrow> parse_spec sd s None
          | JvOther s \<Rightarrow> json_parse (sd_spec sd) s)))"

definition multi_parse :: "serde \<Rightarrow> rstr \<Rightarrow> error + multi_layout" where
  "multi_parse sd src =
     rbind (ok_or (sd_multi sd src) (Spec InvalidMultiSpec)) (\<lambda>raw.
     if rs_width raw = 0 then Err (Spec DiscriminatorWidth)
     else if rs_records raw = [] then Err (Spec NoRecordTypes)
     else
       rbind (rmap (parse_variant sd) (rs_records raw)) (\<lambda>variants.
       rbind (case rs_default raw of
                None \<Rightarrow> Ok None
              | Some tag \<Rightarrow>
                  rmap_value Some (ok_or (position (\<lambda>(t, _). t = tag) variants)
                    (Spec (DefaultNotInRecords tag)))) (\<lambda>dflt.
       Ok \<lparr> m_disc_offset = rs_offset raw, m_disc_width = rs_width raw,
            m_variants = variants, m_default = dflt \<rparr>)))"

definition variant :: "multi_layout \<Rightarrow> rstr \<Rightarrow> layout option" where
  "variant m tag = map_option snd (find (\<lambda>(t, _). t = tag) (m_variants m))"

definition encode_discriminator :: "multi_layout \<Rightarrow> rstr \<Rightarrow> encoding \<Rightarrow> bytes" where
  "encode_discriminator m tag enc =
     (let width = m_disc_width m;
          src = utf8 tag;
          n = min (length src) width;
          out = take n src @ replicate (width - n) (ch CHR '' '')
      in case enc of Ascii \<Rightarrow> out | Ebcdic \<Rightarrow> encode_slice out)"

definition select :: "multi_layout \<Rightarrow> bytes \<Rightarrow> encoding \<Rightarrow> error + (nat \<times> layout)" where
  "select m record enc =
     (let off = m_disc_offset m; width = m_disc_width m; fin = off + width in
      if length record < fin then Err (DiscriminatorShort off width (length record))
      else
        let raw = take width (drop off record);
            ascii = (case enc of Ascii \<Rightarrow> raw | Ebcdic \<Rightarrow> map to_ascii_byte raw);
            tag = trim (utf8_lossy ascii)
        in case position (\<lambda>(t, _). t = tag) (m_variants m) of
             Some i \<Rightarrow> Ok (i, snd (m_variants m ! i))
           | None \<Rightarrow>
               (case m_default m of
                  Some d \<Rightarrow> Ok (d, snd (m_variants m ! d))
                | None \<Rightarrow> Err (UnknownRecordType tag)))"

section \<open>Facts\<close>

lemma position_Some:
  "position p xs = Some i \<Longrightarrow> i < length xs \<and> p (xs ! i) \<and> (\<forall>j < i. \<not> p (xs ! j))"
  by (induction xs arbitrary: i) (auto simp: nth_Cons split: if_splits nat.splits)

lemma position_less: "position p xs = Some i \<Longrightarrow> i < length xs"
  using position_Some by blast

lemma position_None: "position p xs = None \<longleftrightarrow> (\<forall>x \<in> set xs. \<not> p x)"
  by (induction xs) auto

lemma position_distinct:
  "distinct (map fst xs) \<Longrightarrow> i < length xs \<Longrightarrow> position (\<lambda>(t, _). t = fst (xs ! i)) xs = Some i"
  by (induction xs arbitrary: i) (auto simp: nth_Cons split: nat.splits prod.splits)

lemma find_position:
  "find p xs = map_option ((!) xs) (position p xs)"
  by (induction xs) (auto simp: option.map_comp comp_def)

end
