(* ===== verification/Describe.thy ===== *)
theory Describe
  imports Layout
begin

text \<open>
  Spec introspection (\<open>describe.rs\<close>): the flat list of field descriptors of a layout, groups
  before their children, with dotted paths, absolute static offsets and column types.
\<close>

record field_desc =
  d_path :: rstr
  d_depth :: nat
  d_kind :: rstr
  d_sql_type :: rstr
  d_offset :: nat
  d_width :: nat
  d_occurs :: "nat option"
  d_depending_on :: "rstr option"

definition endian_tag :: "endian \<Rightarrow> rstr" where
  "endian_tag e = (case e of Big \<Rightarrow> lit ''BE'' | Little \<Rightarrow> lit ''LE'')"

definition kind_label :: "field \<Rightarrow> rstr" where
  "kind_label f =
     (case f_kind f of
        KText _ _ _ \<Rightarrow> lit ''text''
      | KInt sgnd _ \<Rightarrow> if sgnd then lit ''int (display, signed)'' else lit ''int (display)''
      | KBinary endian sgnd \<Rightarrow>
          (if sgnd then lit ''int'' else lit ''uint'') @ nat_str (f_width f * 8) @ lit '' '' @ endian_tag endian
      | KFloat bits endian \<Rightarrow> lit ''float'' @ nat_str bits @ lit '' '' @ endian_tag endian
      | KHex _ \<Rightarrow> lit ''hex''
      | KBool \<Rightarrow> lit ''bool''
      | KPad _ \<Rightarrow> lit ''pad''
      | KDecimal _ _ repr _ \<Rightarrow>
          (case repr of RComp3 \<Rightarrow> lit ''comp-3'' | RZoned \<Rightarrow> lit ''zoned'' | RDisplay \<Rightarrow> lit ''decimal (display)'')
      | KEdited _ _ _ _ \<Rightarrow> lit ''edited''
      | KGroup _ \<Rightarrow> lit ''group''
      | KDateTime k _ \<Rightarrow>
          (case k of DDate \<Rightarrow> lit ''date'' | DTime \<Rightarrow> lit ''time'' | DTimestamp \<Rightarrow> lit ''timestamp''))"

definition decimal_type :: "nat \<Rightarrow> nat \<Rightarrow> rstr" where
  "decimal_type precision scale =
     lit ''DECIMAL('' @ nat_str (max 1 (min 38 precision)) @ lit '','' @ nat_str scale @ lit '')''"

definition base_sql_type :: "field \<Rightarrow> rstr" where
  "base_sql_type f =
     (case f_kind f of
        KText _ _ _ \<Rightarrow> lit ''VARCHAR''
      | KHex _ \<Rightarrow> lit ''VARCHAR''
      | KInt _ _ \<Rightarrow> lit ''BIGINT''
      | KBinary _ _ \<Rightarrow> lit ''BIGINT''
      | KFloat bits _ \<Rightarrow> if bits = 64 then lit ''DOUBLE'' else lit ''REAL''
      | KBool \<Rightarrow> lit ''BOOLEAN''
      | KPad _ \<Rightarrow> lit ''NULL''
      | KDecimal precision scale _ _ \<Rightarrow> decimal_type precision scale
      | KEdited precision scale _ _ \<Rightarrow> decimal_type precision scale
      | KGroup _ \<Rightarrow> lit ''STRUCT''
      | KDateTime k _ \<Rightarrow>
          (case k of DDate \<Rightarrow> lit ''DATE'' | DTime \<Rightarrow> lit ''TIME'' | DTimestamp \<Rightarrow> lit ''TIMESTAMP''))"

definition sql_type :: "field \<Rightarrow> rstr" where
  "sql_type f =
     (if f_occurs f \<noteq> None \<or> f_depending_on f \<noteq> None then base_sql_type f @ lit ''[]''
      else base_sql_type f)"

definition join_path :: "rstr \<Rightarrow> rstr \<Rightarrow> rstr" where
  "join_path prefix name = (if prefix = [] then name else prefix @ lit ''.'' @ name)"

definition describe_one :: "field \<Rightarrow> rstr \<Rightarrow> nat \<Rightarrow> nat \<Rightarrow> field_desc" where
  "describe_one f path offset depth =
     \<lparr> d_path = path, d_depth = depth, d_kind = kind_label f, d_sql_type = sql_type f,
       d_offset = offset, d_width = f_width f, d_occurs = f_occurs f,
       d_depending_on = f_depending_on f \<rparr>"

fun walk_field :: "field \<Rightarrow> rstr \<Rightarrow> nat \<Rightarrow> nat \<Rightarrow> field_desc list" where
  "walk_field (Field nm off w k occ dep red) prefix base depth =
     (let f = Field nm off w k occ dep red in
      if is_pad f then []
      else
        let path = join_path prefix nm; offset = base + off in
        describe_one f path offset depth #
          (case k of
             KGroup children \<Rightarrow> concat (map (\<lambda>c. walk_field c path offset (depth + 1)) children)
           | _ \<Rightarrow> []))"

definition walk :: "field list \<Rightarrow> rstr \<Rightarrow> nat \<Rightarrow> nat \<Rightarrow> field_desc list" where
  "walk fs prefix base depth = concat (map (\<lambda>f. walk_field f prefix base depth) fs)"

definition describe :: "layout \<Rightarrow> field_desc list" where
  "describe l = walk (l_fields l) [] 0 0"

end
