(* ===== verification/Specs.thy ===== *)
theory Specs
  imports MultiRecord RoundTrip Describe
begin

text \<open>
  What the spec front ends promise about the layouts they build: the fields of a template or
  JSON layout follow one another without gap or overlap, at every depth, so records of such
  layouts round-trip; nesting is bounded; the discriminator of a multi-record layout selects the
  variant that wrote it; the descriptor rows of \<open>describe\<close> mirror the layout.
\<close>

section \<open>Layouts without gaps\<close>

fun contiguous :: "nat \<Rightarrow> field list \<Rightarrow> nat \<Rightarrow> bool" where
  "contiguous lo [] hi = (lo = hi)"
| "contiguous lo (f # fs) hi = (f_offset f = lo \<and> contiguous (lo + reserved_width f) fs hi)"

fun tight_deep :: "field \<Rightarrow> bool" where
  "tight_deep (Field nm off w k occ dep red) =
     (red = None \<and> (case k of KGroup cs \<Rightarrow> contiguous 0 cs w \<and> list_all tight_deep cs | _ \<Rightarrow> True))"

definition tight :: "field list \<Rightarrow> nat \<Rightarrow> bool" where
  "tight fs hi \<longleftrightarrow> contiguous 0 fs hi \<and> list_all tight_deep fs"

lemma contiguous_le: "contiguous lo fs hi \<Longrightarrow> lo \<le> hi"
  by (induction fs arbitrary: lo) (auto, fastforce)

lemma contiguous_apart: "contiguous lo fs hi \<Longrightarrow> apart lo fs"
  by (induction fs arbitrary: lo) auto

lemma contiguous_end:
  "contiguous lo fs hi \<Longrightarrow> max lo (max_of (map (\<lambda>f. f_offset f + reserved_width f) fs)) = hi"
proof (induction fs arbitrary: lo)
  case (Cons f fs)
  then have "max (lo + reserved_width f) (max_of (map (\<lambda>f. f_offset f + reserved_width f) fs)) = hi"
    by simp
  then show ?case
    using Cons.prems contiguous_le [of "lo + reserved_width f" fs hi] by (auto simp: max_def split: if_splits)
qed simp

lemma tight_deep_apart: "tight_deep f \<Longrightarrow> apart_deep f"
proof (induction f rule: apart_deep.induct)
  case (1 nm off w k occ dep red)
  then show ?case
    by (auto simp: list_all_iff contiguous_apart split: field_kind.split)
qed

lemma tight_apart: "tight fs hi \<Longrightarrow> layout_apart fs"
  using contiguous_apart tight_deep_apart by (auto simp: tight_def layout_apart_def list_all_iff)

lemma tight_from_fields:
  "tight fs hi \<Longrightarrow> from_fields fs = Ok l \<Longrightarrow> l_fields l = fs \<and> l_record_len l = hi"
  using contiguous_end [of 0 fs hi] by (auto simp: tight_def from_fields_def)

section \<open>Templates\<close>

lemma parse_body_flat:
  "parse_body body order = Ok (kind, width, count) \<Longrightarrow> \<forall>cs. kind \<noteq> KGroup cs"
  by (auto simp: parse_body_def Let_def width_code_def repeat_code_def parse_pic_def
      split: list.splits if_splits prod.splits option.splits usage.splits)

lemma tight_deep_flat: "\<forall>cs. kind \<noteq> KGroup cs \<Longrightarrow> tight_deep (Field nm off w kind occ dep None)"
  by (cases kind) auto

lemma parse_tokens_tight:
  "parse_tokens ts offset order auto = Ok (fs, w) \<Longrightarrow> contiguous offset fs w \<and> list_all tight_deep fs"
proof (induction "token_size ts" arbitrary: ts offset order auto fs w rule: less_induct)
  case less
  show ?case
  proof (cases ts)
    case (Cons token tokens)
    note IH = less.hyps [unfolded Cons token_size_simps]
    obtain nm body where sn: "split_name token = (nm, body)"
      by (cases "split_name token")
    have inner: "contiguous 0 cs gw \<and> list_all tight_deep cs"
      if "strip_group (drop k body) = Ok (inner, count)" "drop k body \<noteq> []" "template_tokenize inner = Ok its"
        "parse_tokens its 0 Big 0 = Ok (cs, gw)" for k inner count its cs gw
      using IH [OF _ that(4)] inner_size [OF sn that(2,1,3)] by simp
    have rest: "contiguous off fs w \<and> list_all tight_deep fs"
      if "parse_tokens tokens off order auto = Ok (fs, w)" for off order auto fs w
      using IH [OF _ that] by simp
    show ?thesis
    proof (cases "order_control token")
      case (Some o)
      then show ?thesis
        using less.prems rest by (simp add: Cons)
    next
      case None
      note prems = less.prems [unfolded Cons parse_tokens.simps None sn option.case prod.case]
      show ?thesis
      proof (cases "find_count_prefix body")
        case (Some idx)
        obtain ck cw inner its cs gw base auto' fs' where eq:
          "strip_group (drop (Suc idx) body) = Ok (inner, None)" "template_tokenize inner = Ok its"
          "parse_tokens its 0 Big 0 = Ok (cs, gw)" "is_count_kind ck"
          "parse_tokens tokens (offset + cw) order auto' = Ok (fs', w)"
          "fs = Field (base @ lit ''_count'') offset cw ck None None None #
             Field base (offset + cw) gw (KGroup cs) None (Some (base @ lit ''_count'')) None # fs'"
          using prems Some by (auto simp: Let_def split: if_splits prod.splits)
        have "contiguous 0 cs gw \<and> list_all tight_deep cs"
          using inner [OF eq(1) _ eq(2,3)] find_count_prefix_size [OF Some] by simp
        moreover have "tight_deep (Field (base @ lit ''_count'') offset cw ck None None None)"
          using eq(4) by (intro tight_deep_flat) (auto simp: is_count_kind_def)
        ultimately show ?thesis
          using rest [OF eq(5)] eq(6) by (simp add: reserved_width_def)
      next
        case no_prefix: None
        show ?thesis
        proof (cases "starts_with (lit ''('') body")
          case True
          obtain inner count its cs gw name auto' fs' where eq:
            "strip_group body = Ok (inner, count)" "template_tokenize inner = Ok its"
            "parse_tokens its 0 Big 0 = Ok (cs, gw)" "body \<noteq> []"
            "parse_tokens tokens (offset + gw * or_one count) order auto' = Ok (fs', w)"
            "fs = Field name offset gw (KGroup cs) count None None # fs'"
            using prems no_prefix True by (auto simp: Let_def split: if_splits prod.splits)
          show ?thesis
            using inner [of 0, simplified, OF eq(1,4,2,3)] rest [OF eq(5)] eq(6)
            by (simp add: reserved_width_def or_one_def)
        next
          case False
          then show ?thesis
            using prems no_prefix
            by (auto simp: reserved_width_def Let_def or_one_def tight_deep_flat simp del: tight_deep.simps
                dest!: rest parse_body_flat split: if_splits prod.splits)
        qed
      qed
    qed
  qed (use less.prems in simp)
qed

lemma template_tight: "template_parse src = Ok l \<Longrightarrow> tight (l_fields l) (l_record_len l)"
  using parse_tokens_tight tight_from_fields by (fastforce simp: template_parse_def tight_def)

section \<open>JSON specs\<close>

lemma json_kind_flat: "json_kind jf = Ok (kind, width) \<Longrightarrow> \<forall>cs. kind \<noteq> KGroup cs"
  by (auto simp: json_kind_def kind_of_type_def temporal_def Let_def split: if_splits)

fun field_depth :: "field \<Rightarrow> nat" where
  "field_depth (Field nm off w k occ dep red) =
     (case k of KGroup cs \<Rightarrow> Suc (max_of (map field_depth cs)) | _ \<Rightarrow> 0)"

lemma field_depth_flat: "\<forall>cs. kind \<noteq> KGroup cs \<Longrightarrow> field_depth (Field nm off w kind occ dep red) = 0"
  by (cases kind) auto

lemma json_tight:
  "json_fields raw auto depth = Ok (fs, w, auto') \<Longrightarrow>
   contiguous 0 fs w \<and> list_all tight_deep fs \<and> depth + max_of (map field_depth fs) \<le> MAX_NESTING_DEPTH"
  "depth \<le> MAX_NESTING_DEPTH \<Longrightarrow> json_loop raw auto depth offset = Ok (fs, w, auto') \<Longrightarrow>
   contiguous offset fs w \<and> list_all tight_deep fs \<and> depth + max_of (map field_depth fs) \<le> MAX_NESTING_DEPTH"
proof (induction raw auto depth and raw auto depth offset arbitrary: fs w auto' and fs w auto'
    rule: json_fields_json_loop.induct)
  case (3 jf raw auto depth offset)
  let ?name = "case j_name jf of Some n \<Rightarrow> (n, auto) | None \<Rightarrow> (lit ''field_'' @ nat_str (auto + 1), auto + 1)"
  obtain name auto1 where na: "?name = (name, auto1)"
    by (cases ?name)
  obtain kind width auto2 fs' where eq: "(case j_fields jf of
        Some children \<Rightarrow> rbind (json_fields children auto1 (depth + 1)) (\<lambda>(fs, gw, auto). Ok (KGroup fs, gw, auto))
      | None \<Rightarrow> rbind (json_kind jf) (\<lambda>(kind, width). Ok (kind, width, auto1))) = Ok (kind, width, auto2)"
    "json_loop raw auto2 depth (offset + width * (case j_occurs jf of None \<Rightarrow> 1 | Some n \<Rightarrow> n)) = Ok (fs', w, auto')"
    "fs = Field name offset width kind (j_occurs jf) None None # fs'"
    using 3(4) unfolding json_loop.simps na Let_def prod.case
    by (elim rbind_InrE) (simp only: split_paired_all prod.case prod.inject sum.inject; elim rbind_InrE; simp only: split_paired_all prod.case prod.inject sum.inject; blast)
  have "tight_deep (Field name offset width kind oc None None)
      \<and> depth + field_depth (Field name offset width kind oc None None) \<le> MAX_NESTING_DEPTH" for oc
  proof (cases "j_fields jf")
    case None
    then show ?thesis
      using eq(1) 3(3) tight_deep_flat field_depth_flat by (auto dest!: json_kind_flat)
  next
    case (Some children)
    then show ?thesis
      using eq(1) 3(1) [OF na [symmetric] refl Some] by (auto split: if_splits)
  qed
  moreover have "contiguous (offset + width * (case j_occurs jf of None \<Rightarrow> 1 | Some n \<Rightarrow> n)) fs' w \<and> list_all tight_deep fs'
     \<and> depth + max_of (map field_depth fs') \<le> MAX_NESTING_DEPTH"
    by (rule 3(2) [OF na [symmetric] refl eq(1) refl refl refl refl 3(3) eq(2)])
  ultimately show ?case
    using eq(3) by (auto simp: reserved_width_def max_def simp del: tight_deep.simps field_depth.simps)
qed (auto split: if_splits)

lemma json_layout:
  assumes "json_parse from_str src = Ok l"
  shows "tight (l_fields l) (l_record_len l) \<and> max_of (map field_depth (l_fields l)) \<le> MAX_NESTING_DEPTH"
  using assms json_tight(1) tight_from_fields by (fastforce simp: json_parse_def tight_def Let_def)

section \<open>Discriminators\<close>

lemma trim_spaces: "trim (s @ replicate n (ch CHR '' '')) = trim s"
proof -
  have "is_white (ch CHR '' '')"
    by (simp add: is_white_def)
  then have e: "trim_end (s @ replicate n (ch CHR '' '')) = trim_end s" for s
    by (simp add: trim_end_def trim_end_by_replicate)
  show ?thesis
  proof (cases "trim_start s = []")
    case True
    then have "list_all is_white s"
      by (simp add: trim_start_def trim_start_by_def list_all_iff)
    then show ?thesis
      using \<open>is_white (ch CHR '' '')\<close>
      by (simp_all add: trim_def trim_start_def trim_start_by_def trim_end_def trim_end_by_def dropWhile_append list_all_iff)
        (auto dest: set_dropWhileD)
  next
    case False
    then have "trim_start (s @ replicate n (ch CHR '' '')) = trim_start s @ replicate n (ch CHR '' '')"
      by (auto simp: trim_start_def trim_start_by_def dropWhile_append)
    then show ?thesis
      using e by (simp add: trim_def)
  qed
qed

lemma discriminator_text:
  assumes "list_all is_scalar tag" "length (utf8 tag) \<le> m_disc_width m" "trim tag = tag"
  shows "trim (utf8_lossy (case enc of Ascii \<Rightarrow> encode_discriminator m tag enc
      | Ebcdic \<Rightarrow> map to_ascii_byte (encode_discriminator m tag enc))) = tag"
    "length (encode_discriminator m tag enc) = m_disc_width m"
proof -
  let ?out = "utf8 tag @ replicate (m_disc_width m - length (utf8 tag)) (ch CHR '' '')"
  have d: "encode_discriminator m tag enc = (case enc of Ascii \<Rightarrow> ?out | Ebcdic \<Rightarrow> encode_slice ?out)" for enc
    using assms(2) by (simp add: encode_discriminator_def Let_def min_def split: encoding.split)
  have "map to_ascii_byte (encode_slice ?out) = ?out"
    using cp037.rd_wr [of ?out] by (simp add: decode_slice_def)
  then show "trim (utf8_lossy (case enc of Ascii \<Rightarrow> encode_discriminator m tag enc
      | Ebcdic \<Rightarrow> map to_ascii_byte (encode_discriminator m tag enc))) = tag"
    using utf8_lossy_pad_right(1) [OF assms(1), of "ch CHR '' ''"] trim_spaces assms(3)
    by (cases enc) (simp_all add: d)
  show "length (encode_discriminator m tag enc) = m_disc_width m"
    using assms(2) by (simp add: d encode_slice_def split: encoding.split)
qed

lemma select_discriminator:
  assumes "position (\<lambda>(t, _). t = tag) (m_variants m) = Some i"
    and "list_all is_scalar tag" "length (utf8 tag) \<le> m_disc_width m" "trim tag = tag"
    and "length before = m_disc_offset m"
  shows "select m (before @ encode_discriminator m tag enc @ after) enc = Ok (i, snd (m_variants m ! i))
    \<and> variant m tag = Some (snd (m_variants m ! i))"
proof -
  have "variant m tag = Some (snd (m_variants m ! i))"
    using assms(1) by (simp add: variant_def find_position)
  moreover have "take (m_disc_width m) (drop (m_disc_offset m) (before @ encode_discriminator m tag enc @ after))
      = encode_discriminator m tag enc"
    using assms(5) discriminator_text(2) [OF assms(2-4)] by simp
  ultimately show ?thesis
    using discriminator_text [OF assms(2-4), of enc] assms(1,5)
    by (cases enc) (simp_all add: select_def Let_def)
qed

lemma multi_parse_shape:
  assumes "multi_parse sd src = Ok m"
  shows "0 < m_disc_width m" "m_variants m \<noteq> []" "\<forall>d. m_default m = Some d \<longrightarrow> d < length (m_variants m)"
proof -
  show "0 < m_disc_width m"
    using assms by (auto simp: multi_parse_def split: if_splits)
  show "m_variants m \<noteq> []"
  proof
    assume "m_variants m = []"
    then have "\<exists>raw :: raw_spec. rs_records raw \<noteq> [] \<and> rmap (parse_variant sd) (rs_records raw) = Ok []"
      using assms by (fastforce simp: multi_parse_def split: if_splits)
    then show False
      using rmap_length by fastforce
  qed
  show "\<forall>d. m_default m = Some d \<longrightarrow> d < length (m_variants m)"
    using assms by (auto simp: multi_parse_def position_less split: if_splits option.splits)
qed

section \<open>Descriptor rows\<close>

text \<open>No \<open>DEPENDING ON\<close> and no table of zero elements, at any depth.\<close>

fun static_deep :: "field \<Rightarrow> bool" where
  "static_deep (Field nm off w k occ dep red) =
     (dep = None \<and> occ \<noteq> Some 0 \<and> (case k of KGroup cs \<Rightarrow> list_all static_deep cs | _ \<Rightarrow> True))"

lemma contiguous_member:
  "contiguous lo fs hi \<Longrightarrow> f \<in> set fs \<Longrightarrow> lo \<le> f_offset f \<and> f_offset f + reserved_width f \<le> hi"
  by (induction fs arbitrary: lo) (auto dest: contiguous_le, fastforce)

lemma walk_field_in_record:
  "tight_deep f \<Longrightarrow> static_deep f \<Longrightarrow> r \<in> set (walk_field f prefix base depth) \<Longrightarrow>
   base + f_offset f \<le> d_offset r \<and> d_offset r + d_width r \<le> base + f_offset f + f_width f"
proof (induction f prefix base depth arbitrary: r rule: walk_field.induct)
  case (1 nm off w k occ dep red prefix base depth)
  let ?path = "join_path prefix nm"
  show ?case
  proof (cases "r = describe_one (Field nm off w k occ dep red) ?path (base + off) depth")
    case False
    then obtain cs c where k: "k = KGroup cs" "c \<in> set cs" "r \<in> set (walk_field c ?path (base + off) (depth + 1))"
      using 1(4) by (auto simp: Let_def split: if_splits field_kind.splits)
    have c: "tight_deep c" "static_deep c" "contiguous 0 cs w"
      using 1(2,3) k by (auto simp: list_all_iff)
    have "f_offset c + reserved_width c \<le> w"
      using contiguous_member [OF c(3) k(2)] by simp
    moreover have "f_width c \<le> reserved_width c"
      using c(2) by (cases c) (auto simp: reserved_width_def split: option.splits)
    moreover have "base + off + f_offset c \<le> d_offset r \<and> d_offset r + d_width r \<le> base + off + f_offset c + f_width c"
      using 1(1) k c by (auto simp: Let_def is_pad_def)
    ultimately show ?thesis
      by simp
  qed (simp add: describe_one_def)
qed

section \<open>Nested templates\<close>

text \<open>\<open>C\<close> in \<open>n\<close> pairs of parentheses.\<close>

fun nested_template :: "nat \<Rightarrow> rstr" where
  "nested_template 0 = lit ''C''"
| "nested_template (Suc n) = lit ''('' @ nested_template n @ lit '')''"

fun nested_field :: "nat \<Rightarrow> field" where
  "nested_field 0 = Field (lit ''field_1'') 0 1 (KBinary Big False) None None None"
| "nested_field (Suc n) = Field (lit ''field_1'') 0 1 (KGroup [nested_field n]) None None None"

lemma nested_chars: "c \<in> set (nested_template n) \<Longrightarrow> c = 40 \<or> c = 41 \<or> c = 67"
  by (induction n) auto

lemma nested_tokenize: "tokenize_loop (nested_template n @ s) cur d = tokenize_loop s (cur @ nested_template n) d"
  by (induction n arbitrary: s cur d) (simp_all add: is_white_def)

lemma nested_close: "0 < d \<Longrightarrow> find_close (nested_template n @ s) d i = find_close s d (i + length (nested_template n))"
  by (induction n arbitrary: s d i) simp_all

lemma nested_ne [simp]: "nested_template n \<noteq> []"
  by (cases n) simp_all

lemma find_count_prefix_none: "47 \<notin> set s \<Longrightarrow> find_count_prefix s = None"
  by (induction s rule: find_count_prefix.induct) auto

lemma nested_parse: "parse_tokens [nested_template n] 0 Big 0 = Ok ([nested_field n], 1)"
proof (induction n)
  case 0
  have "parse_tokens [lit ''C''] 0 Big 0 = Ok ([nested_field 0], 1)"
    by code_simp
  then show ?case
    by simp
next
  case (Suc n)
  let ?t = "nested_template (Suc n)"
  have "47 \<notin> set ?t" "58 \<notin> set ?t"
    using nested_chars [of _ "Suc n"] by fastforce+
  then have 1: "split_name ?t = (None, ?t)" "find_count_prefix ?t = None"
    by (auto simp: split_name_def find_char_def find_count_prefix_none simp del: nested_template.simps)
  have 2: "order_control ?t = None" "starts_with (lit ''('') ?t"
    by (auto simp: order_control_def starts_with_def)
  have 3: "strip_group ?t = Ok (nested_template n, None)"
    by (simp add: strip_group_def nested_close parse_count_def)
  have 4: "template_tokenize (nested_template n) = Ok [nested_template n]"
    using nested_tokenize [of n "[]" "[]" 0] by (simp add: template_tokenize_def)
  have "name_or_auto None 0 = (lit ''field_1'', 1)"
    by code_simp
  then show ?case
    using 1 2 3 4 Suc
    by (simp add: or_one_def Let_def del: nested_template.simps)
qed

section \<open>Properties\<close>

text \<open>
  A template that parses gives a layout without gaps or overlaps at any depth: every field
  starts where the one before it ends, a group is as wide as its fields, and the record length
  is where the last field ends. Count-prefixed groups reserve nothing.
\<close>

theorem template_layout_tight:
  "template_parse src = Ok l \<Longrightarrow> tight (l_fields l) (l_record_len l)"
  by (rule template_tight)

theorem template_layout_tight_witness:
  "\<exists>l. template_parse (lit ''id:A3 n:C/(q:s)'') = Ok l \<and> tight (l_fields l) 4 \<and> l_variable l"
proof -
  have "(case template_parse (lit ''id:A3 n:C/(q:s)'') of Inr l \<Rightarrow> l_record_len l = 4 \<and> l_variable l | _ \<Rightarrow> False)"
    by code_simp
  then show ?thesis
    using template_layout_tight by (fastforce split: sum.splits)
qed

text \<open>
  C24. A JSON spec that parses gives a layout without gaps or overlaps whose groups are nested
  at most \<open>MAX_NESTING_DEPTH\<close> deep.
\<close>

theorem json_layout_tight_bounded:
  assumes "json_parse from_str src = Ok l"
  shows "tight (l_fields l) (l_record_len l) \<and> max_of (map field_depth (l_fields l)) \<le> MAX_NESTING_DEPTH"
  using assms by (rule json_layout)

definition sample_json :: json_spec where
  "sample_json =
     JWrapped [JsonField None (Some (lit ''int'')) None (Some 2) None None None None None None None None None,
               JsonField (Some (lit ''g'')) None None None None None None (Some 3) None None None None
                 (Some [JsonField None (Some (lit ''bool'')) None None None None None None None None None None None])]"

theorem json_layout_tight_bounded_witness:
  "\<exists>l. json_parse (\<lambda>_. Some sample_json) [] = Ok l \<and> tight (l_fields l) 5 \<and> max_of (map field_depth (l_fields l)) \<le> 64"
proof -
  have "(case json_parse (\<lambda>_. Some sample_json) [] of Inr l \<Rightarrow> l_record_len l = 5 | _ \<Rightarrow> False)"
    by code_simp
  then show ?thesis
    using json_layout_tight_bounded [of "\<lambda>_. Some sample_json" "[]"]
    by (fastforce simp: MAX_NESTING_DEPTH_def split: sum.splits)
qed

text \<open>
  The nesting depth of a template is not bounded: for every \<open>n\<close> there is a template whose
  layout nests \<open>n\<close> groups. The limit that \<open>layout.rs\<close> declares for specs holds for
  JSON and copybooks only.
\<close>

theorem template_nesting_unbounded:
  "\<exists>l. template_parse (nested_template n) = Ok l \<and> max_of (map field_depth (l_fields l)) = n"
proof -
  have "template_tokenize (nested_template n) = Ok [nested_template n]"
    using nested_tokenize [of n "[]" "[]" 0] by (simp add: template_tokenize_def)
  moreover have "field_depth (nested_field n) = n"
    by (induction n) simp_all
  ultimately show ?thesis
    by (simp add: template_parse_def nested_parse from_fields_def del: parse_tokens.simps)
qed

text \<open>
  C5. Records of a template or JSON spec round-trip: whatever the fields, any values that they
  represent are written and read back unchanged, with no condition on the layout.
\<close>

theorem spec_roundtrip:
  assumes "template_parse src = Ok l \<or> json_parse from_str src = Ok l"
    and "names_distinct vs" "conforms_fields c (l_fields l) Map.empty vs \<noteq> None"
  shows "\<exists>bs. encode_record c l vs enc = Ok bs \<and> l_record_len l \<le> length bs
    \<and> decode_record c l bs enc = Ok vs"
proof -
  have "tight (l_fields l) (l_record_len l)"
    using assms(1) template_tight json_layout by blast
  then show ?thesis
    using assms(2,3) by (intro encode_decode_record) (simp add: conforms_record_def tight_apart)
qed

theorem spec_roundtrip_witness:
  "\<exists>c l bs. template_parse (lit ''n:C/(q:s)'') = Ok l \<and>
     encode_record c l [(lit ''n_count'', VInt 1), (lit ''n'', VList [VStruct [(lit ''q'', VInt (- 2))]])] Ascii = Ok bs \<and>
     decode_record c l bs Ascii = Ok [(lit ''n_count'', VInt 1), (lit ''n'', VList [VStruct [(lit ''q'', VInt (- 2))]])]"
proof -
  let ?vs = "[(lit ''n_count'', VInt 1), (lit ''n'', VList [VStruct [(lit ''q'', VInt (- 2))]])]"
  let ?l = "\<lparr>l_record_len = 1,
       l_fields =
         [Field (lit ''n_count'') 0 1 (KBinary Big False) None None None,
          Field (lit ''n'') 1 2 (KGroup [Field (lit ''q'') 0 2 (KBinary Big True) None None None])
            None (Some (lit ''n_count'')) None],
       l_variable = True\<rparr>"
  have "template_parse (lit ''n:C/(q:s)'') = Ok ?l"
    by code_simp
  moreover have "names_distinct ?vs" "conforms_fields c (l_fields ?l) Map.empty ?vs \<noteq> None" for c
    by code_simp+
  ultimately show ?thesis
    using spec_roundtrip [of "lit ''n:C/(q:s)''" ?l "\<lambda>_. None" ?vs _ Ascii] by blast
qed

text \<open>
  C30. Writing a record type and reading it back agree: a record that carries the discriminator
  bytes of a tag at the discriminator position is dispatched to the first variant with that
  tag, in both byte encodings, if the tag fits the discriminator and has no blanks around it.
\<close>

theorem discriminator_selects_variant:
  assumes "position (\<lambda>(t, _). t = tag) (m_variants m) = Some i"
    and "list_all is_scalar tag" "length (utf8 tag) \<le> m_disc_width m" "trim tag = tag"
    and "length before = m_disc_offset m"
  shows "select m (before @ encode_discriminator m tag enc @ after) enc = Ok (i, snd (m_variants m ! i))
    \<and> variant m tag = Some (snd (m_variants m ! i))"
  using assms by (rule select_discriminator)

theorem discriminator_selects_variant_witness:
  "select \<lparr>m_disc_offset = 1, m_disc_width = 3, m_variants = [(lit ''H'', sample_layout), (lit ''D1'', sample_layout)], m_default = None\<rparr>
       ([9] @ encode_discriminator \<lparr>m_disc_offset = 1, m_disc_width = 3, m_variants = [(lit ''H'', sample_layout), (lit ''D1'', sample_layout)],
          m_default = None\<rparr> (lit ''D1'') Ebcdic @ [7]) Ebcdic = Ok (1, sample_layout)"
  using discriminator_selects_variant [of "lit ''D1''"
      "\<lparr>m_disc_offset = 1, m_disc_width = 3, m_variants = [(lit ''H'', sample_layout), (lit ''D1'', sample_layout)], m_default = None\<rparr>" 1 "[9]" Ebcdic "[7]"]
  by (simp add: is_scalar_def utf8_def encode_char_def trim_def trim_start_def trim_end_def trim_start_by_def
      trim_end_by_def is_white_def)

text \<open>
  A multi-record spec that parses has a discriminator of at least one byte, and dispatching
  any record gives one of its variants: a record long enough for the discriminator is refused
  only when no tag matches and no default is declared.
\<close>

theorem multi_select_valid:
  assumes "multi_parse sd src = Ok m"
  shows "0 < m_disc_width m \<and>
    (case select m record enc of
       Inr (i, l) \<Rightarrow> i < length (m_variants m) \<and> l = snd (m_variants m ! i)
     | Inl e \<Rightarrow> length record < m_disc_offset m + m_disc_width m \<or> m_default m = None)"
  using multi_parse_shape [OF assms] by (auto simp: select_def Let_def position_less split: option.splits)

theorem multi_select_valid_witness:
  "\<exists>m. multi_parse \<lparr> sd_spec = \<lambda>_. None,
      sd_multi = \<lambda>_. Some \<lparr> rs_offset = 0, rs_width = 1, rs_records = [(lit ''H'', JvString (lit ''x''))],
        rs_default = Some (lit ''H'') \<rparr> \<rparr> [] = Ok m \<and> (\<exists>l. select m [99] Ascii = Ok (0, l))"
proof -
  let ?sd = "\<lparr> sd_spec = \<lambda>_. None,
      sd_multi = \<lambda>_. Some \<lparr> rs_offset = 0, rs_width = 1, rs_records = [(lit ''H'', JvString (lit ''x''))],
        rs_default = Some (lit ''H'') \<rparr> \<rparr>"
  have "(case multi_parse ?sd [] of
      Inr m \<Rightarrow> m_disc_offset m = 0 \<and> m_disc_width m = 1 \<and> m_default m = Some 0 \<and> length (m_variants m) = 1 | _ \<Rightarrow> False)"
    by code_simp
  then obtain m where "multi_parse ?sd [] = Ok m" "m_disc_offset m = 0" "m_disc_width m = 1" "m_default m = Some 0"
    "length (m_variants m) = 1"
    by (auto split: sum.splits)
  then show ?thesis
    using multi_select_valid [of ?sd "[]" m "[99]" Ascii] by (fastforce split: sum.splits prod.splits)
qed

text \<open>
  The rows that \<open>describe\<close> prints for a template or JSON layout without variable parts
  lie inside the record: the static offset and the width of every row, at any depth, are within
  the record length.
\<close>

theorem describe_rows_in_record:
  assumes "tight (l_fields l) (l_record_len l)" "list_all static_deep (l_fields l)" "r \<in> set (describe l)"
  shows "d_offset r + d_width r \<le> l_record_len l"
proof -
  obtain f where f: "f \<in> set (l_fields l)" "r \<in> set (walk_field f [] 0 0)"
    using assms(3) by (auto simp: describe_def walk_def)
  have "tight_deep f" "static_deep f" "f_offset f + reserved_width f \<le> l_record_len l"
    using assms f(1) contiguous_member [of 0 "l_fields l" "l_record_len l" f] by (auto simp: tight_def list_all_iff)
  moreover have "f_width f \<le> reserved_width f" if "static_deep f"
    using that by (cases f) (auto simp: reserved_width_def split: option.splits)
  ultimately show ?thesis
    using walk_field_in_record [OF _ _ f(2)] by fastforce
qed

theorem describe_rows_in_record_witness:
  "\<exists>r \<in> set (describe \<lparr>l_record_len = 2, l_fields = [Field [65] 0 1 (KGroup [Field [66] 0 1 KBool None None None]) (Some 2) None None],
      l_variable = False\<rparr>). d_path r = [65, 46, 66] \<and> d_offset r + d_width r \<le> 2"
proof -
  let ?l = "\<lparr>l_record_len = 2, l_fields = [Field [65] 0 1 (KGroup [Field [66] 0 1 KBool None None None]) (Some 2) None None],
      l_variable = False\<rparr>"
  have "\<exists>r \<in> set (describe ?l). d_path r = [65, 46, 66]"
    by (simp add: describe_def walk_def describe_one_def is_pad_def join_path_def Let_def)
  then show ?thesis
    using describe_rows_in_record [of ?l] by (fastforce simp: tight_def reserved_width_def)
qed

end
