(* ===== verification/CopybookFacts.thy ===== *)
theory CopybookFacts
  imports Copybook RoundTrip Specs
begin

text \<open>
  What the copybook front end promises: the edit masks of PICTURE clauses are masks that the
  encoder of edited fields can fill; the tree keeps all statements in order with rising level
  numbers; a copybook without \<open>REDEFINES\<close> gives a layout without overlaps whose
  synchronized binary items are aligned.
\<close>

section \<open>Edit masks\<close>

fun mask_grammar :: "rstr \<Rightarrow> bool" where
  "mask_grammar [] = True"
| "mask_grammar (c # cs) =
     (if c = ch CHR ''C'' then (case cs of d # ds \<Rightarrow> d = ch CHR ''R'' \<and> mask_grammar ds | [] \<Rightarrow> False)
      else if c = ch CHR ''D'' then (case cs of d # ds \<Rightarrow> d = ch CHR ''B'' \<and> mask_grammar ds | [] \<Rightarrow> False)
      else c \<in> set (lit ''9Z*,./B0$+-'') \<and> mask_grammar cs)"

lemma mask_grammar_append: "mask_grammar a \<Longrightarrow> mask_grammar b \<Longrightarrow> mask_grammar (a @ b)"
  by (induction a rule: mask_grammar.induct) (auto split: list.splits)

lemma pic_symbol_mask:
  "pic_symbol pic c s = Ok s' \<Longrightarrow> p_text s \<or> mask_grammar (p_mask s) \<Longrightarrow> p_text s' \<or> mask_grammar (p_mask s')"
  by (auto simp: pic_symbol_def push_mask_def count_digit_def mask_grammar_append split: if_splits)

lemma pic_scan_mask:
  "pic_scan pic cs s = Ok s' \<Longrightarrow> p_text s \<or> mask_grammar (p_mask s) \<Longrightarrow> p_text s' \<or> mask_grammar (p_mask s')"
proof (induction pic cs s rule: pic_scan.induct)
  case (2 pic c cs s)
  show ?case
  proof (cases "c = ch CHR ''C'' \<or> c = ch CHR ''D''")
    case True
    then show ?thesis
      using 2 by (auto simp: push_mask_def mask_grammar_append Let_def split: list.splits if_splits)
  next
    case False
    then show ?thesis
      using 2(2) 2(3,4) pic_symbol_mask by auto
  qed
qed simp

lemma parse_pic_mask:
  assumes "parse_pic pic usage sign = Ok (KEdited p s sgnd msk, w)"
  shows "mask_grammar msk \<and> w = length msk"
proof -
  obtain ps where "pic_shape_parse pic = Ok ps" "\<not> s_text ps" "msk = s_mask ps" "w = s_width ps"
    using assms by (auto simp: parse_pic_def Let_def split: if_splits usage.splits)
  then show ?thesis
    using pic_scan_mask [where s = pic_start]
    by (fastforce simp: pic_shape_parse_def Let_def pic_start_def split: if_splits)
qed

lemma edited_char_digit:
  "is_digit_pos c \<Longrightarrow> \<exists>x supp'. edited_char m neg pad c (d # ds) supp = Ok ([x], ds, supp', False)"
  by (cases "supp \<and> d = 48") (auto simp: edited_char_def is_digit_pos_def)

lemma edited_char_insert:
  assumes "c \<in> set (lit '',./B0$+-'')"
  shows "\<exists>x supp'. edited_char m neg pad c ds supp = Ok ([x], ds, supp', False)"
proof -
  consider "c = ch CHR '',''" | "c = ch CHR ''.''" | "c = ch CHR ''/''" | "c = ch CHR ''B''" | "c = ch CHR ''0''"
    | "c = ch CHR ''$''" | "c = ch CHR ''+''" | "c = ch CHR ''-''"
    using assms by auto
  then show ?thesis
    by cases (auto simp: edited_char_def)
qed

lemma edited_char_marker:
  "c = ch CHR ''C'' \<or> c = ch CHR ''D'' \<Longrightarrow>
   \<exists>out. edited_char m neg pad c ds supp = Ok (out, ds, supp, True) \<and> length out = 2"
  by (elim disjE; simp add: edited_char_def)

lemma edited_loop_total:
  "mask_grammar msk \<Longrightarrow> length ds = length (filter is_digit_pos msk) \<Longrightarrow>
   \<exists>out. edited_loop m neg pad msk ds supp = Ok out \<and> length out = length msk"
proof (induction msk arbitrary: ds supp rule: mask_grammar.induct)
  case (2 c cs)
  show ?case
  proof (cases "c = ch CHR ''C'' \<or> c = ch CHR ''D''")
    case True
    then obtain d es where cs: "cs = d # es" "mask_grammar es" "\<not> is_digit_pos d" "\<not> is_digit_pos c"
      using 2(4) by (auto simp: is_digit_pos_def split: list.splits)
    have "\<exists>out. edited_loop m neg pad es ds supp = Ok out \<and> length out = length es"
      using 2(1,2) cs True 2(5) by auto
    then show ?thesis
      using edited_char_marker [OF True, of m neg pad ds supp] by (auto simp: cs(1))
  next
    case False
    then have g: "mask_grammar cs" "c \<in> set (lit ''9Z*,./B0$+-'')"
      using 2(4) by auto
    have IH: "\<exists>out. edited_loop m neg pad cs ds' supp' = Ok out \<and> length out = length cs"
      if "length ds' = length (filter is_digit_pos cs)" for ds' supp'
      using 2(3) False g(1) that by auto
    show ?thesis
    proof (cases "is_digit_pos c")
      case True
      then obtain d ds' where ds: "ds = d # ds'" "length ds' = length (filter is_digit_pos cs)"
        using 2(5) by (cases ds) auto
      obtain x supp' where "edited_char m neg pad c ds supp = Ok ([x], ds', supp', False)"
        using edited_char_digit [OF True] ds(1) by blast
      then show ?thesis
        using IH [OF ds(2), of supp'] by auto
    next
      case nodigit: False
      then have "c \<in> set (lit '',./B0$+-'')"
        using g(2) by (auto simp: is_digit_pos_def)
      then obtain x supp' where "edited_char m neg pad c ds supp = Ok ([x], ds, supp', False)"
        using edited_char_insert by blast
      then show ?thesis
        using IH [of ds supp'] 2(5) nodigit by auto
    qed
  qed
qed simp

section \<open>The tree\<close>

fun preorder :: "raw \<Rightarrow> raw list" where
  "preorder (Raw lvl nm pc us oc dep red sg sy cs) =
     Raw lvl nm pc us oc dep red sg sy [] # concat (map preorder cs)"

text \<open>
  The nesting that level numbers mean: an item lies in the group above it exactly when its level
  is higher, so items have higher levels than their group, and no item has a higher level than a
  sibling before it.
\<close>

definition falling :: "raw list \<Rightarrow> bool" where
  "falling nodes \<longleftrightarrow> sorted_wrt (\<lambda>a b. b \<le> a) (map r_level nodes)"

fun nested :: "raw \<Rightarrow> bool" where
  "nested (Raw lvl nm pc us oc dep red sg sy cs) = (list_all (\<lambda>c. lvl < r_level c \<and> nested c) cs \<and> falling cs)"

definition level_forest :: "raw list \<Rightarrow> bool" where
  "level_forest nodes \<longleftrightarrow> list_all nested nodes \<and> falling nodes"

text \<open>The pairs of level and index, outermost first, lead to the last node at every depth, down to an item without members.\<close>

fun on_spine :: "raw list \<Rightarrow> (nat \<times> nat) list \<Rightarrow> bool" where
  "on_spine nodes [] = (nodes = [])"
| "on_spine nodes ((lvl, i) # path) =
     (nodes \<noteq> [] \<and> i = length nodes - 1 \<and> r_level (last nodes) = lvl \<and> on_spine (r_children (last nodes)) path)"

lemma pop_levels_suffix: "\<exists>q. stack = q @ pop_levels lvl stack \<and> list_all (\<lambda>p. lvl \<le> fst p) q"
proof (induction lvl stack rule: pop_levels.induct)
  case (2 level lvl i rest)
  show ?case
  proof (cases "level \<le> lvl")
    case True
    then obtain q where "rest = q @ pop_levels level rest" "list_all (\<lambda>p. level \<le> fst p) q"
      using 2 by auto
    then show ?thesis
      using True by (intro exI [of _ "(lvl, i) # q"]) simp
  qed simp
qed simp

lemma pop_levels_head: "pop_levels lvl stack = (l, i) # rest \<Longrightarrow> l < lvl"
  by (induction lvl stack rule: pop_levels.induct) (auto split: if_splits)

lemma preorder_ne [simp]: "preorder n \<noteq> []"
  by (cases n) simp

lemma preorder_raw: "preorder n = preorder (Raw (r_level n) (r_name n) (r_pic n) (r_usage n) (r_occurs n)
    (r_depending_on n) (r_redefines n) (r_sign n) (r_synchronized n) []) @ concat (map preorder (r_children n))"
  by (cases n) simp

lemma falling_snoc:
  assumes "falling nodes" "on_spine nodes q" "list_all (\<lambda>p. r_level s \<le> fst p) q"
  shows "falling (nodes @ [s])"
proof (cases nodes rule: rev_cases)
  case (snoc front n)
  then have "r_level s \<le> r_level n"
    using assms(2,3) by (cases q) auto
  then show ?thesis
    using assms(1) by (auto simp: snoc falling_def sorted_wrt_append)
qed (simp add: falling_def)

lemma push_child_spine:
  assumes "path \<noteq> []" "on_spine nodes (path @ q)" "push_child nodes (map snd path) s = (nodes', idx)"
    "r_children s = []" "list_all nested nodes" "fst (last path) < r_level s" "list_all (\<lambda>p. r_level s \<le> fst p) q"
  shows "concat (map preorder nodes') = concat (map preorder nodes) @ preorder s
    \<and> on_spine nodes' (path @ [(r_level s, idx)]) \<and> list_all nested nodes'
    \<and> map r_level nodes' = map r_level nodes"
  using assms
proof (induction nodes "map snd path" s arbitrary: path nodes' idx rule: push_child.induct)
  case (2 nodes i ip s)
  obtain lvl path' where path: "path = (lvl, i) # path'" "ip = map snd path'"
    using 2(2) by (cases path) auto
  obtain front n where nodes: "nodes = front @ [n]" "i = length front" "r_level n = lvl" "on_spine (r_children n) (path' @ q)"
    using 2(4) by (cases nodes rule: rev_cases) (auto simp: path)
  obtain lv nm pc us oc dep red sg sy cs where n: "n = Raw lv nm pc us oc dep red sg sy cs"
    by (cases n)
  have lv: "lv = lvl"
    using nodes(3) n by simp
  have rs: "list_all nested front" "list_all (\<lambda>c. lv < r_level c \<and> nested c) cs" "falling cs"
    using 2(7) by (auto simp: nodes n)
  show ?case
  proof (cases "path' = []")
    case True
    then have "falling (cs @ [s])"
      using falling_snoc [OF rs(3) _ 2(9)] nodes(4) n by simp
    then show ?thesis
      using True 2(5-8) rs nodes(3) n by (cases s) (auto simp: path nodes(1,2) Let_def falling_def)
  next
    case False
    have n': "nodes ! i = n" "r_children n = cs"
      by (simp_all add: nodes n)
    obtain cs' where pc: "push_child cs (map snd path') s = (cs', idx)"
      "nodes' = front @ [Raw lv nm pc us oc dep red sg sy cs']"
      using 2(5) False n' by (auto simp: path nodes n Let_def split: prod.splits)
    have "list_all nested cs"
      using rs(2) by (auto simp: list_all_iff)
    then have IH: "concat (map preorder cs') = concat (map preorder cs) @ preorder s
        \<and> on_spine cs' (path' @ [(r_level s, idx)]) \<and> list_all nested cs' \<and> map r_level cs' = map r_level cs"
      using 2(1) [of n path' cs' idx] False nodes(4) pc(1) 2(6,8,9) n' by (simp add: path)
    have "list_all (\<lambda>l. lv < l) (map r_level cs)"
      using rs(2) by (auto simp: list_all_iff)
    then have "list_all (\<lambda>l. lv < l) (map r_level cs')"
      using IH by (simp only:)
    then have "list_all (\<lambda>c. lv < r_level c) cs'"
      by (simp add: list_all_iff)
    moreover have "falling cs'"
      using rs(3) IH by (simp add: falling_def)
    ultimately have "nested (Raw lv nm pc us oc dep red sg sy cs')"
      using IH by (auto simp: list_all_iff)
    then show ?thesis
      using IH rs(1) lv by (simp add: path nodes n pc(2) del: nested.simps)
  qed
qed simp

lemma build_loop_spine:
  "on_spine roots (rev stack) \<Longrightarrow> level_forest roots \<Longrightarrow> \<forall>s \<in> set stmts. r_children s = [] \<Longrightarrow>
   concat (map preorder (build_loop roots stack stmts)) = concat (map preorder roots) @ stmts
   \<and> level_forest (build_loop roots stack stmts)"
proof (induction roots stack stmts rule: build_loop.induct)
  case (2 roots stack stmt stmts)
  let ?stack = "pop_levels (r_level stmt) stack"
  obtain q where q: "stack = q @ ?stack" "list_all (\<lambda>p. r_level stmt \<le> fst p) (rev q)"
    using pop_levels_suffix [of stack "r_level stmt"] by (auto simp: list_all_iff)
  have spine: "on_spine roots (rev ?stack @ rev q)"
    using 2(3) arg_cong [OF q(1), of rev] by simp
  have leaf: "preorder stmt = [stmt]" "nested stmt" "r_children stmt = []"
    using 2(5) by (cases stmt; simp add: falling_def)+
  have roots: "list_all nested roots" "falling roots"
    using 2(4) by (simp_all add: level_forest_def)
  show ?case
  proof (cases "?stack = []")
    case True
    have "on_spine (roots @ [stmt]) (rev [(r_level stmt, length roots)])" "level_forest (roots @ [stmt])"
      using leaf roots falling_snoc [OF roots(2) _ q(2)] spine True by (simp_all add: level_forest_def)
    then show ?thesis
      using 2(1) [OF refl True] 2(5) True leaf(1) by simp
  next
    case False
    obtain nodes' idx where pc: "push_child roots (rev (map snd ?stack)) stmt = (nodes', idx)"
      by (cases "push_child roots (rev (map snd ?stack)) stmt")
    obtain l i rest where top: "?stack = (l, i) # rest"
      using False by (metis list.exhaust surj_pair)
    have "fst (last (rev ?stack)) < r_level stmt"
      using pop_levels_head [OF top] by (simp add: top)
    then have r: "concat (map preorder nodes') = concat (map preorder roots) @ preorder stmt
        \<and> on_spine nodes' (rev ?stack @ [(r_level stmt, idx)]) \<and> list_all nested nodes' \<and> map r_level nodes' = map r_level roots"
      using push_child_spine [of "rev ?stack" roots "rev q" stmt nodes' idx] False spine pc leaf(3) roots(1) q(2)
      by (simp add: rev_map)
    then have "level_forest nodes'"
      using roots(2) by (simp add: level_forest_def falling_def)
    then show ?thesis
      using r 2(2) [OF refl False pc [symmetric]] False pc 2(5) leaf(1) by (simp add: Let_def)
  qed
qed simp

lemma build_tree_spine:
  "\<forall>s \<in> set stmts. r_children s = [] \<Longrightarrow>
   concat (map preorder (build_tree stmts)) = stmts \<and> level_forest (build_tree stmts)"
  using build_loop_spine [of "[]" "[]" stmts] by (simp add: build_tree_def level_forest_def falling_def)

text \<open>Statements nest in one way only.\<close>

lemma nested_levels: "nested n \<Longrightarrow> s \<in> set (preorder n) \<Longrightarrow> r_level n \<le> r_level s"
proof (induction n rule: nested.induct)
  case (1 lvl nm pc us oc dep red sg sy cs)
  then show ?case
    by (fastforce simp: list_all_iff)
qed

lemma members_above:
  assumes "nested n" "s \<in> set (concat (map preorder (r_children n)))"
  shows "r_level n < r_level s"
proof -
  obtain c where c: "c \<in> set (r_children n)" "s \<in> set (preorder c)"
    using assms(2) by auto
  then have "r_level n < r_level c" "nested c"
    using assms(1) by (cases n; auto simp: list_all_iff)+
  then show ?thesis
    using nested_levels [of c s] c(2) by simp
qed

lemma span_append:
  assumes "\<forall>x \<in> set xs. P x" "ys = [] \<or> \<not> P (hd ys)"
  shows "takeWhile P (xs @ ys) = xs \<and> dropWhile P (xs @ ys) = ys"
  using assms by (induction xs) (cases ys; simp)+

lemma forest_split:
  assumes "level_forest (n # ns)"
  shows "concat (map preorder (r_children n)) = takeWhile (\<lambda>s. r_level n < r_level s) (tl (concat (map preorder (n # ns))))"
    "concat (map preorder ns) = dropWhile (\<lambda>s. r_level n < r_level s) (tl (concat (map preorder (n # ns))))"
    "level_forest (r_children n)" "level_forest ns"
proof -
  have n: "nested n" "list_all nested ns" "falling (n # ns)"
    using assms by (simp_all add: level_forest_def)
  have t: "tl (concat (map preorder (n # ns))) = concat (map preorder (r_children n)) @ concat (map preorder ns)"
    by (cases n) simp
  have above: "\<forall>s \<in> set (concat (map preorder (r_children n))). r_level n < r_level s"
    using members_above [OF n(1)] by blast
  have hd: "concat (map preorder ns) = [] \<or> \<not> r_level n < r_level (hd (concat (map preorder ns)))"
  proof (cases ns)
    case (Cons m ms)
    then show ?thesis
      using n(3) by (cases m) (simp add: falling_def not_less)
  qed simp
  show "concat (map preorder (r_children n)) = takeWhile (\<lambda>s. r_level n < r_level s) (tl (concat (map preorder (n # ns))))"
    "concat (map preorder ns) = dropWhile (\<lambda>s. r_level n < r_level s) (tl (concat (map preorder (n # ns))))"
    unfolding t using span_append [OF above hd] by simp_all
  show "level_forest (r_children n)" "level_forest ns"
    using n by (cases n; auto simp: level_forest_def list_all_iff falling_def)+
qed

lemma forest_unique:
  "level_forest fs \<Longrightarrow> level_forest gs \<Longrightarrow> concat (map preorder fs) = concat (map preorder gs) \<Longrightarrow> fs = gs"
proof (induction "length (concat (map preorder fs))" arbitrary: fs gs rule: less_induct)
  case less
  show ?case
  proof (cases fs)
    case Nil
    then show ?thesis
      using less.prems(3) by (cases gs; cases "hd gs") auto
  next
    case (Cons f fs')
    then obtain g gs' where gs: "gs = g # gs'"
      using less.prems(3) by (cases gs; cases f) auto
    have "hd (concat (map preorder fs)) = hd (preorder f)" "hd (concat (map preorder gs)) = hd (preorder g)"
      by (simp_all add: Cons gs)
    then have hd: "hd (preorder f) = hd (preorder g)"
      using less.prems(3) by simp
    then have lvl: "r_level f = r_level g"
      by (cases f; cases g) simp
    note ff = forest_split [OF less.prems(1) [unfolded Cons]] and gg = forest_split [OF less.prems(2) [unfolded gs]]
    have parts: "concat (map preorder (r_children f)) = concat (map preorder (r_children g))"
      "concat (map preorder fs') = concat (map preorder gs')"
      unfolding ff(1,2) gg(1,2) less.prems(3) [unfolded Cons gs] lvl by (rule refl)+
    have len: "length (concat (map preorder (r_children f))) < length (concat (map preorder fs))"
      "length (concat (map preorder fs')) < length (concat (map preorder fs))"
      by (cases f; simp add: Cons)+
    have "r_children f = r_children g" "fs' = gs'"
      using less.hyps [OF len(1) ff(3) gg(3) parts(1)] less.hyps [OF len(2) ff(4) gg(4) parts(2)] by blast+
    then show ?thesis
      using hd by (cases f; cases g) (simp add: Cons gs)
  qed
qed

lemma parse_stmts_leaves: "parse_stmts ts = Ok stmts \<Longrightarrow> s \<in> set stmts \<Longrightarrow> r_children s = []"
  by (induction ts arbitrary: stmts) (auto simp: parse_stmt_def split: if_splits option.splits)

section \<open>Offsets\<close>

fun no_redefines :: "raw \<Rightarrow> bool" where
  "no_redefines (Raw lvl nm pc us oc dep red sg sy cs) = (red = None \<and> list_all no_redefines cs)"

lemma no_redefines_preorder: "(\<forall>s \<in> set (preorder r). r_redefines s = None) \<Longrightarrow> no_redefines r"
  by (induction r rule: no_redefines.induct) (auto simp: list_all_iff)

lemma no_redefines_sel: "no_redefines r \<longleftrightarrow> r_redefines r = None \<and> list_all no_redefines (r_children r)"
  by (cases r) simp

lemma fold_loop_plain: "list_all (\<lambda>f. f_redefines f = None) fs \<Longrightarrow> fold_loop out base_idx fs = out @ fs"
  by (induction fs arbitrary: out base_idx) auto

text \<open>
  A field starts where \<open>SYNCHRONIZED\<close> asks for, counted from the start of the list of its siblings, and
  so do its members at all depths, counted from the start of their group.
\<close>

definition aligned :: "raw \<Rightarrow> field \<Rightarrow> bool" where
  "aligned node f \<longleftrightarrow>
     (r_synchronized node \<and> (case f_kind f of KBinary _ _ \<Rightarrow> True | _ \<Rightarrow> False) \<longrightarrow> f_offset f mod f_width f = 0)"

fun aligned_deep :: "raw \<Rightarrow> field \<Rightarrow> bool" where
  "aligned_deep (Raw lvl nm pc us oc dep red sg sy cs) f =
     (aligned (Raw lvl nm pc us oc dep red sg sy cs) f \<and>
      (case f_kind f of KGroup fs \<Rightarrow> list_all2 aligned_deep cs fs | _ \<Rightarrow> cs = []))"

lemma aligned_deep_sel:
  "aligned_deep node f \<longleftrightarrow>
     aligned node f \<and> (case f_kind f of KGroup fs \<Rightarrow> list_all2 aligned_deep (r_children node) fs | _ \<Rightarrow> r_children node = [])"
  by (cases node) (simp split: field_kind.split)

lemma align_mod: "0 < w \<Longrightarrow> (c + (w - c mod w) mod w) mod w = (0 :: nat)"
proof -
  assume w: "0 < w"
  have "(c + (w - c mod w) mod w) mod w = (c mod w + (w - c mod w)) mod w"
    by (simp add: mod_simps)
  also have "c mod w + (w - c mod w) = w"
    using w by simp
  finally show ?thesis
    by simp
qed

lemma elementary_kind:
  "elementary node = Ok (kind, width) \<Longrightarrow>
   (\<forall>cs. kind \<noteq> KGroup cs) \<and> ((case kind of KBinary _ _ \<Rightarrow> True | _ \<Rightarrow> False) \<longrightarrow> width \<in> {2, 4, 8})"
  by (auto simp: elementary_def parse_pic_def Let_def comp_width_def split: if_splits usage.splits)

lemma sync_align_ge: "c \<le> sync_align node kind w c"
  by (simp add: sync_align_def)

lemma sync_align_aligned:
  "r_synchronized node \<Longrightarrow> r_redefines node = None \<Longrightarrow> (case kind of KBinary _ _ \<Rightarrow> True | _ \<Rightarrow> False) \<Longrightarrow> 0 < w \<Longrightarrow>
   sync_align node kind w c mod w = 0"
  by (simp add: sync_align_def align_mod)

definition good_fields :: "raw list \<Rightarrow> field list \<Rightarrow> nat \<Rightarrow> bool" where
  "good_fields nodes fs depth \<longleftrightarrow>
     list_all apart_deep fs \<and> list_all (\<lambda>f. f_redefines f = None) fs \<and> list_all2 aligned_deep nodes fs
     \<and> depth + max_of (map field_depth fs) \<le> MAX_NESTING_DEPTH"

lemma layout_nodes_good:
  "layout_nodes nodes depth = Ok (fs, w) \<Longrightarrow> list_all no_redefines nodes \<Longrightarrow> apart 0 fs \<and> good_fields nodes fs depth"
  "depth \<le> MAX_NESTING_DEPTH \<Longrightarrow> layout_loop nodes depth name_off cursor fin = Ok (fs, w) \<Longrightarrow> list_all no_redefines nodes \<Longrightarrow>
   apart cursor fs \<and> good_fields nodes fs depth"
proof (induction nodes depth and nodes depth name_off cursor fin arbitrary: fs w and fs w
    rule: layout_nodes_layout_loop.induct)
  case (1 nodes depth)
  then obtain gs where "layout_loop nodes depth Map.empty 0 0 = Ok (gs, w)" "fs = fold_redefines gs" "depth \<le> MAX_NESTING_DEPTH"
    by (auto split: if_splits)
  then show ?case
    using 1 by (auto simp: fold_redefines_def good_fields_def fold_loop_plain)
next
  case (3 node nodes depth name_off cursor fin)
  have red: "r_redefines node = None" "list_all no_redefines (r_children node)" "list_all no_redefines nodes"
    using 3(5) no_redefines_sel [of node] by simp_all
  obtain kind width where kw: "(if r_children node = [] then elementary node
      else rmap_value (\<lambda>(children, gw). (KGroup children, gw)) (layout_nodes (r_children node) (depth + 1))) = Ok (kind, width)"
    using 3(4) by (auto simp del: layout_nodes.simps)
  let ?c = "sync_align node kind width cursor"
  let ?f = "Field (r_name node) ?c width kind (r_occurs node) (r_depending_on node) (r_redefines node)"
  let ?res = "if r_depending_on node \<noteq> None then 0 else width * (case r_occurs node of None \<Rightarrow> 1 | Some n \<Rightarrow> n)"
  have res: "?res = reserved_width ?f"
    by (simp add: reserved_width_def)
  obtain fs' where rest: "layout_loop nodes depth (name_off(to_ascii_uppercase (r_name node) \<mapsto> ?c))
      (?c + ?res) (max fin (?c + ?res)) = Ok (fs', w)" "fs = ?f # fs'"
    using 3(4) unfolding layout_loop.simps kw rbind_Inr prod.case Let_def red(1) option.case
    by (auto simp: red(1))
  have "apart (if r_redefines node = None then ?c + ?res else ?c) fs' \<and> good_fields nodes fs' depth"
    by (rule 3(2) [OF kw refl refl _ refl refl refl refl 3(3) _ red(3), where w = w])
      (use red(1) rest(1) in \<open>simp_all add: fun_upd_def split del: if_split\<close>)
  then have "apart (?c + ?res) fs' \<and> good_fields nodes fs' depth"
    using red(1) by (simp split del: if_split)
  moreover have "apart_deep ?f \<and> depth + field_depth ?f \<le> MAX_NESTING_DEPTH \<and> aligned_deep node ?f"
  proof (cases "r_children node = []")
    case True
    then have k: "(\<forall>cs. kind \<noteq> KGroup cs) \<and> ((case kind of KBinary _ _ \<Rightarrow> True | _ \<Rightarrow> False) \<longrightarrow> width \<in> {2, 4, 8})"
      using kw by (intro elementary_kind) simp
    then have "aligned node ?f"
      using red(1) sync_align_aligned [of node kind width cursor] by (auto simp: aligned_def)
    then have "aligned_deep node ?f"
      using k True by (cases kind) (simp_all add: aligned_deep_sel)
    then show ?thesis
      using k 3(3) by (cases kind) auto
  next
    case False
    obtain cs where cs: "kind = KGroup cs" "layout_nodes (r_children node) (depth + 1) = Ok (cs, width)"
      using kw False by (auto simp del: layout_nodes.simps)
    have "apart 0 cs \<and> good_fields (r_children node) cs (depth + 1)"
      using 3(1) [OF False cs(2) red(2)] .
    then show ?thesis
      by (simp add: cs(1) good_fields_def aligned_deep_sel [of node] aligned_def)
  qed
  ultimately show ?case
    using sync_align_ge [of cursor node kind width] red(1) unfolding res
    by (simp add: rest(2) good_fields_def max_def del: apart_deep.simps field_depth.simps aligned_deep.simps)
qed (simp add: good_fields_def)

declare layout_nodes.simps [simp del]

lemma copybook_layout:
  assumes "copybook_parse src = Ok l" "copybook_tokenize src = Ok stmts" "\<forall>s \<in> set stmts. r_redefines s = None"
  shows "layout_apart (l_fields l) \<and> max_of (map field_depth (l_fields l)) \<le> MAX_NESTING_DEPTH"
proof -
  let ?roots = "build_tree stmts"
  let ?nodes = "case ?roots of [r] \<Rightarrow> if r_children r \<noteq> [] then r_children r else ?roots | _ \<Rightarrow> ?roots"
  have "\<forall>s \<in> set stmts. r_children s = []"
    using assms(2) parse_stmts_leaves by (auto simp: copybook_tokenize_def)
  then have "concat (map preorder ?roots) = stmts"
    using build_tree_spine by blast
  then have "set (concat (map preorder ?roots)) = set stmts"
    by (rule arg_cong)
  then have "(\<Union>r \<in> set ?roots. set (preorder r)) = set stmts"
    by simp
  then have "\<forall>r \<in> set ?roots. \<forall>s \<in> set (preorder r). r_redefines s = None"
    using assms(3) by blast
  then have "list_all no_redefines ?roots"
    using no_redefines_preorder by (auto simp: list_all_iff)
  moreover have "list_all no_redefines (r_children r)" if "no_redefines r" for r
    using that no_redefines_sel [of r] by blast
  ultimately have nr: "list_all no_redefines ?nodes"
    by (auto split: list.split)
  obtain w where nodes: "layout_nodes ?nodes 0 = Ok (l_fields l, w)"
    using assms(1,2) by (auto simp: copybook_parse_def from_fields_def Let_def)
  show ?thesis
    using layout_nodes_good(1) [OF nodes nr] by (auto simp: layout_apart_def good_fields_def)
qed

section \<open>Properties\<close>

text \<open>
  Whatever edited PICTURE the parser accepts, encoding any number with its mask either
  fills the declared width exactly, or is refused because the mask floats a sign or currency
  symbol or the number has too many digits: no mask symbol is unknown to the encoder and the
  encoder never runs out of digits.
\<close>

theorem pic_masks_encode:
  assumes "parse_pic pic usage sign = Ok (KEdited p s sgnd msk, w)"
  shows "case edited_encode v msk of
      Inr bs \<Rightarrow> length bs = w
    | Inl e \<Rightarrow> e = EditedFloating msk \<or> (\<exists>k. e = EditedNoFit v k msk)"
proof -
  have m: "mask_grammar msk" "w = length msk"
    using parse_pic_mask [OF assms] by auto
  let ?n = "length (filter is_digit_pos msk)" and ?mag = "nat_str (nat \<bar>v\<bar>)"
  let ?pad = "if ch CHR ''*'' \<in> set msk then ch CHR ''*'' else ch CHR '' ''"
  show ?thesis
  proof (cases "(floating msk (ch CHR ''$'') \<or> floating msk (ch CHR ''+'') \<or> floating msk (ch CHR ''-'')) \<or> ?n < length ?mag")
    case False
    then have "\<exists>out. edited_loop msk (v < 0) ?pad msk (replicate (?n - length ?mag) (ch CHR ''0'') @ ?mag) True = Ok out
        \<and> length out = length msk"
      by (intro edited_loop_total m) simp
    then show ?thesis
      using False m(2) by (auto simp: edited_encode_def Let_def)
  qed (auto simp: edited_encode_def Let_def)
qed

theorem pic_masks_encode_witness:
  "\<exists>msk w bs. parse_pic (lit ''Z(3)9.99CR'') UDisplay None = Ok (KEdited 6 2 True msk, w)
     \<and> edited_encode (- 1234) msk = Ok bs \<and> length bs = w"
proof -
  have p: "parse_pic (lit ''Z(3)9.99CR'') UDisplay None = Ok (KEdited 6 2 True (lit ''ZZZ9.99CR''), 9)"
    by code_simp
  have "\<exists>bs. edited_encode (- 1234) (lit ''ZZZ9.99CR'') = Ok bs"
    by (simp add: edited_encode_def floating_def is_digit_pos_def edited_char_def nat_str.simps)
  then show ?thesis
    using p pic_masks_encode [OF p, of "- 1234"] by auto
qed

text \<open>
  C19. The level tree nests the statements as their level numbers say, and is the only one that
  does: in preorder it is the list of statements of the copybook, none lost and none moved; every
  item has a higher level than the group that contains it and no higher level than a sibling before
  it; and every tree with these properties is the one that is built.
\<close>

theorem copybook_tree_keeps_statements:
  assumes "copybook_tokenize src = Ok stmts"
  shows "concat (map preorder (build_tree stmts)) = stmts \<and> level_forest (build_tree stmts)
    \<and> (\<forall>forest. concat (map preorder forest) = stmts \<and> level_forest forest \<longrightarrow> forest = build_tree stmts)"
proof -
  have "concat (map preorder (build_tree stmts)) = stmts \<and> level_forest (build_tree stmts)"
    using assms parse_stmts_leaves by (intro build_tree_spine) (auto simp: copybook_tokenize_def)
  then show ?thesis
    using forest_unique by metis
qed

definition sample_copybook :: rstr where
  "sample_copybook = lit ''01 R. 05 A PIC X. 05 G. 10 N PIC S9(8) COMP SYNC.''"

theorem copybook_tree_keeps_statements_witness:
  "\<exists>stmts. copybook_tokenize sample_copybook = Ok stmts \<and> length stmts = 4
     \<and> concat (map preorder (build_tree stmts)) = stmts \<and> level_forest (build_tree stmts)"
proof -
  have "(case copybook_tokenize sample_copybook of Inr stmts \<Rightarrow> length stmts = 4 | _ \<Rightarrow> False)"
    by code_simp
  then show ?thesis
    using copybook_tree_keeps_statements [of sample_copybook] by (auto split: sum.splits)
qed

text \<open>
  C20. In the layout of items without \<open>REDEFINES\<close>, no two items overlap, at any depth, and every
  synchronized binary item starts at a multiple of its width, counted from the start of its own
  sibling list: of the record for the items of the record, and of the group for the members of a
  group. Members of a group are not aligned in the record when the group is not.
\<close>

theorem layout_nodes_apart_aligned:
  assumes "layout_nodes nodes depth = Ok (fs, w)" "list_all no_redefines nodes"
  shows "layout_apart fs \<and> list_all2 aligned_deep nodes fs"
  using layout_nodes_good(1) [OF assms] by (auto simp: layout_apart_def good_fields_def)

theorem layout_nodes_apart_aligned_witness:
  "\<exists>f g h w. layout_nodes [Raw 5 [65] (Some [88]) UDisplay None None None None False [],
       Raw 5 [71] None UDisplay None None None None False
         [Raw 10 [66] (Some [88]) UDisplay None None None None False [],
          Raw 10 [67] (Some [57]) UComp None None None None True []]] 0 = Ok ([f, g], w)
     \<and> f_offset g = 1 \<and> f_kind g = KGroup [h, Field [67] 2 2 (KBinary Big False) None None None]
     \<and> aligned (Raw 10 [67] (Some [57]) UComp None None None None True []) (Field [67] 2 2 (KBinary Big False) None None None)"
proof -
  let ?nodes = "[Raw 5 [65] (Some [88]) UDisplay None None None None False [],
       Raw 5 [71] None UDisplay None None None None False
         [Raw 10 [66] (Some [88]) UDisplay None None None None False [],
          Raw 10 [67] (Some [57]) UComp None None None None True []]]"
  have "(case layout_nodes ?nodes 0 of
      Inr ([f, g], w) \<Rightarrow> f_offset g = 1
        \<and> (case f_kind g of KGroup hs \<Rightarrow> length hs = 2 \<and> hs ! 1 = Field [67] 2 2 (KBinary Big False) None None None | _ \<Rightarrow> False)
    | _ \<Rightarrow> False)"
    by code_simp
  then obtain f g hs w where run: "layout_nodes ?nodes 0 = Ok ([f, g], w)" "f_offset g = 1"
    "f_kind g = KGroup hs" "length hs = 2" "hs ! 1 = Field [67] 2 2 (KBinary Big False) None None None"
    by (auto split: sum.splits prod.splits list.splits field_kind.splits)
  then obtain h where hs: "hs = [h, Field [67] 2 2 (KBinary Big False) None None None]"
    by (cases hs; cases "tl hs") auto
  have "list_all2 aligned_deep ?nodes [f, g]"
    using run(1) by (intro conjunct2 [OF layout_nodes_apart_aligned [of ?nodes 0 _ w]]) simp_all
  then show ?thesis
    using run(1-3) by (simp add: hs)
qed

text \<open>
  From the start of the record the alignment does not hold: the item \<open>N\<close> of this copybook is
  synchronized, and is at offset 1.
\<close>

theorem sync_not_from_record:
  "(case copybook_parse sample_copybook of
      Inr l \<Rightarrow> (case l_fields l of
          [a, g] \<Rightarrow> f_offset g = 1 \<and> f_kind g = KGroup [Field (lit ''N'') 0 4 (KBinary Big True) None None None]
        | _ \<Rightarrow> False)
    | Inl e \<Rightarrow> False)"
  by code_simp

text \<open>
  C6. Records of a copybook without \<open>REDEFINES\<close> round-trip, slack bytes of synchronized
  items and \<open>OCCURS DEPENDING ON\<close> tables included.
\<close>

theorem copybook_roundtrip:
  assumes "copybook_parse src = Ok l" "copybook_tokenize src = Ok stmts" "\<forall>s \<in> set stmts. r_redefines s = None"
    and "names_distinct vs" "conforms_fields c (l_fields l) Map.empty vs \<noteq> None"
  shows "\<exists>bs. encode_record c l vs enc = Ok bs \<and> decode_record c l bs enc = Ok vs"
  using encode_decode_record [of c l vs enc] copybook_layout [OF assms(1-3)] assms(4,5)
  by (auto simp: conforms_record_def)

theorem copybook_roundtrip_witness:
  "\<exists>c l bs. copybook_parse sample_copybook = Ok l \<and>
     encode_record c l [(lit ''A'', VText (lit ''x'')), (lit ''G'', VStruct [(lit ''N'', VInt (- 7))])] Ebcdic = Ok bs \<and>
     decode_record c l bs Ebcdic = Ok [(lit ''A'', VText (lit ''x'')), (lit ''G'', VStruct [(lit ''N'', VInt (- 7))])]"
proof -
  let ?vs = "[(lit ''A'', VText (lit ''x'')), (lit ''G'', VStruct [(lit ''N'', VInt (- 7))])]"
  let ?l = "\<lparr>l_record_len = 5,
       l_fields =
         [Field (lit ''A'') 0 1 (KText JLeft True 32) None None None,
          Field (lit ''G'') 1 4 (KGroup [Field (lit ''N'') 0 4 (KBinary Big True) None None None]) None None None],
       l_variable = False\<rparr>"
  have "copybook_parse sample_copybook = Ok ?l"
    by code_simp
  moreover have "(case copybook_tokenize sample_copybook of Inr stmts \<Rightarrow> list_all (\<lambda>s. r_redefines s = None) stmts | _ \<Rightarrow> False)"
    by code_simp
  moreover have "names_distinct ?vs" "conforms_fields c (l_fields ?l) Map.empty ?vs \<noteq> None" for c
    by code_simp+
  ultimately show ?thesis
    using copybook_roundtrip [of sample_copybook ?l _ ?vs _ Ebcdic]
    by (auto simp: list_all_iff split: sum.splits)
qed

text \<open>
  Folding a redefining item into its base gives one group with the name, the offset and
  the combined width of both, whose members are the base and the redefining item.
\<close>

theorem redefines_makes_union:
  assumes "f_redefines f = None" "\<not> is_synthetic_union f"
    and "f_redefines g = Some t" "to_ascii_uppercase t = to_ascii_uppercase (f_name f)"
  shows "fold_redefines [f, g] =
    [Field (f_name f) (f_offset f) (max (total_width f) (total_width g))
       (KGroup [rebase f (f_offset f), rebase g (f_offset f)]) None None None]"
  using assms
  by (auto simp: fold_redefines_def extend_union_def Let_def rebase_def total_width_def split: field_kind.split)

theorem redefines_makes_union_witness:
  "fold_redefines [Field [65] 3 2 KBool None None None, Field [66] 3 4 (KPad 0) None None (Some [97])] =
    [Field [65] 3 4 (KGroup [Field [65] 0 2 KBool None None None, Field [66] 0 4 (KPad 0) None None None]) None None None]"
  using redefines_makes_union [of "Field [65] 3 2 KBool None None None" "Field [66] 3 4 (KPad 0) None None (Some [97])" "[97]"]
  by (simp add: is_synthetic_union_def rebase_def usize_sub_def total_width_def to_ascii_uppercase_def upper_char_def
      is_ascii_lower_def)

text \<open>
  A group of the copybook that has an item of its own name is taken for a union made by an
  earlier \<open>REDEFINES\<close>: redefining it dissolves the group, its items become siblings of the
  redefining item, and its \<open>OCCURS\<close> is lost.
\<close>

theorem redefines_dissolves_homonym_group:
  assumes "f_kind f = KGroup cs" "c \<in> set cs" "f_name c = f_name f" "f_redefines f = None"
    and "f_redefines g = Some t" "to_ascii_uppercase t = to_ascii_uppercase (f_name f)"
  shows "fold_redefines [f, g] =
    [Field (f_name f) (f_offset f) (max_of (map total_width (cs @ [rebase g (f_offset f)])))
       (KGroup (cs @ [rebase g (f_offset f)])) None None None]"
proof -
  have "is_synthetic_union f"
    using assms(1-3) by (auto simp: is_synthetic_union_def list_ex_iff)
  then show ?thesis
    using assms by (simp add: fold_redefines_def extend_union_def Let_def)
qed

theorem redefines_dissolves_homonym_group_witness:
  "fold_redefines [Field [65] 0 4 (KGroup [Field [65] 0 1 KBool None None None, Field [66] 1 1 KBool None None None]) (Some 2) None None,
      Field [67] 0 4 (KPad 0) None None (Some [65])] =
    [Field [65] 0 4 (KGroup [Field [65] 0 1 KBool None None None, Field [66] 1 1 KBool None None None,
        Field [67] 0 4 (KPad 0) None None None]) None None None]"
  using redefines_dissolves_homonym_group
    [of "Field [65] 0 4 (KGroup [Field [65] 0 1 KBool None None None, Field [66] 1 1 KBool None None None]) (Some 2) None None"
      "[Field [65] 0 1 KBool None None None, Field [66] 1 1 KBool None None None]" "Field [65] 0 1 KBool None None None"
      "Field [67] 0 4 (KPad 0) None None (Some [65])" "[65]"]
  by (simp add: rebase_def usize_sub_def total_width_def)

end
