(* ===== verification/Framing.thy ===== *)
theory Framing
  imports RustStr
begin

text \<open>
  Record framing: splitting a byte stream into records (\<open>framing.rs\<close>) and assembling one from
  records (\<open>assemble\<close> of the worker's \<open>record_writer.rs\<close>). The locale \<open>record_framing\<close>
  states the contract between a writer and a reader of the same mode; each mode is an
  interpretation, with the exact bound its descriptor words impose.
\<close>

section \<open>Modes\<close>

datatype framing = Newline | Fixed | Rdw | RdwBlocked

definition framing_parse :: "rstr \<Rightarrow> error + framing" where
  "framing_parse s =
     (let t = to_ascii_lowercase s in
      if t \<in> set (map lit [''newline'', ''lines'', ''text'']) then Ok Newline
      else if t \<in> set (map lit [''fixed'', ''fb'', ''none'']) then Ok Fixed
      else if t \<in> set (map lit [''rdw'', ''vb'', ''variable'']) then Ok Rdw
      else if t \<in> set (map lit [''rdw_blocked'', ''rdwblocked'', ''vb_blocked'', ''blocked'']) then Ok RdwBlocked
      else Err (UnknownFraming t))"

section \<open>Splitting\<close>

definition strip_cr_byte :: "bytes \<Rightarrow> bytes" where
  "strip_cr_byte line = (if line \<noteq> [] \<and> last line = 13 then butlast line else line)"

text \<open>\<open>cur\<close> is \<open>data[start..i]\<close>.\<close>

fun newline_loop :: "bytes \<Rightarrow> bytes \<Rightarrow> bytes list" where
  "newline_loop cur [] = (if cur = [] then [] else [cur])"
| "newline_loop cur (b # bs) =
     (if b = 10 then strip_cr_byte cur # newline_loop [] bs else newline_loop (cur @ [b]) bs)"

definition newline :: "bytes \<Rightarrow> bytes list" where
  "newline data = newline_loop [] data"

text \<open>\<open>data.chunks(n)\<close>\<close>

function chunks :: "nat \<Rightarrow> bytes \<Rightarrow> bytes list" where
  "chunks n data = (if n = 0 \<or> data = [] then [] else take n data # chunks n (drop n data))"
  by pat_completeness auto
termination
  by (relation "measure (\<lambda>(n, data). length data)") auto

declare chunks.simps [simp del]

definition fixed :: "bytes \<Rightarrow> nat \<Rightarrow> error + bytes list" where
  "fixed data record_len =
     (if record_len = 0 then Err (StreamErr FixedZero)
      else if length data mod record_len \<noteq> 0 then Err (StreamErr (FixedMultiple (length data) record_len))
      else Ok (chunks record_len data))"

definition descriptor_len :: "bytes \<Rightarrow> nat \<Rightarrow> error + nat" where
  "descriptor_len data pos =
     (if pos + 4 > length data then Err (StreamErr DescriptorTruncated)
      else
        let len = unat (data ! pos) * 256 + unat (data ! (pos + 1)) in
        if len < 4 then Err (StreamErr (DescriptorInvalid len)) else Ok len)"

lemma descriptor_len_ge: "descriptor_len data pos = Ok len \<Longrightarrow> 4 \<le> len \<and> pos < length data"
  by (auto simp: descriptor_len_def Let_def split: if_splits)

function (sequential) rdw_loop :: "bytes \<Rightarrow> nat \<Rightarrow> error + bytes list" where
  "rdw_loop data pos =
     (if length data \<le> pos then Ok []
      else
        rbind (descriptor_len data pos) (\<lambda>len.
        if pos + len > length data then Err (StreamErr (RdwOverrun len pos))
        else
          rbind (rdw_loop data (pos + len)) (\<lambda>rest.
          Ok (take (len - 4) (drop (pos + 4) data) # rest))))"
  by pat_completeness auto
termination
  by (relation "measure (\<lambda>(data, pos). length data - pos)") (auto dest: descriptor_len_ge)

declare rdw_loop.simps [simp del]

definition rdw :: "bytes \<Rightarrow> error + bytes list" where
  "rdw data = rdw_loop data 0"

function (sequential) block_loop :: "bytes \<Rightarrow> nat \<Rightarrow> nat \<Rightarrow> error + bytes list" where
  "block_loop data inner block_end =
     (if block_end \<le> inner then Ok []
      else
        rbind (descriptor_len data inner) (\<lambda>rec_len.
        if inner + rec_len > block_end then Err (StreamErr (RdwOverrunsBlock rec_len inner))
        else
          rbind (block_loop data (inner + rec_len) block_end) (\<lambda>rest.
          Ok (take (rec_len - 4) (drop (inner + 4) data) # rest))))"
  by pat_completeness auto
termination
  by (relation "measure (\<lambda>(data, inner, block_end). block_end - inner)") (auto dest: descriptor_len_ge)

declare block_loop.simps [simp del]

function (sequential) blocked_loop :: "bytes \<Rightarrow> nat \<Rightarrow> error + bytes list" where
  "blocked_loop data pos =
     (if length data \<le> pos then Ok []
      else
        rbind (descriptor_len data pos) (\<lambda>block_len.
        if pos + block_len > length data then Err (StreamErr (BdwOverrun block_len pos))
        else
          rbind (block_loop data (pos + 4) (pos + block_len)) (\<lambda>block.
          rbind (blocked_loop data (pos + block_len)) (\<lambda>rest.
          Ok (block @ rest)))))"
  by pat_completeness auto
termination
  by (relation "measure (\<lambda>(data, pos). length data - pos)") (auto dest: descriptor_len_ge)

declare blocked_loop.simps [simp del]

definition rdw_blocked :: "bytes \<Rightarrow> error + bytes list" where
  "rdw_blocked data = blocked_loop data 0"

definition records :: "bytes \<Rightarrow> framing \<Rightarrow> nat \<Rightarrow> error + bytes list" where
  "records data framing record_len =
     (case framing of
        Newline \<Rightarrow> Ok (newline data)
      | Fixed \<Rightarrow> fixed data record_len
      | Rdw \<Rightarrow> rdw data
      | RdwBlocked \<Rightarrow> rdw_blocked data)"

section \<open>Assembling\<close>

text \<open>The descriptor word: the low 16 bits of the length, big endian, and two zero bytes.\<close>

definition descriptor :: "nat \<Rightarrow> bytes" where
  "descriptor len =
     (let n = len mod 2 ^ 16 in [byte_of (n div 256), byte_of (n mod 256), 0, 0])"

definition assemble :: "bytes list \<Rightarrow> framing \<Rightarrow> bytes" where
  "assemble recs framing =
     (case framing of
        Newline \<Rightarrow> concat (map (\<lambda>r. r @ [10]) recs)
      | Fixed \<Rightarrow> concat recs
      | Rdw \<Rightarrow> concat (map (\<lambda>r. descriptor (length r + 4) @ r) recs)
      | RdwBlocked \<Rightarrow>
          descriptor (4 + sum_list (map (\<lambda>r. length r + 4) recs))
          @ concat (map (\<lambda>r. descriptor (length r + 4) @ r) recs))"

section \<open>The contract of a mode\<close>

text \<open>
  \<open>frame\<close> writes records that satisfy \<open>fits\<close>; \<open>unframe\<close> reads them back and goes on with
  whatever follows.
\<close>

locale record_framing =
  fixes frame :: "bytes list \<Rightarrow> bytes"
    and unframe :: "bytes \<Rightarrow> error + bytes list"
    and fits :: "bytes list \<Rightarrow> bool"
  assumes unframe_empty: "unframe [] = Ok []"
    and unframe_step: "fits rs \<Longrightarrow> unframe rest = Ok rs' \<Longrightarrow> unframe (frame rs @ rest) = Ok (rs @ rs')"
begin

lemma unframe_frame: "fits rs \<Longrightarrow> unframe (frame rs) = Ok rs"
  using unframe_step [OF _ unframe_empty] by (metis append_Nil2)

lemma frame_inj: "fits rs \<Longrightarrow> fits rs' \<Longrightarrow> frame rs = frame rs' \<Longrightarrow> rs = rs'"
  by (metis sum.inject(2) unframe_frame)

text \<open>Files written one after the other read as one.\<close>

lemma unframe_files: "list_all fits rss \<Longrightarrow> unframe (concat (map frame rss)) = Ok (concat rss)"
proof (induction rss)
  case (Cons rs rss)
  then show ?case
    by (auto intro: unframe_step)
qed (auto intro: unframe_empty)

end

section \<open>Newline\<close>

definition newline_fits :: "bytes list \<Rightarrow> bool" where
  "newline_fits rs \<longleftrightarrow> list_all (\<lambda>r. 10 \<notin> set r \<and> (r = [] \<or> last r \<noteq> 13)) rs"

lemma newline_loop_line: "10 \<notin> set r \<Longrightarrow> newline_loop cur (r @ 10 # rest) = strip_cr_byte (cur @ r) # newline_loop [] rest"
  by (induction r arbitrary: cur) auto

interpretation nl: record_framing "\<lambda>rs. assemble rs Newline" "\<lambda>data. records data Newline 0" newline_fits
proof unfold_locales
  show "records [] Newline 0 = Ok []"
    by (simp add: records_def newline_def)
  show "records (assemble rs Newline @ rest) Newline 0 = Ok (rs @ rs')"
    if "newline_fits rs" "records rest Newline 0 = Ok rs'" for rs rest rs'
    using that
  proof (induction rs)
    case (Cons r rs)
    then show ?case
      by (auto simp: records_def newline_def assemble_def newline_fits_def newline_loop_line strip_cr_byte_def)
  qed (simp add: assemble_def)
qed

section \<open>Fixed length\<close>

definition fixed_fits :: "nat \<Rightarrow> bytes list \<Rightarrow> bool" where
  "fixed_fits n rs \<longleftrightarrow> list_all (\<lambda>r. length r = n) rs"

lemma chunks_Nil [simp]: "chunks n [] = []"
  by (simp add: chunks.simps)

lemma chunks_append: "length r = n \<Longrightarrow> 0 < n \<Longrightarrow> chunks n (r @ rest) = r # chunks n rest"
  by (subst chunks.simps) auto

lemma mod_chunk [simp]: "k mod Suc n = 0 \<Longrightarrow> Suc (n + k) mod Suc n = 0"
  using mod_add_self1 [of "Suc n" k] by simp

interpretation fx: record_framing "\<lambda>rs. assemble rs Fixed" "\<lambda>data. records data Fixed (Suc n)" "fixed_fits (Suc n)"
  for n
proof
  show "records [] Fixed (Suc n) = Ok []"
    by (simp add: records_def fixed_def)
  show "records (assemble rs Fixed @ rest) Fixed (Suc n) = Ok (rs @ rs')"
    if "fixed_fits (Suc n) rs" "records rest Fixed (Suc n) = Ok rs'" for rs rest rs'
    using that
  proof (induction rs)
    case (Cons r rs)
    then show ?case
      by (auto simp: records_def fixed_def assemble_def fixed_fits_def chunks_append
          simp del: dvd_eq_mod_eq_0 split: if_splits)
  qed (simp add: assemble_def)
qed

section \<open>Record descriptor words\<close>

definition rdw_fits :: "bytes list \<Rightarrow> bool" where
  "rdw_fits rs \<longleftrightarrow> list_all (\<lambda>r. length r + 4 < 2 ^ 16) rs"

lemma length_descriptor [simp]: "length (descriptor n) = 4"
  by (simp add: descriptor_def Let_def)

lemma descriptor_len_shift [simp]: "descriptor_len (pre @ data) (length pre + pos) = descriptor_len data pos"
  by (simp add: descriptor_len_def nth_append)

lemma descriptor_len_head:
  "descriptor_len (descriptor n @ rest) 0 =
     (if n mod 2 ^ 16 < 4 then Err (StreamErr (DescriptorInvalid (n mod 2 ^ 16))) else Ok (n mod 2 ^ 16))"
proof -
  have "n mod 65536 div 256 < 256"
    by (simp add: div_less_iff_less_mult)
  then show ?thesis
    by (simp add: descriptor_len_def descriptor_def Let_def unat_byte_of)
qed

lemma rdw_loop_shift: "rdw_loop data pos = Ok rs \<Longrightarrow> rdw_loop (pre @ data) (length pre + pos) = Ok rs"
proof (induction data pos arbitrary: rs rule: rdw_loop.induct)
  case (1 data pos)
  show ?case
    using 1(2) 1(1) by (auto simp: rdw_loop.simps [of "pre @ data"] rdw_loop.simps [of data pos] add.assoc split: if_splits)
qed

lemma rdw_loop_record:
  assumes "length r + 4 < 2 ^ 16" "rdw rest = Ok rs"
  shows "rdw (descriptor (length r + 4) @ r @ rest) = Ok (r # rs)"
proof -
  have "rdw_loop (descriptor (length r + 4) @ r @ rest) (length r + 4) = Ok rs"
    using rdw_loop_shift [of rest 0 rs "descriptor (length r + 4) @ r"] assms(2) by (simp add: rdw_def add.commute)
  then show ?thesis
    using assms(1) by (simp add: rdw_def rdw_loop.simps [of "_ @ _"] descriptor_len_head)
qed

interpretation rd: record_framing "\<lambda>rs. assemble rs Rdw" "\<lambda>data. records data Rdw n" rdw_fits
  for n
proof
  show "records [] Rdw n = Ok []"
    by (simp add: records_def rdw_def rdw_loop.simps)
  show "records (assemble rs Rdw @ rest) Rdw n = Ok (rs @ rs')"
    if "rdw_fits rs" "records rest Rdw n = Ok rs'" for rs rest rs'
    using that by (induction rs) (auto simp: records_def assemble_def rdw_fits_def rdw_loop_record)
qed

section \<open>Blocks\<close>

definition block_size :: "bytes list \<Rightarrow> nat" where
  "block_size rs = 4 + sum_list (map (\<lambda>r. length r + 4) rs)"

definition blocked_fits :: "bytes list \<Rightarrow> bool" where
  "blocked_fits rs \<longleftrightarrow> block_size rs < 2 ^ 16"

lemma assemble_rdw_length: "length (assemble rs Rdw) = sum_list (map (\<lambda>r. length r + 4) rs)"
  by (induction rs) (simp_all add: assemble_def)

lemma assemble_blocked: "assemble rs RdwBlocked = descriptor (block_size rs) @ assemble rs Rdw"
  by (simp add: assemble_def block_size_def)

lemma block_loop_shift:
  "block_loop data inner fin = Ok rs \<Longrightarrow> block_loop (pre @ data) (length pre + inner) (length pre + fin) = Ok rs"
proof (induction data inner fin arbitrary: rs rule: block_loop.induct)
  case (1 data inner fin)
  show ?case
    using 1(2) 1(1)
    by (auto simp: block_loop.simps [of "pre @ data"] block_loop.simps [of data inner] add.assoc split: if_splits)
qed

lemma blocked_loop_shift: "blocked_loop data pos = Ok rs \<Longrightarrow> blocked_loop (pre @ data) (length pre + pos) = Ok rs"
proof (induction data pos arbitrary: rs rule: blocked_loop.induct)
  case (1 data pos)
  show ?case
  proof (cases "length data \<le> pos")
    case False
    then obtain len block rest where eq: "descriptor_len data pos = Ok len" "pos + len \<le> length data"
      "block_loop data (pos + 4) (pos + len) = Ok block" "blocked_loop data (pos + len) = Ok rest" "rs = block @ rest"
      using 1(2) by (auto simp: blocked_loop.simps [of data pos] split: if_splits)
    have "blocked_loop (pre @ data) (length pre + (pos + len)) = Ok rest"
      using 1(1) False eq by simp
    moreover have "block_loop (pre @ data) (length pre + (pos + 4)) (length pre + (pos + len)) = Ok block"
      using eq(3) by (rule block_loop_shift)
    ultimately show ?thesis
      using False eq by (simp add: blocked_loop.simps [of "pre @ data"] add.assoc)
  qed (use 1(2) in \<open>simp add: blocked_loop.simps\<close>)
qed

lemma block_loop_records:
  assumes "rdw_fits rs"
  shows "block_loop (assemble rs Rdw @ rest) 0 (length (assemble rs Rdw)) = Ok rs"
  using assms
proof (induction rs)
  case (Cons r rs)
  let ?d = "descriptor (length r + 4) @ r"
  have "block_loop (?d @ assemble rs Rdw @ rest) (length ?d + 0) (length ?d + length (assemble rs Rdw)) = Ok rs"
    using Cons by (intro block_loop_shift) (simp add: rdw_fits_def)
  then show ?case
    using Cons.prems
    by (simp add: block_loop.simps [of "_ @ _" 0] assemble_def rdw_fits_def descriptor_len_head ac_simps)
qed (simp add: block_loop.simps assemble_def)

lemma blocked_fits_rdw: "blocked_fits rs \<Longrightarrow> rdw_fits rs"
  by (induction rs) (auto simp: blocked_fits_def rdw_fits_def block_size_def)

interpretation bk: record_framing "\<lambda>rs. assemble rs RdwBlocked" "\<lambda>data. records data RdwBlocked n" blocked_fits
  for n
proof
  show "records [] RdwBlocked n = Ok []"
    by (simp add: records_def rdw_blocked_def blocked_loop.simps)
  show "records (assemble rs RdwBlocked @ rest) RdwBlocked n = Ok (rs @ rs')"
    if fits: "blocked_fits rs" and rest: "records rest RdwBlocked n = Ok rs'" for rs rest rs'
  proof -
    let ?d = "descriptor (block_size rs)" and ?a = "assemble rs Rdw"
    have len: "block_size rs = length (?d @ ?a)"
      by (simp add: block_size_def assemble_rdw_length)
    have "block_loop (?d @ ?a @ rest) (length ?d + 0) (length ?d + length ?a) = Ok rs"
      using block_loop_records [OF blocked_fits_rdw [OF fits]] by (rule block_loop_shift)
    moreover have "blocked_loop ((?d @ ?a) @ rest) (length (?d @ ?a) + 0) = Ok rs'"
      using rest by (intro blocked_loop_shift) (simp add: records_def rdw_blocked_def)
    ultimately show ?thesis
      using fits len
      by (simp add: records_def rdw_blocked_def assemble_blocked blocked_loop.simps [of "_ @ _" 0]
          descriptor_len_head blocked_fits_def)
  qed
qed

section \<open>What the readers return\<close>

text \<open>Every byte of the input is in a record or in the descriptor word of one.\<close>

lemma chunks_concat: "0 < n \<Longrightarrow> concat (chunks n data) = data"
  by (induction n data rule: chunks.induct) (subst chunks.simps; simp)

lemma chunks_lengths: "0 < n \<Longrightarrow> length data mod n = 0 \<Longrightarrow> r \<in> set (chunks n data) \<Longrightarrow> length r = n"
proof (induction n data rule: chunks.induct)
  case (1 n data)
  then have "data \<noteq> []"
    by auto
  then have "n \<le> length data"
    using 1 by (metis dvd_imp_le length_greater_0_conv mod_0_imp_dvd)
  then show ?case
    using 1 \<open>data \<noteq> []\<close> by (subst (asm) (2) chunks.simps) (auto simp: le_mod_geq)
qed

text \<open>
  A descriptor word and its record: the first two bytes of the word are the big-endian length of
  both, the other two are not looked at.
\<close>

definition rdw_segment :: "bytes \<Rightarrow> bytes \<Rightarrow> bool" where
  "rdw_segment word rec \<longleftrightarrow> length word = 4 \<and> unat (word ! 0) * 256 + unat (word ! 1) = length rec + 4"

lemma rdw_loop_segments:
  "rdw_loop data pos = Ok rs \<Longrightarrow> \<exists>words. list_all2 rdw_segment words rs \<and> drop pos data = concat (map2 (@) words rs)"
proof (induction data pos arbitrary: rs rule: rdw_loop.induct)
  case (1 data pos)
  show ?case
  proof (cases "length data \<le> pos")
    case True
    then show ?thesis
      using 1(2) by (intro exI [of _ "[]"]) (simp add: rdw_loop.simps)
  next
    case False
    then obtain len rest where eq: "descriptor_len data pos = Ok len" "pos + len \<le> length data"
      "rdw_loop data (pos + len) = Ok rest" "rs = take (len - 4) (drop (pos + 4) data) # rest"
      using 1(2) by (auto simp: rdw_loop.simps [of data pos] split: if_splits)
    obtain words where words: "list_all2 rdw_segment words rest" "drop (pos + len) data = concat (map2 (@) words rest)"
      using 1(1) [OF False eq(1) _ eq(3)] eq(2) by auto
    let ?word = "take 4 (drop pos data)" and ?rec = "take (len - 4) (drop (pos + 4) data)"
    have len: "4 \<le> len" "pos + 4 \<le> length data" "len = unat (data ! pos) * 256 + unat (data ! (pos + 1))"
      using eq(1) by (auto simp: descriptor_len_def Let_def split: if_splits)
    have "rdw_segment ?word ?rec"
      using len eq(2) by (simp add: rdw_segment_def)
    moreover have "drop pos data = ?word @ ?rec @ drop (pos + len) data"
    proof -
      have "drop (pos + len) data = drop (len - 4) (drop (pos + 4) data)"
        using len(1) by (simp add: add.commute)
      then have "?rec @ drop (pos + len) data = drop (pos + 4) data"
        by (simp only: append_take_drop_id)
      also have "\<dots> = drop 4 (drop pos data)"
        by (simp add: add.commute)
      finally show ?thesis
        by (simp only: append_take_drop_id)
    qed
    ultimately show ?thesis
      using words by (intro exI [of _ "?word # words"]) (simp add: eq(4))
  qed
qed

lemma rdw_segment_loop:
  assumes "rdw_segment word rec" "rdw rest = Ok rs"
  shows "rdw (word @ rec @ rest) = Ok (rec # rs)"
proof -
  have "rdw_loop (word @ rec @ rest) (length rec + 4) = Ok rs"
    using rdw_loop_shift [of rest 0 rs "word @ rec"] assms by (simp add: rdw_def rdw_segment_def add.commute)
  moreover have "descriptor_len (word @ rec @ rest) 0 = Ok (length rec + 4)"
    using assms(1) by (simp add: descriptor_len_def rdw_segment_def nth_append)
  ultimately show ?thesis
    using assms(1) by (simp add: rdw_def rdw_loop.simps [of "word @ rec @ rest" 0] rdw_segment_def)
qed

lemma rdw_segments_read: "list_all2 rdw_segment words rs \<Longrightarrow> rdw (concat (map2 (@) words rs)) = Ok rs"
  by (induction rule: list_all2_induct) (simp_all add: rdw_segment_loop, simp add: rdw_def rdw_loop.simps)

lemma newline_loop_count: "length (filter (\<lambda>b. b = 10) data) \<le> length (newline_loop cur data)"
  by (induction cur data rule: newline_loop.induct) auto

lemma newline_loop_lines:
  "newline_loop cur data = rs \<Longrightarrow> 10 \<notin> set cur \<Longrightarrow> r \<in> set rs \<Longrightarrow> 10 \<notin> set r"
  by (induction cur data arbitrary: rs rule: newline_loop.induct)
    (auto simp: strip_cr_byte_def dest: in_set_butlastD split: if_splits)

lemma newline_exact:
  "newline (assemble rs Newline) = rs \<Longrightarrow> newline_fits rs"
proof (induction rs)
  case (Cons r rs)
  have "10 \<notin> set r"
    using newline_loop_lines [of "[]" "assemble (r # rs) Newline" "r # rs" r] Cons.prems
    by (simp add: newline_def)
  then have "strip_cr_byte r # newline_loop [] (assemble rs Newline) = r # rs"
    using Cons.prems by (simp add: newline_def assemble_def newline_loop_line)
  then show ?case
    using Cons.IH \<open>10 \<notin> set r\<close>
    by (cases r rule: rev_cases) (auto simp: newline_def newline_fits_def strip_cr_byte_def split: if_splits)
qed (simp add: newline_fits_def)

section \<open>Properties\<close>

definition framing_fits :: "framing \<Rightarrow> nat \<Rightarrow> bytes list \<Rightarrow> bool" where
  "framing_fits m n rs =
     (case m of
        Newline \<Rightarrow> newline_fits rs
      | Fixed \<Rightarrow> 0 < n \<and> fixed_fits n rs
      | Rdw \<Rightarrow> rdw_fits rs
      | RdwBlocked \<Rightarrow> blocked_fits rs)"

lemma framing_fits_simps:
  "framing_fits Newline n = newline_fits" "0 < n \<Longrightarrow> framing_fits Fixed n = fixed_fits n"
  "framing_fits Rdw n = rdw_fits" "framing_fits RdwBlocked n = blocked_fits"
  by (auto simp: framing_fits_def)

lemma records_assembled:
  assumes "0 < n" "list_all (framing_fits m n) rss"
  shows "records (concat (map (\<lambda>rs. assemble rs m) rss)) m n = Ok (concat rss)"
proof (cases m)
  case Newline
  then show ?thesis
    using nl.unframe_files [of rss] assms(2) by (simp add: framing_fits_simps records_def)
next
  case Fixed
  then show ?thesis
    using fx.unframe_files [of "n - 1" rss] assms by (simp add: framing_fits_simps)
next
  case Rdw
  then show ?thesis
    using rd.unframe_files [of rss n] assms(2) by (simp add: framing_fits_simps)
next
  case RdwBlocked
  then show ?thesis
    using bk.unframe_files [of rss n] assms(2) by (simp add: framing_fits_simps)
qed

text \<open>
  C18. In every mode, files that the writer assembles from records that fit read back as these
  records, also when several files are concatenated. The limits are those of the mode: no line
  feed in a record and no carriage return at its end, the record length, 65531 bytes after a
  record descriptor word, 65535 bytes for a whole block with its descriptor words.
\<close>

theorem framing_roundtrip:
  assumes "0 < n" "list_all (framing_fits m n) rss"
  shows "records (concat (map (\<lambda>rs. assemble rs m) rss)) m n = Ok (concat rss)"
  using assms by (rule records_assembled)

theorem framing_roundtrip_witness:
  "records (assemble [[1, 13, 2], []] RdwBlocked @ assemble [[7]] RdwBlocked) RdwBlocked 1 = Ok [[1, 13, 2], [], [7]]"
  using framing_roundtrip [of 1 RdwBlocked "[[[1, 13, 2], []], [[7]]]"]
  by (simp add: framing_fits_def blocked_fits_def block_size_def)

text \<open>
  The newline mode keeps exactly the records without a line feed inside and without a
  carriage return at the end; any other list of records reads back as something else.
\<close>

theorem newline_roundtrip_iff:
  "records (assemble rs Newline) Newline n = Ok rs \<longleftrightarrow> newline_fits rs"
  using nl.unframe_frame [of rs] newline_exact [of rs] by (auto simp: records_def)

text \<open>
  A blocked file whose records and descriptor words take 65536 to 65539 bytes is written
  with a block length that wraps around to 0 to 3; the reader refuses the file. The writer puts
  all records in one block and does not check this.
\<close>

theorem blocked_length_wraps:
  assumes "2 ^ 16 \<le> block_size rs" "block_size rs < 2 ^ 16 + 4"
  shows "records (assemble rs RdwBlocked) RdwBlocked n = Err (StreamErr (DescriptorInvalid (block_size rs - 2 ^ 16)))"
proof -
  have "block_size rs mod 2 ^ 16 = block_size rs - 2 ^ 16" "block_size rs - 2 ^ 16 < 4"
    using assms by (simp_all add: mod_if)
  then show ?thesis
    using assms
    by (simp add: records_def rdw_blocked_def assemble_blocked blocked_loop.simps [of "_ @ _"] descriptor_len_head)
qed

theorem blocked_length_wraps_witness:
  "records (assemble (replicate 16383 []) RdwBlocked) RdwBlocked 0 = Err (StreamErr (DescriptorInvalid 0))"
  using blocked_length_wraps [of "replicate 16383 []" 0] by (simp add: block_size_def sum_list_replicate)

text \<open>
  C36. The descriptor-word reader accounts for every byte of the input: it accepts exactly the
  files that are a sequence of four-byte words, each with the length of itself and the record in
  its first two bytes, followed by their records, and it returns those records, byte for byte.
\<close>

theorem rdw_accounts_for_input:
  "records data Rdw n = Ok rs \<longleftrightarrow>
   (\<exists>words. list_all2 rdw_segment words rs \<and> data = concat (map2 (@) words rs))"
  using rdw_loop_segments [of data 0 rs] rdw_segments_read [of _ rs] by (auto simp: records_def rdw_def)

end
