(* ===== verification/Compression.thy ===== *)
theory Compression
  imports RustStr
begin

text \<open>
  Compression of whole buffers (\<open>compression.rs\<close>, \<open>zstd_codec.rs\<close>): naming, detection by
  magic bytes and by file name, and the dispatch. The compressors themselves (\<open>flate2\<close>,
  \<open>zstd\<close>) are the record \<open>codecs\<close> of parameters; a failure carries the library's error.
\<close>

datatype compression = NoCompression | Gzip | Zstd

record codecs =
  gz_decode :: "bytes \<Rightarrow> io_error + bytes"
  gz_encode :: "bytes \<Rightarrow> io_error + bytes"
  zs_decode :: "bytes \<Rightarrow> io_error + bytes"
  zs_encode :: "bytes \<Rightarrow> io_error + bytes"

definition compression_parse :: "rstr \<Rightarrow> error + compression" where
  "compression_parse s =
     (let t = to_ascii_lowercase (trim s) in
      if t \<in> set (map lit [''none'', ''raw'', ''off'']) then Ok NoCompression
      else if t \<in> set (map lit [''gzip'', ''gz'']) then Ok Gzip
      else if t \<in> set (map lit [''zstd'', ''zst'']) then Ok Zstd
      else Err (UnknownCompression t))"

definition from_path :: "rstr \<Rightarrow> compression" where
  "from_path path =
     (let lower = to_ascii_lowercase path in
      if ends_with (lit ''.gz'') lower \<or> ends_with (lit ''.gzip'') lower then Gzip
      else if ends_with (lit ''.zst'') lower \<or> ends_with (lit ''.zstd'') lower then Zstd
      else NoCompression)"

definition detect :: "bytes \<Rightarrow> compression" where
  "detect data =
     (if length data \<ge> 2 \<and> data ! 0 = 0x1f \<and> data ! 1 = 0x8b then Gzip
      else if length data \<ge> 4 \<and> take 4 data = [0x28, 0xb5, 0x2f, 0xfd] then Zstd
      else NoCompression)"

definition codec_result :: "string \<Rightarrow> io_error + bytes \<Rightarrow> error + bytes" where
  "codec_result label r =
     (case r of Inl e \<Rightarrow> Err (StreamErr (CodecError (lit label) e)) | Inr bs \<Rightarrow> Ok bs)"

definition decompress :: "codecs \<Rightarrow> bytes \<Rightarrow> compression \<Rightarrow> error + bytes" where
  "decompress cd data c =
     (case c of
        NoCompression \<Rightarrow> Ok data
      | Gzip \<Rightarrow> codec_result ''gzip decode'' (gz_decode cd data)
      | Zstd \<Rightarrow> codec_result ''zstd decode'' (zs_decode cd data))"

definition compress :: "codecs \<Rightarrow> bytes \<Rightarrow> compression \<Rightarrow> error + bytes" where
  "compress cd data c =
     (case c of
        NoCompression \<Rightarrow> Ok data
      | Gzip \<Rightarrow> codec_result ''gzip encode'' (gz_encode cd data)
      | Zstd \<Rightarrow> codec_result ''zstd encode'' (zs_encode cd data))"

text \<open>
  What the file formats and the libraries document: the encoders write their magic bytes
  first (RFC 1952, RFC 8878), and decoding an encoded buffer gives it back.
\<close>

definition codec_laws :: "codecs \<Rightarrow> bool" where
  "codec_laws cd \<longleftrightarrow>
     (\<forall>data bs. gz_encode cd data = Inr bs \<longrightarrow> take 2 bs = [0x1f, 0x8b] \<and> gz_decode cd bs = Inr data) \<and>
     (\<forall>data bs. zs_encode cd data = Inr bs \<longrightarrow>
        take 4 bs = [0x28, 0xb5, 0x2f, 0xfd] \<and> zs_decode cd bs = Inr data)"

lemma take_prefixD: "take k bs = ps \<Longrightarrow> length ps = k \<Longrightarrow> k \<le> length bs \<and> (\<forall>i < k. bs ! i = ps ! i)"
  by (auto simp: min_def split: if_splits)

lemma detect_gzip: "take 2 bs = [0x1f, 0x8b] \<Longrightarrow> detect bs = Gzip"
  using take_prefixD [of 2 bs "[0x1f, 0x8b]"] by (auto simp: detect_def)

lemma detect_zstd: "take 4 bs = [0x28, 0xb5, 0x2f, 0xfd] \<Longrightarrow> detect bs = Zstd"
  using take_prefixD [of 4 bs "[0x28, 0xb5, 0x2f, 0xfd]"] by (auto simp: detect_def)

text \<open>A stand-in for the libraries, for witnesses: the magic bytes and the data as it is.\<close>

definition sample_codecs :: codecs where
  "sample_codecs =
     \<lparr> gz_decode = (\<lambda>bs. if take 2 bs = [0x1f, 0x8b] then Inr (drop 2 bs) else Inl (IoFailure [])),
       gz_encode = (\<lambda>bs. Inr ([0x1f, 0x8b] @ bs)),
       zs_decode = (\<lambda>bs. if take 4 bs = [0x28, 0xb5, 0x2f, 0xfd] then Inr (drop 4 bs) else Inl (IoFailure [])),
       zs_encode = (\<lambda>bs. Inr ([0x28, 0xb5, 0x2f, 0xfd] @ bs)) \<rparr>"

lemma sample_codecs_laws: "codec_laws sample_codecs"
  by (simp add: codec_laws_def sample_codecs_def)

text \<open>A written file is recognized and unpacked when it is read, whatever codec it was written with.\<close>

lemma detect_compress:
  assumes "codec_laws cd" "compress cd data c = Ok file" "c = NoCompression \<Longrightarrow> detect data = NoCompression"
  shows "detect file = c \<and> decompress cd file (detect file) = Ok data"
  using assms
  by (cases c)
    (auto simp: compress_def decompress_def codec_result_def codec_laws_def detect_gzip detect_zstd split: sum.splits)

end
