(* ===== verification/Stream.thy ===== *)
theory Stream
  imports Framing Compression
begin

text \<open>
  Streaming (\<open>stream.rs\<close>): reading records one at a time from a byte source. A source is the
  list of the results that successive calls of \<open>read\<close> or \<open>fill_buf\<close> give: a nonempty piece
  of data, an interruption, an I/O error; the end of the list is the end of the file. A reader
  that wraps another one is a function on sources.
\<close>

section \<open>Byte sources\<close>

datatype event = Piece byte bytes | Intr | Fail io_error

type_synonym source = "event list"

definition push_back :: "bytes \<Rightarrow> source \<Rightarrow> source" where
  "push_back bs src = (case bs of [] \<Rightarrow> src | b # bs \<Rightarrow> Piece b bs # src)"

fun source_data :: "source \<Rightarrow> bytes" where
  "source_data [] = []"
| "source_data (Piece b bs # es) = b # bs @ source_data es"
| "source_data (_ # es) = source_data es"

definition sound :: "source \<Rightarrow> bool" where
  "sound src = list_all (\<lambda>e. case e of Fail _ \<Rightarrow> False | _ \<Rightarrow> True) src"

fun source_size :: "source \<Rightarrow> nat" where
  "source_size [] = 0"
| "source_size (Piece b bs # es) = length bs + 2 + source_size es"
| "source_size (_ # es) = 1 + source_size es"

text \<open>\<open>read_to_end\<close> retries after an interruption.\<close>

fun read_to_end :: "source \<Rightarrow> io_error + bytes" where
  "read_to_end [] = Inr []"
| "read_to_end (Piece b bs # es) = rmap_value (\<lambda>rest. b # bs @ rest) (read_to_end es)"
| "read_to_end (Intr # es) = read_to_end es"
| "read_to_end (Fail e # es) = Inl e"

section \<open>Limits\<close>

record limits =
  max_decompressed_bytes :: nat
  max_record_bytes :: nat

definition default_limits :: limits where
  "default_limits =
     \<lparr> max_decompressed_bytes = 16 * 1024 * 1024 * 1024, max_record_bytes = 512 * 1024 * 1024 \<rparr>"

definition U64_MAX :: nat where
  "U64_MAX = 2 ^ 64 - 1"

text \<open>\<open>LimitReader\<close>: \<open>so_far\<close> is \<open>read_so_far\<close>.\<close>

fun limit_reader :: "nat \<Rightarrow> nat \<Rightarrow> source \<Rightarrow> source" where
  "limit_reader limit so_far [] = []"
| "limit_reader limit so_far (Piece b bs # es) =
     (let so_far = min U64_MAX (so_far + length (b # bs)) in
      (if so_far > limit then Fail (LimitExceeded limit) else Piece b bs) # limit_reader limit so_far es)"
| "limit_reader limit so_far (e # es) = e # limit_reader limit so_far es"

text \<open>\<open>LabeledReader\<close> keeps the kind of the error, so an interruption stays one.\<close>

definition labeled_reader :: "string \<Rightarrow> source \<Rightarrow> source" where
  "labeled_reader label src = map (\<lambda>e. case e of Fail e \<Rightarrow> Fail (Labelled (lit label) e) | _ \<Rightarrow> e) src"

section \<open>Decompression\<close>

text \<open>The streaming decoders of the libraries.\<close>

record stream_codecs =
  gz_stream :: "source \<Rightarrow> source"
  zs_stream :: "source \<Rightarrow> io_error + source"

text \<open>\<open>fill_buf\<close> without consuming; an interruption is reported.\<close>

definition peek :: "source \<Rightarrow> io_error + bytes" where
  "peek src =
     (case src of
        [] \<Rightarrow> Inr []
      | Piece b bs # _ \<Rightarrow> Inr (b # bs)
      | Intr # _ \<Rightarrow> Inl Interrupted
      | Fail e # _ \<Rightarrow> Inl e)"

definition read_error :: "io_error + 'a \<Rightarrow> error + 'a" where
  "read_error r = (case r of Inl e \<Rightarrow> Err (StreamErr (ReadError e)) | Inr a \<Rightarrow> Ok a)"

definition decompress_reader :: "stream_codecs \<Rightarrow> source \<Rightarrow> compression option \<Rightarrow> nat \<Rightarrow> error + source" where
  "decompress_reader sc reader compression limit =
     rbind (case compression of
              Some c \<Rightarrow> Ok c
            | None \<Rightarrow> rmap_value detect (read_error (peek reader))) (\<lambda>codec.
     case codec of
       NoCompression \<Rightarrow> Ok reader
     | Gzip \<Rightarrow> Ok (limit_reader limit 0 (labeled_reader ''gzip decode'' (gz_stream sc reader)))
     | Zstd \<Rightarrow>
         (case zs_stream sc reader of
            Inl e \<Rightarrow> Err (StreamErr (CodecError (lit ''zstd decode'') e))
          | Inr inner \<Rightarrow> Ok (limit_reader limit 0 (labeled_reader ''zstd decode'' inner))))"

section \<open>Reading one record\<close>

fun read_until_capped :: "source \<Rightarrow> byte \<Rightarrow> bytes \<Rightarrow> nat \<Rightarrow> (io_error + bytes) \<times> source" where
  "read_until_capped [] delim buf cap = (Inr buf, [])"
| "read_until_capped (Intr # es) delim buf cap = read_until_capped es delim buf cap"
| "read_until_capped (Fail e # es) delim buf cap = (Inl e, es)"
| "read_until_capped (Piece b bs # es) delim buf cap =
     (let avail = b # bs in
      if delim \<in> set avail then
        let i = length (takeWhile (\<lambda>x. x \<noteq> delim) avail) in
        (Inr (buf @ take (i + 1) avail), push_back (drop (i + 1) avail) es)
      else if length (buf @ avail) > cap then (Inl (RecordTooBig cap), es)
      else read_until_capped es delim (buf @ avail) cap)"

lemma source_size_push_back [simp]: "source_size (push_back bs es) = (if bs = [] then 0 else length bs + 1) + source_size es"
  by (simp add: push_back_def split: list.split)

text \<open>\<open>buf\<close> is the filled part of the buffer of \<open>n\<close> bytes.\<close>

function (sequential) read_full :: "source \<Rightarrow> bytes \<Rightarrow> nat \<Rightarrow> (io_error + bytes) \<times> source" where
  "read_full [] buf n = (Inr buf, [])"
| "read_full (e # es) buf n =
     (if n \<le> length buf then (Inr buf, e # es)
      else case e of
        Intr \<Rightarrow> read_full es buf n
      | Fail err \<Rightarrow> (Inl err, es)
      | Piece b bs \<Rightarrow>
          let k = n - length buf in
          read_full (push_back (drop k (b # bs)) es) (buf @ take k (b # bs)) n)"
  by pat_completeness auto
termination
  by (relation "measure (\<lambda>(src, _). source_size src)") auto

section \<open>The stream of records\<close>

datatype stream_state =
    SNewline source bool nat
  | SFixed source nat bool
  | SBuffered "bytes list"

definition stream_new :: "source \<Rightarrow> framing \<Rightarrow> nat \<Rightarrow> nat \<Rightarrow> error + stream_state" where
  "stream_new reader framing record_len cap =
     (case framing of
        Newline \<Rightarrow> Ok (SNewline reader False cap)
      | Fixed \<Rightarrow>
          if record_len = 0 then Err (StreamErr FixedZero)
          else if record_len > cap then Err (StreamErr (RecordLengthMax record_len cap))
          else Ok (SFixed reader record_len False)
      | _ \<Rightarrow>
          rbind (read_error (read_to_end reader)) (\<lambda>buf.
          rbind (records buf framing record_len) (\<lambda>recs.
          Ok (SBuffered recs))))"

fun stream_next :: "stream_state \<Rightarrow> (error + bytes) option \<times> stream_state" where
  "stream_next (SNewline reader done cap) =
     (if done then (None, SNewline reader done cap)
      else case read_until_capped reader 10 [] cap of
        (Inr buf, reader) \<Rightarrow>
          if buf = [] then (None, SNewline reader True cap)
          else if last buf = 10 then (Some (Ok (strip_cr_byte (butlast buf))), SNewline reader False cap)
          else (Some (Ok buf), SNewline reader True cap)
      | (Inl e, reader) \<Rightarrow> (Some (Err (StreamErr (ReadError e))), SNewline reader True cap))"
| "stream_next (SFixed reader record_len done) =
     (if done then (None, SFixed reader record_len done)
      else case read_full reader [] record_len of
        (Inr buf, reader) \<Rightarrow>
          if buf = [] then (None, SFixed reader record_len True)
          else if length buf = record_len then (Some (Ok buf), SFixed reader record_len False)
          else (Some (Err (StreamErr (FixedPartial record_len (length buf)))), SFixed reader record_len True)
      | (Inl e, reader) \<Rightarrow> (Some (Err (StreamErr (ReadError e))), SFixed reader record_len True))"
| "stream_next (SBuffered []) = (None, SBuffered [])"
| "stream_next (SBuffered (r # rs)) = (Some (Ok r), SBuffered rs)"

section \<open>Every record consumes input\<close>

fun state_size :: "stream_state \<Rightarrow> nat" where
  "state_size (SNewline src done cap) = 2 * source_size src + (if done then 0 else 1)"
| "state_size (SFixed src n done) = 2 * source_size src + (if done then 0 else 1)"
| "state_size (SBuffered rs) = length rs"

lemma read_until_size:
  "read_until_capped src delim buf cap = (r, src') \<Longrightarrow>
   source_size src' \<le> source_size src \<and> (\<forall>out. r = Inr out \<longrightarrow> out \<noteq> buf \<longrightarrow> source_size src' < source_size src)"
  by (induction src delim buf cap rule: read_until_capped.induct) (auto simp: Let_def split: if_splits)

lemma read_full_size:
  "read_full src buf n = (r, src') \<Longrightarrow>
   source_size src' \<le> source_size src \<and> (\<forall>out. r = Inr out \<longrightarrow> out \<noteq> buf \<longrightarrow> source_size src' < source_size src)"
  by (induction src buf n arbitrary: r src' rule: read_full.induct)
    (fastforce simp: Let_def split: if_splits event.splits)+

lemma stream_next_size:
  "stream_next st = (Some r, st') \<Longrightarrow> state_size st' < state_size st"
  by (induction st rule: stream_next.induct)
    (auto split: if_splits sum.splits prod.splits dest!: read_until_size read_full_size)

text \<open>Draining a stream, as \<open>collect::<Result<Vec<_>>>()\<close> does: the first error ends it.\<close>

function (sequential) drain :: "stream_state \<Rightarrow> error + bytes list" where
  "drain st =
     (case stream_next st of
        (None, _) \<Rightarrow> Ok []
      | (Some (Inl e), _) \<Rightarrow> Err e
      | (Some (Inr r), st) \<Rightarrow> rbind (drain st) (\<lambda>rs. Ok (r # rs)))"
  by pat_completeness auto
termination
  by (relation "measure state_size") (auto dest: stream_next_size [OF sym])

declare drain.simps [simp del]

section \<open>Streaming and slicing agree\<close>

text \<open>No run of bytes without a line feed is longer than the cap.\<close>

fun lines_fit :: "nat \<Rightarrow> nat \<Rightarrow> bytes \<Rightarrow> bool" where
  "lines_fit cap n [] = (n \<le> cap)"
| "lines_fit cap n (b # bs) = (if b = 10 then n \<le> cap \<and> lines_fit cap 0 bs else lines_fit cap (n + 1) bs)"

lemma lines_fit_split:
  "lines_fit cap n data \<Longrightarrow>
   n + length (takeWhile (\<lambda>b. b \<noteq> 10) data) \<le> cap \<and>
   (10 \<in> set data \<longrightarrow> lines_fit cap 0 (tl (dropWhile (\<lambda>b. b \<noteq> 10) data)))"
proof (induction data arbitrary: n)
  case (Cons b data)
  then show ?case
    using Cons.IH [of "n + 1"] by (auto split: if_splits)
qed simp

lemma newline_loop_split:
  "newline_loop cur data =
     (if 10 \<in> set data
      then strip_cr_byte (cur @ takeWhile (\<lambda>b. b \<noteq> 10) data) # newline (tl (dropWhile (\<lambda>b. b \<noteq> 10) data))
      else if cur @ data = [] then [] else [cur @ data])"
  by (induction data arbitrary: cur) (auto simp: newline_def)

lemma source_data_push_back [simp]: "source_data (push_back bs es) = bs @ source_data es"
  by (simp add: push_back_def split: list.split)

lemma sound_push_back [simp]: "sound (push_back bs es) = sound es"
  by (simp add: push_back_def sound_def split: list.split)

lemma sound_Cons [simp]: "sound (e # es) \<longleftrightarrow> (\<forall>err. e \<noteq> Fail err) \<and> sound es"
  by (cases e) (simp_all add: sound_def)

lemma sound_Nil [simp]: "sound []"
  by (simp add: sound_def)

lemma split_at_first:
  "d \<in> set xs \<Longrightarrow> take (Suc (length (takeWhile (\<lambda>b. b \<noteq> d) xs))) xs = takeWhile (\<lambda>b. b \<noteq> d) xs @ [d]
     \<and> drop (Suc (length (takeWhile (\<lambda>b. b \<noteq> d) xs))) xs = tl (dropWhile (\<lambda>b. b \<noteq> d) xs)"
  by (induction xs) auto

lemma read_until_piece:
  "d \<in> set (b # bs) \<Longrightarrow>
   read_until_capped (Piece b bs # es) d buf cap =
     (Inr (buf @ takeWhile (\<lambda>x. x \<noteq> d) (b # bs) @ [d]), push_back (tl (dropWhile (\<lambda>x. x \<noteq> d) (b # bs))) es)"
  by (simp only: read_until_capped.simps Let_def if_True add_0_right add_Suc_right One_nat_def split_at_first)

lemma read_until_sound:
  assumes "sound src" "length buf + length (takeWhile (\<lambda>b. b \<noteq> d) (source_data src)) \<le> cap"
  shows "\<exists>src'. sound src' \<and>
    (if d \<in> set (source_data src)
     then read_until_capped src d buf cap
            = (Inr (buf @ takeWhile (\<lambda>b. b \<noteq> d) (source_data src) @ [d]), src')
          \<and> source_data src' = tl (dropWhile (\<lambda>b. b \<noteq> d) (source_data src))
     else read_until_capped src d buf cap = (Inr (buf @ source_data src), src') \<and> source_data src' = [])"
  using assms
proof (induction src d buf cap rule: read_until_capped.induct)
  case (4 b bs es d buf cap)
  obtain xs where xs: "xs = b # bs" "source_data (Piece b bs # es) = xs @ source_data es" "sound es"
    using 4(2) by simp
  show ?case
  proof (cases "d \<in> set xs")
    case True
    have "read_until_capped (Piece b bs # es) d buf cap
        = (Inr (buf @ takeWhile (\<lambda>x. x \<noteq> d) xs @ [d]), push_back (tl (dropWhile (\<lambda>x. x \<noteq> d) xs)) es)"
      using True unfolding xs(1) by (rule read_until_piece)
    moreover have "takeWhile (\<lambda>b. b \<noteq> d) (xs @ source_data es) = takeWhile (\<lambda>b. b \<noteq> d) xs"
      using True by (auto simp: takeWhile_append)
    moreover have "tl (dropWhile (\<lambda>b. b \<noteq> d) (xs @ source_data es)) = tl (dropWhile (\<lambda>b. b \<noteq> d) xs) @ source_data es"
      using True by (auto simp: dropWhile_append)
    ultimately show ?thesis
      using True xs(3) unfolding xs(2) by (auto intro!: exI [of _ "push_back (tl (dropWhile (\<lambda>x. x \<noteq> d) xs)) es"])
  next
    case False
    have t: "takeWhile (\<lambda>b. b \<noteq> d) (xs @ ys) = xs @ takeWhile (\<lambda>b. b \<noteq> d) ys"
      "dropWhile (\<lambda>b. b \<noteq> d) (xs @ ys) = dropWhile (\<lambda>b. b \<noteq> d) ys" for ys
      using False by (auto simp: takeWhile_append dropWhile_append)
    have "length (buf @ xs) + length (takeWhile (\<lambda>b. b \<noteq> d) (source_data es)) \<le> cap"
      using 4(3) unfolding xs(2) t by simp
    then show ?thesis
      using 4(1) [OF refl] False xs(3) unfolding xs(2) t read_until_capped.simps Let_def xs(1) [symmetric]
      by auto
  qed
qed (auto simp: sound_def)

lemma drain_newline:
  assumes "sound src" "lines_fit cap 0 (source_data src)"
  shows "drain (SNewline src False cap) = Ok (newline (source_data src))"
  using assms
proof (induction "source_size src" arbitrary: src rule: less_induct)
  case less
  let ?data = "source_data src" and ?line = "takeWhile (\<lambda>b. b \<noteq> 10) (source_data src)"
  let ?rest = "tl (dropWhile (\<lambda>b. b \<noteq> 10) ?data)"
  have fit: "length ?line \<le> cap" "10 \<in> set ?data \<Longrightarrow> lines_fit cap 0 ?rest"
    using lines_fit_split [OF less.prems(2)] by auto
  obtain src' where src': "sound src'"
    "if 10 \<in> set ?data
     then read_until_capped src 10 [] cap = (Inr (?line @ [10]), src') \<and> source_data src' = ?rest
     else read_until_capped src 10 [] cap = (Inr ?data, src') \<and> source_data src' = []"
    using read_until_sound [of src "[]" 10 cap] less.prems(1) fit(1) by auto
  show ?case
  proof (cases "10 \<in> set ?data")
    case True
    then have r: "read_until_capped src 10 [] cap = (Inr (?line @ [10]), src')" "source_data src' = ?rest"
      using src'(2) by auto
    have "drain (SNewline src' False cap) = Ok (newline ?rest)"
      using less.hyps [of src'] read_until_size [OF r(1)] src'(1) r(2) fit(2) [OF True] by auto
    then show ?thesis
      using r(1) True
      by (subst drain.simps) (simp add: newline_def newline_loop_split [of "[]" ?data])
  next
    case False
    then have "?data \<noteq> [] \<Longrightarrow> last ?data \<noteq> 10"
      using last_in_set [of ?data] by metis
    then have "drain (SNewline src False cap) = Ok (if ?data = [] then [] else [?data])"
      using src'(2) False
      by (subst drain.simps) (auto simp: drain.simps [of "SNewline _ True _"])
    then show ?thesis
      using False by (simp add: newline_def newline_loop_split [of "[]" ?data])
  qed
qed

lemma take_pieces:
  "take k xs @ take (k - length (take k xs)) (drop k xs @ ys) = take k (xs @ ys)"
  "drop (k - length (take k xs)) (drop k xs @ ys) = drop k (xs @ ys)"
  by (cases "k \<le> length xs"; simp)+

lemma read_full_sound:
  assumes "sound src" "length buf \<le> n"
  shows "\<exists>src'. sound src' \<and> read_full src buf n = (Inr (buf @ take (n - length buf) (source_data src)), src')
    \<and> source_data src' = drop (n - length buf) (source_data src)"
  using assms
proof (induction src buf n rule: read_full.induct)
  case (2 e es buf n)
  show ?case
  proof (cases "n \<le> length buf")
    case False
    show ?thesis
    proof (cases e)
      case (Piece b bs)
      let ?k = "n - length buf"
      have "length (buf @ take ?k (b # bs)) \<le> n"
        using 2(4) by simp
      then obtain src' where s: "sound src'" "read_full (push_back (drop ?k (b # bs)) es) (buf @ take ?k (b # bs)) n
            = (Inr ((buf @ take ?k (b # bs)) @ take (n - length (buf @ take ?k (b # bs)))
                  (source_data (push_back (drop ?k (b # bs)) es))), src')"
          "source_data src' = drop (n - length (buf @ take ?k (b # bs))) (source_data (push_back (drop ?k (b # bs)) es))"
        using 2(1) [OF False Piece refl] 2(3) Piece by auto
      show ?thesis
        using s Piece False take_pieces [of ?k "b # bs" "source_data es"]
        by (intro exI [of _ src'])
          (simp del: take_append drop_append length_take append_Cons take_Suc_Cons drop_Suc_Cons,
           simp only: append_Cons)
    qed (use 2 False in auto)
  qed (use 2 in auto)
qed auto

lemma drain_fixed:
  assumes "sound src" "0 < n"
  shows "drain (SFixed src n False) =
    (if length (source_data src) mod n = 0 then Ok (chunks n (source_data src))
     else Err (StreamErr (FixedPartial n (length (source_data src) mod n))))"
  using assms(1)
proof (induction "source_size src" arbitrary: src rule: less_induct)
  case less
  let ?data = "source_data src"
  obtain src' where r: "read_full src [] n = (Inr (take n ?data), src')" "sound src'" "source_data src' = drop n ?data"
    using read_full_sound [of src "[]" n] less.prems assms(2) by auto
  consider "?data = []" | "?data \<noteq> []" "length ?data < n" | "n \<le> length ?data"
    by linarith
  then show ?case
  proof cases
    case 1
    then show ?thesis
      using r assms(2) by (simp add: drain.simps)
  next
    case 2
    then show ?thesis
      using r by (simp add: drain.simps)
  next
    case 3
    then have ne: "take n ?data \<noteq> []" "?data \<noteq> []" "length (take n ?data) = n"
      using assms(2) by auto
    have "drain (SFixed src' n False) =
        (if (length ?data - n) mod n = 0 then Ok (chunks n (drop n ?data))
         else Err (StreamErr (FixedPartial n ((length ?data - n) mod n))))"
      using less.hyps [of src'] read_full_size [OF r(1)] r(2,3) ne by simp
    moreover have "(length ?data - n) mod n = length ?data mod n"
      using 3 by (simp add: le_mod_geq)
    ultimately show ?thesis
      using r(1) ne assms(2) by (subst drain.simps) (simp add: chunks.simps [of n ?data])
  qed
qed

lemma drain_buffered: "drain (SBuffered rs) = Ok rs"
  by (induction rs) (simp_all add: drain.simps)

lemma read_to_end_sound: "sound src \<Longrightarrow> read_to_end src = Inr (source_data src)"
  by (induction src rule: read_to_end.induct) (auto simp: sound_def)

section \<open>Limits\<close>

text \<open>The data before the first error.\<close>

fun delivered :: "source \<Rightarrow> bytes" where
  "delivered [] = []"
| "delivered (Piece b bs # es) = b # bs @ delivered es"
| "delivered (Intr # es) = delivered es"
| "delivered (Fail e # es) = []"

lemma limit_reader_delivered:
  "limit < U64_MAX \<Longrightarrow> so_far \<le> limit \<Longrightarrow> so_far + length (delivered (limit_reader limit so_far src)) \<le> limit"
proof (induction limit so_far src rule: limit_reader.induct)
  case (2 limit so_far b bs es)
  then show ?case
    by (cases "min U64_MAX (so_far + length (b # bs)) \<le> limit") (auto simp: Let_def min_def not_le split: if_splits)
qed auto

lemma limit_reader_prefix:
  "limit < U64_MAX \<Longrightarrow> so_far \<le> limit \<Longrightarrow>
   \<exists>rest. delivered src = delivered (limit_reader limit so_far src) @ rest
     \<and> (so_far + length (delivered src) \<le> limit \<longrightarrow> rest = [])"
proof (induction limit so_far src rule: limit_reader.induct)
  case (2 limit so_far b bs es)
  show ?case
  proof (cases "so_far + length (b # bs) \<le> limit")
    case True
    then have "min U64_MAX (so_far + length (b # bs)) = so_far + length (b # bs)"
      using 2(2) by simp
    then show ?thesis
      using 2(1) [OF refl] 2(2) True by (auto simp: Let_def)
  qed (use 2(2) in \<open>simp add: Let_def min_def\<close>)
qed auto

lemma limit_reader_id:
  "limit < U64_MAX \<Longrightarrow> so_far + length (source_data src) \<le> limit \<Longrightarrow> limit_reader limit so_far src = src"
  by (induction limit so_far src rule: limit_reader.induct) (auto simp: Let_def)

lemma labeled_reader_sound: "sound src \<Longrightarrow> labeled_reader label src = src"
  by (induction src) (auto simp: labeled_reader_def sound_def split: event.splits)

lemma takeWhile_less: "d \<in> set xs \<Longrightarrow> length (takeWhile (\<lambda>x. x \<noteq> d) xs) < length xs"
  by (induction xs) auto

lemma read_until_bound:
  "read_until_capped src d buf cap = (Inr out, src') \<Longrightarrow> length buf \<le> cap \<Longrightarrow>
   (\<And>b bs. Piece b bs \<in> set src \<Longrightarrow> length bs < piece) \<Longrightarrow> length out \<le> cap + piece"
proof (induction src d buf cap rule: read_until_capped.induct)
  case (4 b bs es d buf cap)
  have "length bs < piece" "\<And>b bs. Piece b bs \<in> set es \<Longrightarrow> length bs < piece"
    using 4(4) by auto
  moreover have "length (takeWhile (\<lambda>x. x \<noteq> d) (b # bs)) < length (b # bs)" if "d \<in> set (b # bs)"
    using takeWhile_less [OF that] .
  ultimately show ?case
    using 4 by (auto simp: Let_def split: if_splits)
qed auto

section \<open>Properties\<close>

definition streamed :: "source \<Rightarrow> framing \<Rightarrow> nat \<Rightarrow> nat \<Rightarrow> error + bytes list" where
  "streamed src m n cap = rbind (stream_new src m n cap) drain"

definition same_records :: "error + bytes list \<Rightarrow> error + bytes list \<Rightarrow> bool" where
  "same_records a b \<longleftrightarrow> (case a of Inl _ \<Rightarrow> (case b of Inl _ \<Rightarrow> True | Inr _ \<Rightarrow> False) | Inr rs \<Rightarrow> b = Inr rs)"

definition within_cap :: "framing \<Rightarrow> nat \<Rightarrow> nat \<Rightarrow> bytes \<Rightarrow> bool" where
  "within_cap m n cap data =
     (case m of Newline \<Rightarrow> lines_fit cap 0 data | Fixed \<Rightarrow> n \<le> cap | _ \<Rightarrow> True)"

lemma streamed_records:
  assumes "sound src" "within_cap m n cap (source_data src)"
  shows "same_records (records (source_data src) m n) (streamed src m n cap)"
proof (cases m)
  case Newline
  then show ?thesis
    using drain_newline assms
    by (simp add: same_records_def streamed_def records_def stream_new_def within_cap_def)
next
  case Fixed
  then show ?thesis
    using drain_fixed [of src n] assms
    by (simp add: same_records_def streamed_def records_def stream_new_def within_cap_def fixed_def)
next
  case Rdw
  then show ?thesis
    using read_to_end_sound [OF assms(1)]
    by (simp add: same_records_def streamed_def records_def stream_new_def read_error_def drain_buffered rbind_def
        split: sum.split)
next
  case RdwBlocked
  then show ?thesis
    using read_to_end_sound [OF assms(1)]
    by (simp add: same_records_def streamed_def records_def stream_new_def read_error_def drain_buffered rbind_def
        split: sum.split)
qed

text \<open>
  C7. However the bytes of an input arrive (in pieces of any size, with interruptions, without
  an I/O error), the stream yields the records that the slice framing yields on the whole input,
  in every mode, as long as lines and records are within the cap; and it fails exactly when the
  slice framing fails.
\<close>

theorem stream_equals_slices:
  assumes "sound src" "within_cap m n cap (source_data src)"
  shows "same_records (records (source_data src) m n) (streamed src m n cap)"
  using assms by (rule streamed_records)

theorem stream_equals_slices_witness:
  "streamed [Piece 65 [13], Intr, Piece 10 [66, 67]] Newline 0 2 = Ok [[65], [66, 67]]"
  using stream_equals_slices [of "[Piece 65 [13], Intr, Piece 10 [66, 67]]" Newline 0 2]
  by (simp add: within_cap_def sound_def same_records_def records_def newline_def strip_cr_byte_def)

text \<open>
  C34. Every item of a stream, record or error, consumes input, so reading ends; and after an
  error the stream is over.
\<close>

theorem stream_ends:
  "stream_next st = (Some r, st') \<Longrightarrow>
   state_size st' < state_size st \<and> ((\<exists>e. r = Err e) \<longrightarrow> fst (stream_next st') = None)"
  by (intro conjI stream_next_size, assumption)
    (cases st rule: stream_next.cases; auto split: if_splits sum.splits prod.splits)

theorem stream_ends_witness:
  "fst (stream_next (snd (stream_next (SFixed [Piece 1 [2, 3]] 2 False)))) \<noteq> None \<and>
   fst (stream_next (snd (stream_next (snd (stream_next (SFixed [Piece 1 [2, 3]] 2 False)))))) = None"
  using stream_ends [of "SFixed [Piece 3 []] 2 False" "Err (StreamErr (FixedPartial 2 1))" "SFixed [] 2 True"]
  by (simp add: push_back_def)

text \<open>
  C35. A decompressor never delivers more than the limit: what passes before the first error is
  a beginning of the decoder's output of at most \<open>limit\<close> bytes, and all of it when the output
  is no longer than that.
\<close>

theorem decompression_is_limited:
  assumes "limit < U64_MAX"
  shows "\<exists>rest. delivered src = delivered (limit_reader limit 0 src) @ rest
    \<and> length (delivered (limit_reader limit 0 src)) \<le> limit
    \<and> (length (delivered src) \<le> limit \<longrightarrow> rest = [])"
  using limit_reader_delivered [of limit 0 src] limit_reader_prefix [of limit 0 src] assms by auto

theorem decompression_is_limited_witness:
  "delivered (limit_reader 4 0 [Piece 1 [2], Intr, Piece 3 [4]]) = [1, 2, 3, 4]"
  using decompression_is_limited [of 4 "[Piece 1 [2], Intr, Piece 3 [4]]"] by (simp add: U64_MAX_def)

text \<open>
  A record of the newline stream is longer than the cap by less than one piece of the
  source, so a line without an end cannot grow the buffer further.
\<close>

theorem newline_record_bound:
  assumes "stream_next (SNewline src False cap) = (Some (Ok r), st')"
    and "\<And>b bs. Piece b bs \<in> set src \<Longrightarrow> length (b # bs) \<le> piece"
  shows "length r \<le> cap + piece"
proof -
  obtain out src' where o: "read_until_capped src 10 [] cap = (Inr out, src')" "length r \<le> length out"
    using assms(1) by (auto simp: strip_cr_byte_def split: if_splits sum.splits prod.splits)
  have "length out \<le> cap + piece"
    using read_until_bound [OF o(1)] assms(2) by (auto simp: less_eq_Suc_le)
  then show ?thesis
    using o(2) by simp
qed

theorem newline_record_bound_witness:
  "\<exists>r st'. stream_next (SNewline [Piece 1 [2, 3, 10]] False 2) = (Some (Ok r), st') \<and> 2 < length r \<and> length r \<le> 6"
  using newline_record_bound [of "[Piece 1 [2, 3, 10]]" 2 "[1, 2, 3]" "SNewline [] False 2" 4]
  by (simp add: push_back_def strip_cr_byte_def)

end
