(* ===== verification/Arrow.thy ===== *)
theory Arrow
  imports Encode Decode MultiRecord Describe
begin

text \<open>
  The bridge to Arrow: the output type of a layout and the arrays built from decoded columns
  (\<open>arrow_map.rs\<close>), and reading an element of an input array (\<open>value_in.rs\<close>). An Arrow array is
  its type with what the code hands to the builders and constructors: the appended cells
  (\<open>None\<close> is \<open>append_null\<close>), the offsets and validity of a list, the children and validity of a
  struct. Whether Arrow accepts a precision and a scale for a decimal array
  (\<open>with_precision_and_scale\<close>) is the parameter \<open>ar\<close>.
\<close>

section \<open>Types and arrays\<close>

datatype (plugins only: code size) data_type =
    TUtf8
  | TLargeUtf8
  | TBoolean
  | TInt nat
  | TUInt nat
  | TFloat32
  | TFloat64
  | TDecimal128 nat int
  | TDate32
  | TTime64Micro
  | TTimestampMicro "rstr option"
  | TNull
  | TList afield
  | TStruct "afield list"
and afield = AField (af_name: rstr) (af_type: data_type) (af_nullable: bool)

datatype (plugins only: code size) cell =
    CText rstr
  | CInt int
  | CF32 "32 word"
  | CF64 f64
  | CBool bool

datatype (plugins only: code size) arr =
    APrim data_type "cell option list"
  | AList afield "int list" arr "bool list"
  | AStruct "afield list" "arr list" "bool list"

datatype (plugins only: code size) arrow_error =
    PrecisionTooBig nat
  | ExpectedValue rstr fval
  | UnsupportedOutput data_type
  | UnsupportedInput data_type
  | DecimalRejected nat int
  | TypeIdUnknown "8 word"
  | VariantNotStruct rstr fval
  | ArrowPanic string
  | BatchRefused rstr

text \<open>
  What the builders ask of Arrow: whether it has decimals of a precision and a scale
  (\<open>with_precision_and_scale\<close>), and why it refuses columns as a batch of a schema, if it does
  (\<open>RecordBatch::try_new\<close>).
\<close>

record arrow_lib =
  al_decimal :: "nat \<Rightarrow> int \<Rightarrow> bool"
  al_batch :: "afield list \<Rightarrow> arr list \<Rightarrow> rstr option"

section \<open>The type of a layout\<close>

definition MAX_DECIMAL_PRECISION :: nat where
  "MAX_DECIMAL_PRECISION = 38"

definition as_i8 :: "nat \<Rightarrow> int" where
  "as_i8 n = (int n + 2 ^ 7) mod 2 ^ 8 - 2 ^ 7"

definition as_u8 :: "int \<Rightarrow> nat" where
  "as_u8 n = nat (n mod 2 ^ 8)"

function (sequential)
    base_type :: "field \<Rightarrow> arrow_error + data_type"
and arrow_field :: "field \<Rightarrow> arrow_error + afield"
and arrow_fields :: "field list \<Rightarrow> arrow_error + afield list"
where
  "base_type f =
     (case f_kind f of
        KText _ _ _ \<Rightarrow> Inr TUtf8
      | KHex _ \<Rightarrow> Inr TUtf8
      | KInt _ _ \<Rightarrow> Inr (TInt 64)
      | KBinary _ _ \<Rightarrow> Inr (TInt 64)
      | KFloat bits _ \<Rightarrow> Inr (if bits = 64 then TFloat64 else TFloat32)
      | KBool \<Rightarrow> Inr TBoolean
      | KPad _ \<Rightarrow> Inr TNull
      | KDecimal precision scale _ _ \<Rightarrow>
          if precision > MAX_DECIMAL_PRECISION then Inl (PrecisionTooBig precision)
          else Inr (TDecimal128 (max precision 1) (as_i8 scale))
      | KEdited precision scale _ _ \<Rightarrow>
          if precision > MAX_DECIMAL_PRECISION then Inl (PrecisionTooBig precision)
          else Inr (TDecimal128 (max precision 1) (as_i8 scale))
      | KGroup children \<Rightarrow> rmap_value TStruct (arrow_fields children)
      | KDateTime kind _ \<Rightarrow>
          Inr (case kind of DDate \<Rightarrow> TDate32 | DTime \<Rightarrow> TTime64Micro | DTimestamp \<Rightarrow> TTimestampMicro None))"
| "arrow_field f =
     rbind (base_type f) (\<lambda>base.
     Inr (AField (f_name f)
       (if f_occurs f \<noteq> None \<or> f_depending_on f \<noteq> None then TList (AField (lit ''item'') base True) else base)
       True))"
| "arrow_fields [] = Inr []"
| "arrow_fields (f # fs) =
     (if is_pad f then arrow_fields fs
      else rbind (arrow_field f) (\<lambda>a. rbind (arrow_fields fs) (\<lambda>as. Inr (a # as))))"
  by pat_completeness auto
termination
  by (relation "measures [\<lambda>x. (case x of
         Inl f \<Rightarrow> size f
       | Inr (Inl f) \<Rightarrow> size f
       | Inr (Inr fs) \<Rightarrow> size_list size fs),
     \<lambda>x. (case x of Inl f \<Rightarrow> 0 | Inr (Inl f) \<Rightarrow> 1 | Inr (Inr fs) \<Rightarrow> 2)]")
    (auto simp: size_children)

declare base_type.simps [simp del] arrow_field.simps [simp del]

definition layout_fields :: "layout \<Rightarrow> arrow_error + afield list" where
  "layout_fields l = arrow_fields (l_fields l)"

definition layout_struct_type :: "layout \<Rightarrow> arrow_error + data_type" where
  "layout_struct_type l = rmap_value TStruct (layout_fields l)"

section \<open>Building arrays\<close>

definition int_to_f32 :: "int \<Rightarrow> 32 word" where
  "int_to_f32 i = word_of_nat ((if i < 0 then 2 ^ 31 else 0) + round_float 23 149 f32_top (nat \<bar>i\<bar>) 1)"

definition scalar_text :: "fval \<Rightarrow> rstr" where
  "scalar_text v =
     (case v of
        VText s \<Rightarrow> s
      | VInt i \<Rightarrow> int_str i
      | VFloat f \<Rightarrow> f64_string f
      | VBool b \<Rightarrow> if b then lit ''true'' else lit ''false''
      | VDecimal unscaled scale \<Rightarrow> decimal_string unscaled scale
      | _ \<Rightarrow> [])"

definition rescale_i128 :: "int \<Rightarrow> nat \<Rightarrow> nat \<Rightarrow> arrow_error + int" where
  "rescale_i128 unscaled src dst =
     (if src = dst then Inr unscaled
      else if src < dst then Inr (wrap_i128 (unscaled * wrap_i128 (10 ^ (dst - src))))
      else
        let d = wrap_i128 (10 ^ (src - dst)) in
        if d = 0 then Inl (ArrowPanic ''attempt to divide by zero'') else Inr (unscaled sdiv d))"

text \<open>The cell appended for a value to the builder of a type that is neither list nor struct.\<close>

definition cell_of :: "data_type \<Rightarrow> fval \<Rightarrow> arrow_error + cell option" where
  "cell_of dt v =
     (if v = VNull then Inr None
      else case dt of
        TUtf8 \<Rightarrow> Inr (Some (CText (case v of VText s \<Rightarrow> s | _ \<Rightarrow> scalar_text v)))
      | TInt bits \<Rightarrow>
          (case v of
             VInt i \<Rightarrow> Inr (Some (CInt i))
           | VDecimal unscaled scale \<Rightarrow>
               if scale = 0 then Inr (Some (CInt (wrap_i64 unscaled))) else Inl (ExpectedValue (lit ''int'') v)
           | _ \<Rightarrow> Inl (ExpectedValue (lit ''int'') v))
      | TFloat64 \<Rightarrow>
          (case v of
             VFloat f \<Rightarrow> Inr (Some (CF64 f))
           | VInt i \<Rightarrow> Inr (Some (CF64 (int_to_f64 i)))
           | _ \<Rightarrow> Inl (ExpectedValue (lit ''float'') v))
      | TFloat32 \<Rightarrow>
          (case v of
             VFloat f \<Rightarrow> Inr (Some (CF32 (f64_to_f32 f)))
           | VInt i \<Rightarrow> Inr (Some (CF32 (int_to_f32 i)))
           | _ \<Rightarrow> Inl (ExpectedValue (lit ''float'') v))
      | TBoolean \<Rightarrow> (case v of VBool b \<Rightarrow> Inr (Some (CBool b)) | _ \<Rightarrow> Inl (ExpectedValue (lit ''bool'') v))
      | TDecimal128 p s \<Rightarrow>
          (case v of
             VDecimal unscaled scale \<Rightarrow> rmap_value (\<lambda>u. Some (CInt u)) (rescale_i128 unscaled scale (as_u8 s))
           | VInt i \<Rightarrow> rmap_value (\<lambda>u. Some (CInt u)) (rescale_i128 i 0 (as_u8 s))
           | _ \<Rightarrow> Inl (ExpectedValue (lit ''decimal'') v))
      | TDate32 \<Rightarrow> (case v of VDate d \<Rightarrow> Inr (Some (CInt d)) | _ \<Rightarrow> Inl (ExpectedValue (lit ''date'') v))
      | TTime64Micro \<Rightarrow> (case v of VTime t \<Rightarrow> Inr (Some (CInt t)) | _ \<Rightarrow> Inl (ExpectedValue (lit ''time'') v))
      | TTimestampMicro tz \<Rightarrow>
          (case v of VTimestamp t \<Rightarrow> Inr (Some (CInt t)) | _ \<Rightarrow> Inl (ExpectedValue (lit ''timestamp'') v))
      | _ \<Rightarrow> Inl (UnsupportedOutput dt))"

definition output_type :: "data_type \<Rightarrow> bool" where
  "output_type dt = (case dt of TUtf8 \<Rightarrow> True | TInt bits \<Rightarrow> bits = 64 | TFloat32 \<Rightarrow> True | TFloat64 \<Rightarrow> True
     | TBoolean \<Rightarrow> True | TDecimal128 p s \<Rightarrow> True | TDate32 \<Rightarrow> True | TTime64Micro \<Rightarrow> True
     | TTimestampMicro tz \<Rightarrow> tz = None | _ \<Rightarrow> False)"

text \<open>\<open>build_list\<close>: the flat items, the offsets (the running total \<open>acc\<close> is an \<open>i32\<close>) and the validity.\<close>

fun list_parts :: "int \<Rightarrow> fval list \<Rightarrow> arrow_error + (fval list \<times> int list \<times> bool list)" where
  "list_parts acc [] = Inr ([], [], [])"
| "list_parts acc (v # col) =
     (case v of
        VList items \<Rightarrow>
          let acc = wrap_i32 (acc + wrap_i32 (int (length items))) in
          rbind (list_parts acc col) (\<lambda>(flat, offsets, valid). Inr (items @ flat, acc # offsets, True # valid))
      | VNull \<Rightarrow>
          rbind (list_parts acc col) (\<lambda>(flat, offsets, valid). Inr (flat, acc # offsets, False # valid))
      | _ \<Rightarrow> Inl (ExpectedValue (lit ''list'') v))"

text \<open>\<open>build_struct\<close>: the row of child values of each struct, and the validity.\<close>

definition struct_child :: "pairs \<Rightarrow> rstr \<Rightarrow> fval" where
  "struct_child pairs name =
     (case find (\<lambda>(n, _). eq_ignore_ascii_case n name) pairs of Some (_, v) \<Rightarrow> v | None \<Rightarrow> VNull)"

definition struct_row :: "afield list \<Rightarrow> fval \<Rightarrow> arrow_error + (fval list \<times> bool)" where
  "struct_row fs v =
     (case v of
        VStruct pairs \<Rightarrow> Inr (map (\<lambda>f. struct_child pairs (af_name f)) fs, True)
      | VNull \<Rightarrow> Inr (map (\<lambda>_. VNull) fs, False)
      | _ \<Rightarrow> Inl (ExpectedValue (lit ''struct'') v))"

lemma size_af_type: "size (af_type a) < size a"
  by (cases a) simp

lemma size_af_type_le [termination_simp]: "size (af_type a) < Suc (size a)" "size (af_type a) \<le> Suc (size a)"
  using size_af_type [of a] by linarith+

lemma size_af_member [termination_simp]:
  "a \<in> set fs \<Longrightarrow> size (af_type a) < Suc (size_list size fs)"
  using size_af_type [of a] size_list_estimation' [of a fs "size a" size] by linarith

function (sequential)
    build_array :: "arrow_lib \<Rightarrow> data_type \<Rightarrow> fval list \<Rightarrow> arrow_error + arr"
and build_children :: "arrow_lib \<Rightarrow> afield list \<Rightarrow> fval list list \<Rightarrow> arrow_error + arr list"
where
  "build_array ar (TList item) col =
     rbind (list_parts 0 col) (\<lambda>(flat, offsets, valid).
     rbind (build_array ar (af_type item) flat) (\<lambda>child.
     if sorted (0 # offsets) then Inr (AList item (0 # offsets) child valid)
     else Inl (ArrowPanic ''offsets must be monotonically increasing'')))"
| "build_array ar (TStruct fs) col =
     rbind (rmap (struct_row fs) col) (\<lambda>rows.
     rbind (build_children ar fs (map (\<lambda>i. map (\<lambda>r. fst r ! i) rows) [0..<length fs])) (\<lambda>arrays.
     if fs = [] then Inl (ArrowPanic ''no field gives the length of the struct array'')
     else Inr (AStruct fs arrays (map snd rows))))"
| "build_array ar (TDecimal128 p s) col =
     rbind (rmap (cell_of (TDecimal128 p s)) col) (\<lambda>cells.
     if al_decimal ar p s then Inr (APrim (TDecimal128 p s) cells) else Inl (DecimalRejected p s))"
| "build_array ar dt col =
     (if output_type dt then rmap_value (APrim dt) (rmap (cell_of dt) col) else Inl (UnsupportedOutput dt))"
| "build_children ar (f # fs) (c # cs) =
     rbind (build_array ar (af_type f) c) (\<lambda>a. rbind (build_children ar fs cs) (\<lambda>as. Inr (a # as)))"
| "build_children ar fs cs = Inr []"
  by pat_completeness auto
termination
  by (relation "measure (\<lambda>x. case x of Inl (_, dt, _) \<Rightarrow> size dt | Inr (_, fs, _) \<Rightarrow> size_list size fs)")
    (auto simp: size_af_type less_Suc_eq less_add_Suc1 trans_less_add1)

section \<open>Reading elements\<close>

definition prim_value :: "data_type \<Rightarrow> cell \<Rightarrow> arrow_error + fval" where
  "prim_value dt x =
     (case x of
        CText s \<Rightarrow>
          (case dt of TUtf8 \<Rightarrow> Inr (VText s) | TLargeUtf8 \<Rightarrow> Inr (VText s) | _ \<Rightarrow> Inl (UnsupportedInput dt))
      | CBool b \<Rightarrow> (case dt of TBoolean \<Rightarrow> Inr (VBool b) | _ \<Rightarrow> Inl (UnsupportedInput dt))
      | CF32 w \<Rightarrow> (case dt of TFloat32 \<Rightarrow> Inr (VFloat (f32_to_f64 w)) | _ \<Rightarrow> Inl (UnsupportedInput dt))
      | CF64 f \<Rightarrow> (case dt of TFloat64 \<Rightarrow> Inr (VFloat f) | _ \<Rightarrow> Inl (UnsupportedInput dt))
      | CInt i \<Rightarrow>
          (case dt of
             TInt bits \<Rightarrow> Inr (VInt i)
           | TUInt bits \<Rightarrow> Inr (VInt (wrap_i64 i))
           | TDecimal128 p s \<Rightarrow> Inr (VDecimal i (nat (max s 0)))
           | TDate32 \<Rightarrow> Inr (VDate i)
           | TTime64Micro \<Rightarrow> Inr (VTime i)
           | TTimestampMicro tz \<Rightarrow> Inr (VTimestamp i)
           | _ \<Rightarrow> Inl (UnsupportedInput dt)))"

fun value_at :: "arr \<Rightarrow> nat \<Rightarrow> arrow_error + fval" where
  "value_at (APrim dt cells) row =
     (case cells ! row of None \<Rightarrow> Inr VNull | Some x \<Rightarrow> prim_value dt x)"
| "value_at (AList item offsets child valid) row =
     (if \<not> valid ! row then Inr VNull
      else rmap_value VList (rmap (value_at child) [nat (offsets ! row)..<nat (offsets ! (row + 1))]))"
| "value_at (AStruct fs arrays valid) row =
     (if \<not> valid ! row then Inr VNull
      else rmap_value (\<lambda>vs. VStruct (zip (map af_name fs) vs)) (rmap (\<lambda>a. value_at a row) arrays))"

section \<open>Values of a type\<close>

text \<open>
  The decoded values that belong to an Arrow type, with a condition \<open>p\<close> on the decimals and on
  the floats of a 32-bit column.
\<close>

function (sequential)
    fits :: "(data_type \<Rightarrow> fval \<Rightarrow> bool) \<Rightarrow> data_type \<Rightarrow> fval \<Rightarrow> bool"
and fits_all :: "(data_type \<Rightarrow> fval \<Rightarrow> bool) \<Rightarrow> data_type \<Rightarrow> fval list \<Rightarrow> bool"
and fits_row :: "(data_type \<Rightarrow> fval \<Rightarrow> bool) \<Rightarrow> afield list \<Rightarrow> pairs \<Rightarrow> bool"
where
  "fits p dt v =
     (case v of
        VNull \<Rightarrow> True
      | VText s \<Rightarrow> dt = TUtf8
      | VInt i \<Rightarrow> (case dt of TInt bits \<Rightarrow> True | _ \<Rightarrow> False)
      | VFloat x \<Rightarrow> dt = TFloat64 \<or> dt = TFloat32 \<and> p dt v
      | VBool b \<Rightarrow> dt = TBoolean
      | VDecimal u scale \<Rightarrow> (case dt of TDecimal128 pr sc \<Rightarrow> p dt v | _ \<Rightarrow> False)
      | VDate d \<Rightarrow> dt = TDate32
      | VTime t \<Rightarrow> dt = TTime64Micro
      | VTimestamp t \<Rightarrow> (case dt of TTimestampMicro tz \<Rightarrow> True | _ \<Rightarrow> False)
      | VList vs \<Rightarrow> (case dt of TList item \<Rightarrow> fits_all p (af_type item) vs | _ \<Rightarrow> False)
      | VStruct ps \<Rightarrow> (case dt of TStruct fs \<Rightarrow> fits_row p fs ps | _ \<Rightarrow> False))"
| "fits_all p dt [] = True"
| "fits_all p dt (v # vs) = (fits p dt v \<and> fits_all p dt vs)"
| "fits_row p [] [] = True"
| "fits_row p (f # fs) ((n, v) # ps) = (n = af_name f \<and> fits p (af_type f) v \<and> fits_row p fs ps)"
| "fits_row p fs ps = False"
  by pat_completeness auto
termination
  by (relation "measure (\<lambda>x. case x of Inl (_, _, v) \<Rightarrow> size v
       | Inr (Inl (_, _, vs)) \<Rightarrow> size_list size vs
       | Inr (Inr (_, _, ps)) \<Rightarrow> size_list (size_prod (\<lambda>_. 0) size) ps)")
    auto

declare fits.simps [simp del]

lemma fits_cases [simp]:
  "fits p dt VNull"
  "fits p dt (VText s) \<longleftrightarrow> dt = TUtf8"
  "fits p dt (VInt i) \<longleftrightarrow> (\<exists>bits. dt = TInt bits)"
  "fits p dt (VFloat x) \<longleftrightarrow> dt = TFloat64 \<or> dt = TFloat32 \<and> p dt (VFloat x)"
  "fits p dt (VBool b) \<longleftrightarrow> dt = TBoolean"
  "fits p dt (VDecimal u scale) \<longleftrightarrow> (\<exists>pr sc. dt = TDecimal128 pr sc \<and> p dt (VDecimal u scale))"
  "fits p dt (VDate d) \<longleftrightarrow> dt = TDate32"
  "fits p dt (VTime d) \<longleftrightarrow> dt = TTime64Micro"
  "fits p dt (VTimestamp d) \<longleftrightarrow> (\<exists>tz. dt = TTimestampMicro tz)"
  "fits p dt (VList vs) \<longleftrightarrow> (\<exists>item. dt = TList item \<and> fits_all p (af_type item) vs)"
  "fits p dt (VStruct ps) \<longleftrightarrow> (\<exists>fs. dt = TStruct fs \<and> fits_row p fs ps)"
  by (cases dt; simp add: fits.simps)+

lemma fits_all_iff: "fits_all p dt vs \<longleftrightarrow> (\<forall>v \<in> set vs. fits p dt v)"
  by (induction vs) auto

lemma fits_row_iff:
  "fits_row p fs ps \<longleftrightarrow> length fs = length ps \<and>
     (\<forall>i < length ps. fst (ps ! i) = af_name (fs ! i) \<and> fits p (af_type (fs ! i)) (snd (ps ! i)))"
proof (induction fs arbitrary: ps)
  case (Cons f fs)
  then show ?case
    by (cases ps) (auto simp: nth_Cons less_Suc_eq_0_disj split: nat.split prod.splits)
qed (case_tac ps; simp)

text \<open>
  The types that the builders can store without loss: a struct has members, no two of them with
  names that are equal up to case, and Arrow accepts the precision and scale of decimals.
\<close>

fun storable :: "arrow_lib \<Rightarrow> data_type \<Rightarrow> bool" where
  "storable ar (TDecimal128 p s) = al_decimal ar p s"
| "storable ar (TList item) = storable ar (af_type item)"
| "storable ar (TStruct fs) =
     (fs \<noteq> [] \<and> distinct (map (\<lambda>f. to_ascii_lowercase (af_name f)) fs) \<and> (\<forall>f \<in> set fs. storable ar (af_type f)))"
| "storable ar dt = output_type dt"

text \<open>The number of list items in a value, at all depths.\<close>

fun item_count :: "fval \<Rightarrow> nat" where
  "item_count (VList vs) = length vs + sum_list (map item_count vs)"
| "item_count (VStruct ps) = sum_list (map (\<lambda>p. item_count (snd p)) ps)"
| "item_count v = 0"

section \<open>Decoded records have the type of their layout\<close>

text \<open>The scale of a value is the one of the type, up to the width of a byte.\<close>

definition same_scale :: "data_type \<Rightarrow> fval \<Rightarrow> bool" where
  "same_scale dt v =
     (case dt of
        TDecimal128 p s \<Rightarrow> (case v of VDecimal u scale \<Rightarrow> int scale mod 2 ^ 8 = s mod 2 ^ 8 | _ \<Rightarrow> True)
      | _ \<Rightarrow> True)"

lemma as_i8_mod: "as_i8 n mod 256 = int n mod 256"
  by (simp add: as_i8_def mod_simps)

text \<open>Decimals of which the scale is the one of the type, where it fits a byte as in the code.\<close>

definition own_scale :: "data_type \<Rightarrow> fval \<Rightarrow> bool" where
  "own_scale dt v =
     (case dt of
        TDecimal128 p s \<Rightarrow> (case v of VDecimal u scale \<Rightarrow> scale = as_u8 s | _ \<Rightarrow> True)
      | _ \<Rightarrow> True)"

fun byte_scales :: "field \<Rightarrow> bool" where
  "byte_scales (Field nm off w k occ dep red) =
     (case k of KDecimal p s _ _ \<Rightarrow> s < 256 | KEdited p s _ _ \<Rightarrow> s < 256 | KGroup fs \<Rightarrow> list_all byte_scales fs | _ \<Rightarrow> True)"

lemma byte_scales_sel:
  "byte_scales f \<longleftrightarrow> (case f_kind f of KDecimal p s _ _ \<Rightarrow> s < 256 | KEdited p s _ _ \<Rightarrow> s < 256
     | KGroup fs \<Rightarrow> list_all byte_scales fs | _ \<Rightarrow> True)"
  by (cases f) (simp split: field_kind.split)

lemma as_u8_i8: "n < 256 \<Longrightarrow> as_u8 (as_i8 n) = n"
  using as_i8_mod [of n] by (simp add: as_u8_def)

lemma decode_leaf_fits:
  assumes "base_type f = Inr dt" "decode_leaf c f s enc = Ok v" "\<forall>cs. f_kind f \<noteq> KGroup cs"
  shows "fits same_scale dt v" "byte_scales f \<Longrightarrow> fits own_scale dt v"
proof -
  have "fits same_scale dt v \<and> (byte_scales f \<longrightarrow> fits own_scale dt v)"
  proof (cases "f_kind f")
    case (KDateTime kind fmt)
    then show ?thesis
      using assms by (cases kind) (auto simp: base_type.simps decode_leaf_def datetime_parse_def Let_def)
  qed (use assms in \<open>auto simp: base_type.simps decode_leaf_def same_scale_def own_scale_def byte_scales_sel as_i8_mod as_u8_i8 Let_def
      split: if_splits\<close>)
  then show "fits same_scale dt v" "byte_scales f \<Longrightarrow> fits own_scale dt v"
    by simp_all
qed

lemma decode_types:
  assumes leaf: "\<And>f s v dt. ok f \<Longrightarrow> base_type f = Inr dt \<Longrightarrow> decode_leaf c f s enc = Ok v \<Longrightarrow> \<forall>cs. f_kind f \<noteq> KGroup cs \<Longrightarrow> fits p dt v"
    and children: "\<And>f cs. ok f \<Longrightarrow> f_kind f = KGroup cs \<Longrightarrow> list_all ok cs"
  shows
    "decode_fields c bs enc fs base shift fin sc = Ok (ps, fin', sc') \<Longrightarrow> arrow_fields fs = Inr as \<Longrightarrow> list_all ok fs \<Longrightarrow>
       fits_row p as ps"
    "decode_field c bs enc f pos sc = Ok (v, n, sc') \<Longrightarrow> arrow_field f = Inr a \<Longrightarrow> ok f \<Longrightarrow>
       fits p (af_type a) v \<and> af_name a = f_name f"
    "decode_items c bs enc f m k cursor sc = Ok (vs, n, sc') \<Longrightarrow> base_type f = Inr dt \<Longrightarrow> ok f \<Longrightarrow>
       fits_all p dt vs"
    "decode_one c bs enc f pos sc = Ok (v, n, sc') \<Longrightarrow> base_type f = Inr dt \<Longrightarrow> ok f \<Longrightarrow>
       fits p dt v"
  using leaf children
proof (induction c bs enc fs base shift fin sc and c bs enc f pos sc and c bs enc f m k cursor sc and c bs enc f pos sc
    arbitrary: ps fin' sc' as and v n sc' a and vs n sc' dt and v n sc' dt
    rule: decode_fields_decode_field_decode_items_decode_one.induct)
  case (2 c bs enc f fs base shift fin sc)
  then show ?case
    by (auto simp: Let_def split: if_splits)
next
  case (3 c bs enc f pos sc)
  obtain base where base: "base_type f = Inr base"
    "a = AField (f_name f) (if f_occurs f \<noteq> None \<or> f_depending_on f \<noteq> None then TList (AField (lit ''item'') base True) else base) True"
    using 3(4) by (auto simp: arrow_field.simps)
  obtain count where count: "decode_count f sc = Ok count"
    using 3(3) by auto
  have "count = None \<longleftrightarrow> f_occurs f = None \<and> f_depending_on f = None"
    using count by (auto simp: decode_count_def split: option.splits if_splits)
  then show ?case
    using 3 base count by (cases count) auto
next
  case (6 c bs enc f pos sc)
  show ?case
  proof (cases "\<exists>cs. f_kind f = KGroup cs")
    case True
    then show ?thesis
      using 6 by (auto simp: base_type.simps)
  next
    case False
    then show ?thesis
      using 6(2-5) by (auto split: field_kind.splits)
  qed
qed (auto split: if_splits)

lemma decode_record_fits:
  assumes "decode_record c l bs enc = Ok vs" "layout_fields l = Inr as"
  shows "fits_row same_scale as vs" "list_all byte_scales (l_fields l) \<Longrightarrow> fits_row own_scale as vs"
proof -
  obtain fin sc where d: "decode_fields c bs enc (l_fields l) 0 0 0 Map.empty = Ok (vs, fin, sc)"
    using assms(1) by (auto simp: decode_record_def decode_seq_def)
  show "fits_row same_scale as vs"
    by (rule decode_types(1) [where ok = "\<lambda>_. True", OF _ _ d assms(2) [unfolded layout_fields_def]])
      (use decode_leaf_fits(1) in \<open>auto simp: list_all_iff\<close>)
  show "fits_row own_scale as vs" if "list_all byte_scales (l_fields l)"
    by (rule decode_types(1) [where ok = byte_scales, OF _ _ d assms(2) [unfolded layout_fields_def] that])
      (use decode_leaf_fits(2) in \<open>auto simp: byte_scales_sel [of "_ :: field"]\<close>)
qed

section \<open>What is built reads back\<close>

definition lossless :: "data_type \<Rightarrow> fval \<Rightarrow> bool" where
  "lossless dt v =
     (case v of
        VFloat x \<Rightarrow> dt = TFloat32 \<longrightarrow> f32_to_f64 (f64_to_f32 x) = x
      | VDecimal u scale \<Rightarrow> (case dt of TDecimal128 p s \<Rightarrow> int scale = s \<and> s < 2 ^ 7 | _ \<Rightarrow> True)
      | _ \<Rightarrow> True)"

lemma cell_reads_back:
  "output_type dt \<Longrightarrow> fits lossless dt v \<Longrightarrow>
   \<exists>x. cell_of dt v = Inr x \<and> (case x of None \<Rightarrow> Inr VNull | Some y \<Rightarrow> prim_value dt y) = Inr v"
  by (cases v)
    (auto simp: cell_of_def prim_value_def output_type_def lossless_def rescale_i128_def as_u8_def)

definition list_items :: "fval \<Rightarrow> fval list" where
  "list_items v = (case v of VList vs \<Rightarrow> vs | _ \<Rightarrow> [])"

lemma list_items_simps [simp]: "list_items (VList vs) = vs" "list_items VNull = []"
  by (simp_all add: list_items_def)

definition starts :: "fval list \<Rightarrow> nat \<Rightarrow> nat" where
  "starts col i = sum_list (map (length \<circ> list_items) (take i col))"

lemma starts_simps [simp]:
  "starts col 0 = 0" "starts (v # col) (Suc i) = length (list_items v) + starts col i" "starts [] i = 0"
  by (simp_all add: starts_def)

lemma list_parts_fits:
  "fits_all P (TList item) col \<Longrightarrow> int acc + int (starts col (length col)) < 2 ^ 31 \<Longrightarrow>
   list_parts (int acc) col = Inr (concat (map list_items col),
     map (\<lambda>i. int (acc + starts col (Suc i))) [0..<length col], map (\<lambda>v. v \<noteq> VNull) col)"
proof (induction col arbitrary: acc)
  case (Cons v col)
  have split: "[0..<length (v # col)] = 0 # map Suc [0..<length col]"
    by (simp add: map_Suc_upt upt_conv_Cons del: upt_Suc)
  have "list_parts (int (acc + length (list_items v))) col = Inr (concat (map list_items col),
     map (\<lambda>i. int (acc + length (list_items v) + starts col (Suc i))) [0..<length col], map (\<lambda>v. v \<noteq> VNull) col)"
    using Cons.prems by (intro Cons.IH) simp_all
  moreover have "wrap_i32 (int acc + wrap_i32 (int (length (list_items v)))) = int (acc + length (list_items v))"
    using Cons.prems(2) by (simp add: wrap_i32_def)
  ultimately show ?case
    using Cons.prems(1) unfolding split
    by (cases v) (auto simp: Let_def)
qed simp

lemma concat_segment:
  "i < length col \<Longrightarrow> map ((!) (concat (map list_items col))) [starts col i..<starts col (Suc i)] = list_items (col ! i)"
proof (induction col arbitrary: i)
  case (Cons v col)
  show ?case
  proof (cases i)
    case 0
    then show ?thesis
      by (auto intro!: nth_equalityI simp: nth_append)
  next
    case (Suc k)
    have "map ((!) (concat (map list_items (v # col)))) [starts (v # col) i..<starts (v # col) (Suc i)]
        = map ((!) (concat (map list_items col))) [starts col k..<starts col (Suc k)]"
      unfolding Suc by (rule nth_equalityI) (simp_all add: nth_append)
    then show ?thesis
      using Cons Suc by simp
  qed
qed simp

lemma starts_mono: "i \<le> j \<Longrightarrow> starts col i \<le> starts col j"
  unfolding starts_def by (metis le_add1 map_append sum_list_append take_add le_Suc_ex)

lemma starts_total: "starts col (length col) = length (concat (map list_items col))"
  by (induction col) simp_all

lemma item_count_concat:
  "starts col (length col) + sum_list (map item_count (concat (map list_items col))) \<le> sum_list (map item_count col)"
proof (induction col)
  case (Cons v col)
  then show ?case
    by (cases v) (simp_all add: list_items_def)
qed simp

lemma list_reads_back:
  assumes "i < length col" "fits_all P (TList item) col"
    "\<And>k. k < length (concat (map list_items col)) \<Longrightarrow> value_at child k = Inr (concat (map list_items col) ! k)"
  shows "value_at (AList item (0 # map (\<lambda>i. int (starts col (Suc i))) [0..<length col]) child
      (map (\<lambda>v. v \<noteq> VNull) col)) i = Inr (col ! i)"
proof -
  have "(0 # map (\<lambda>i. int (starts col (Suc i))) [0..<length col]) ! i = int (starts col i)"
    using assms(1) by (cases i) simp_all
  moreover have "rmap (value_at child) [starts col i..<starts col (Suc i)] = Inr (list_items (col ! i))"
  proof -
    have "starts col (Suc i) \<le> length (concat (map list_items col))"
      using starts_mono [of "Suc i" "length col" col] assms(1) by (simp add: starts_total)
    then show ?thesis
      using assms(1,3) by (subst rmap_eq_map [where g = "(!) (concat (map list_items col))"]) (auto simp: concat_segment)
  qed
  moreover have "fits P (TList item) (col ! i)"
    using assms(1,2) by (simp add: fits_all_iff)
  ultimately show ?thesis
    using assms(1) by (cases "col ! i") (simp_all add: list_items_def)
qed

text \<open>The column of the \<open>i\<close>-th member of a column of structs.\<close>

definition member_column :: "nat \<Rightarrow> fval list \<Rightarrow> fval list" where
  "member_column i col = map (\<lambda>v. case v of VStruct ps \<Rightarrow> snd (ps ! i) | _ \<Rightarrow> VNull) col"

lemma struct_child_own:
  assumes "fits_row P fs ps" "distinct (map (\<lambda>f. to_ascii_lowercase (af_name f)) fs)" "i < length fs"
  shows "struct_child ps (af_name (fs ! i)) = snd (ps ! i)"
  using assms
proof (induction fs arbitrary: ps i)
  case (Cons f fs)
  then obtain n v ps' where ps: "ps = (n, v) # ps'" "n = af_name f" "fits_row P fs ps'"
    by (cases ps) auto
  show ?case
  proof (cases i)
    case (Suc k)
    then have "fs ! k \<in> set fs"
      using Cons.prems(3) by simp
    then have "\<not> eq_ignore_ascii_case n (af_name (fs ! k))"
      using Cons.prems(2) ps(2) by (auto simp: eq_ignore_ascii_case_def)
    then show ?thesis
      using Cons.IH [OF ps(3), of k] Cons.prems(2,3) ps(1) Suc by (simp add: struct_child_def)
  qed (simp add: ps struct_child_def)
qed simp

lemma struct_rows:
  assumes "fits_all P (TStruct fs) col" "distinct (map (\<lambda>f. to_ascii_lowercase (af_name f)) fs)"
  shows "rmap (struct_row fs) col = Inr (map (\<lambda>v. (map (\<lambda>i. case v of VStruct ps \<Rightarrow> snd (ps ! i) | _ \<Rightarrow> VNull) [0..<length fs], v \<noteq> VNull)) col)"
proof (rule rmap_eq_map)
  fix v
  assume "v \<in> set col"
  then have "fits P (TStruct fs) v"
    using assms(1) by (simp add: fits_all_iff)
  then show "struct_row fs v = Inr (map (\<lambda>i. case v of VStruct ps \<Rightarrow> snd (ps ! i) | _ \<Rightarrow> VNull) [0..<length fs], v \<noteq> VNull)"
    using struct_child_own [OF _ assms(2)]
    by (cases v) (auto simp: struct_row_def intro!: nth_equalityI)
qed

lemma rmap_eqI:
  "length ys = length xs \<Longrightarrow> (\<And>k. k < length xs \<Longrightarrow> f (xs ! k) = Inr (ys ! k)) \<Longrightarrow> rmap f xs = Inr ys"
proof (induction ys xs rule: list_induct2)
  case (Cons y ys x xs)
  then show ?case
    using Cons.prems [of 0] Cons.prems [of "Suc _"] by simp
qed simp

lemma struct_reads_back:
  assumes "i < length col" "fits_all P (TStruct fs) col" "length arrays = length fs"
    "\<And>k. k < length fs \<Longrightarrow> value_at (arrays ! k) i = Inr (member_column k col ! i)"
  shows "value_at (AStruct fs arrays (map (\<lambda>v. v \<noteq> VNull) col)) i = Inr (col ! i)"
proof -
  have "fits P (TStruct fs) (col ! i)"
    using assms(1,2) by (simp add: fits_all_iff)
  then consider "col ! i = VNull" | ps where "col ! i = VStruct ps" "fits_row P fs ps"
    by (cases "col ! i") auto
  then show ?thesis
  proof cases
    case 2
    have "rmap (\<lambda>a. value_at a i) arrays = Inr (map snd ps)"
      using assms(1,3,4) 2 by (intro rmap_eqI) (auto simp: fits_row_iff member_column_def)
    moreover have "zip (map af_name fs) (map snd ps) = ps"
      using 2(2) by (auto simp: fits_row_iff intro!: nth_equalityI prod_eqI)
    ultimately show ?thesis
      using assms(1) 2(1) by simp
  qed (use assms(1) in simp)
qed

lemma member_column_fits:
  assumes "fits_all P (TStruct fs) col" "k < length fs"
  shows "fits_all P (af_type (fs ! k)) (member_column k col)"
  using assms by (fastforce simp: fits_all_iff member_column_def fits_row_iff split: fval.split)

lemma member_column_count:
  assumes "fits_all P (TStruct fs) col" "k < length fs"
  shows "sum_list (map item_count (member_column k col)) \<le> sum_list (map item_count col)"
  using assms(1)
proof (induction col)
  case (Cons v col)
  have "item_count (snd (ps ! k)) \<le> sum_list (map (\<lambda>p. item_count (snd p)) ps)" if "v = VStruct ps" for ps
    using that Cons.prems assms(2) by (intro elem_le_sum_list [of k "map (\<lambda>p. item_count (snd p)) ps", simplified]) (auto simp: fits_row_iff)
  then show ?case
    using Cons by (cases v) (auto simp: member_column_def intro: add_mono)
qed (simp add: member_column_def)

lemma prim_reads_back:
  assumes "output_type dt" "fits_all lossless dt col"
  shows "\<exists>cells. rmap (cell_of dt) col = Inr cells \<and> (\<forall>i < length col. value_at (APrim dt cells) i = Inr (col ! i))"
  using assms(2)
proof (induction col)
  case (Cons v col)
  then obtain cells where "rmap (cell_of dt) col = Inr cells"
    "\<forall>i < length col. value_at (APrim dt cells) i = Inr (col ! i)"
    by auto
  moreover obtain x where "cell_of dt v = Inr x" "(case x of None \<Rightarrow> Inr VNull | Some y \<Rightarrow> prim_value dt y) = Inr v"
    using cell_reads_back [OF assms(1), of v] Cons.prems by auto
  ultimately show ?case
    by (auto simp: nth_Cons split: nat.split)
qed simp

lemma prim_build_reads_back:
  assumes "output_type dt" "storable ar dt" "fits_all lossless dt col"
  shows "\<exists>a. build_array ar dt col = Inr a \<and> (\<forall>i < length col. value_at a i = Inr (col ! i))"
  using assms(1,2) prim_reads_back [OF assms(1,3)] by (cases dt) (auto simp: output_type_def)

lemma build_reads_back:
  "storable ar dt \<Longrightarrow> fits_all lossless dt col \<Longrightarrow> sum_list (map item_count col) < 2 ^ 31 \<Longrightarrow>
   \<exists>a. build_array ar dt col = Inr a \<and> (\<forall>i < length col. value_at a i = Inr (col ! i))"
  "(\<forall>f \<in> set fs. storable ar (af_type f)) \<Longrightarrow> length cs = length fs \<Longrightarrow>
   (\<forall>k < length fs. fits_all lossless (af_type (fs ! k)) (cs ! k) \<and> sum_list (map item_count (cs ! k)) < 2 ^ 31) \<Longrightarrow>
   \<exists>as. build_children ar fs cs = Inr as \<and> length as = length fs \<and>
     (\<forall>k < length fs. \<forall>i < length (cs ! k). value_at (as ! k) i = Inr (cs ! k ! i))"
proof (induction ar dt col and ar fs cs rule: build_array_build_children.induct)
  case (1 ar item col)
  let ?flat = "concat (map list_items col)"
  have tot: "starts col (length col) + sum_list (map item_count ?flat) < 2 ^ 31"
    using item_count_concat [of col] 1(4) by linarith
  then have parts: "list_parts 0 col = Inr (?flat, map (\<lambda>i. int (starts col (Suc i))) [0..<length col], map (\<lambda>v. v \<noteq> VNull) col)"
    using list_parts_fits [of lossless item col 0] 1(3) by simp
  have flat: "fits_all lossless (af_type item) ?flat"
    using 1(3) by (auto simp: fits_all_iff list_items_def split: fval.splits)
  obtain child where child: "build_array ar (af_type item) ?flat = Inr child"
    "\<forall>i < length ?flat. value_at child i = Inr (?flat ! i)"
    using 1(1) [OF parts _ refl _ flat] 1(2) tot by auto
  have "sorted (0 # map (\<lambda>i. int (starts col (Suc i))) [0..<length col])"
    by (auto simp: sorted_iff_nth_mono intro!: starts_mono)
  then show ?case
    using parts child list_reads_back [OF _ 1(3)] by auto
next
  case (2 ar fs col)
  have names: "distinct (map (\<lambda>f. to_ascii_lowercase (af_name f)) fs)"
    using 2(2) by simp
  let ?rows = "map (\<lambda>v. (map (\<lambda>i. case v of VStruct ps \<Rightarrow> snd (ps ! i) | _ \<Rightarrow> VNull) [0..<length fs], v \<noteq> VNull)) col"
  have rows: "rmap (struct_row fs) col = Inr ?rows"
    by (rule struct_rows [OF 2(3) names])
  have cols: "map (\<lambda>i. map (\<lambda>r. fst r ! i) ?rows) [0..<length fs] = map (\<lambda>k. member_column k col) [0..<length fs]"
    by (auto simp: member_column_def split: fval.split)
  have "\<exists>as. build_children ar fs (map (\<lambda>i. map (\<lambda>r. fst r ! i) ?rows) [0..<length fs]) = Inr as \<and> length as = length fs \<and>
     (\<forall>k < length fs. \<forall>i < length col. value_at (as ! k) i = Inr (member_column k col ! i))"
    using 2(1) [OF rows, unfolded cols] 2(2) member_column_fits [OF 2(3)] member_column_count [OF 2(3)] 2(4)
    unfolding cols by (auto simp: member_column_def intro: le_less_trans)
  then obtain as where as: "build_children ar fs (map (\<lambda>i. map (\<lambda>r. fst r ! i) ?rows) [0..<length fs]) = Inr as"
    "length as = length fs" "\<And>k i. k < length fs \<Longrightarrow> i < length col \<Longrightarrow> value_at (as ! k) i = Inr (member_column k col ! i)"
    by blast
  have "build_array ar (TStruct fs) col = Inr (AStruct fs as (map (\<lambda>v. v \<noteq> VNull) col))"
    using 2(2) by (simp add: rows as(1) [simplified])
  then show ?case
    using struct_reads_back [OF _ 2(3) as(2) as(3)] by auto
next
  case (5 ar f fs c cs)
  obtain a where a: "build_array ar (af_type f) c = Inr a" "\<forall>i < length c. value_at a i = Inr (c ! i)"
    using 5(1) 5(3,5) by fastforce
  obtain as where "build_children ar fs cs = Inr as" "length as = length fs"
    "\<forall>k < length fs. \<forall>i < length (cs ! k). value_at (as ! k) i = Inr (cs ! k ! i)"
    using 5(2) [OF a(1)] 5(3-5) by fastforce
  then show ?case
    using a by (auto simp: nth_Cons split: nat.split)
qed (simp_all add: output_type_def prim_build_reads_back del: build_array.simps)

text \<open>Building succeeds for decoded values, whether or not they are stored without loss.\<close>

lemma own_scale_cell: "output_type dt \<Longrightarrow> fits own_scale dt v \<Longrightarrow> \<exists>x. cell_of dt v = Inr x"
  by (cases v; cases dt) (auto simp: cell_of_def output_type_def own_scale_def rescale_i128_def)

lemma own_scale_cells: "output_type dt \<Longrightarrow> fits_all own_scale dt col \<Longrightarrow> \<exists>cells. rmap (cell_of dt) col = Inr cells"
proof (induction col)
  case (Cons v col)
  then show ?case
    using own_scale_cell [of dt v] by auto
qed simp

lemma prim_build_succeeds:
  assumes "output_type dt" "storable ar dt" "fits_all own_scale dt col"
  shows "\<exists>a. build_array ar dt col = Inr a"
  using assms(1,2) own_scale_cells [OF assms(1,3)] by (cases dt) (auto simp: output_type_def)

lemma build_succeeds:
  "storable ar dt \<Longrightarrow> fits_all own_scale dt col \<Longrightarrow> sum_list (map item_count col) < 2 ^ 31 \<Longrightarrow> \<exists>a. build_array ar dt col = Inr a"
  "(\<forall>f \<in> set fs. storable ar (af_type f)) \<Longrightarrow> length cs = length fs \<Longrightarrow>
   (\<forall>k < length fs. fits_all own_scale (af_type (fs ! k)) (cs ! k) \<and> sum_list (map item_count (cs ! k)) < 2 ^ 31) \<Longrightarrow>
   \<exists>as. build_children ar fs cs = Inr as"
proof (induction ar dt col and ar fs cs rule: build_array_build_children.induct)
  case (1 ar item col)
  let ?flat = "concat (map list_items col)"
  have tot: "starts col (length col) + sum_list (map item_count ?flat) < 2 ^ 31"
    using item_count_concat [of col] 1(4) by linarith
  then have parts: "list_parts 0 col = Inr (?flat, map (\<lambda>i. int (starts col (Suc i))) [0..<length col], map (\<lambda>v. v \<noteq> VNull) col)"
    using list_parts_fits [of own_scale item col 0] 1(3) by simp
  have flat: "fits_all own_scale (af_type item) ?flat"
    using 1(3) by (auto simp: fits_all_iff list_items_def split: fval.splits)
  obtain child where child: "build_array ar (af_type item) ?flat = Inr child"
    using 1(1) [OF parts _ refl _ flat] 1(2) tot by auto
  have "sorted (0 # map (\<lambda>i. int (starts col (Suc i))) [0..<length col])"
    by (auto simp: sorted_iff_nth_mono intro!: starts_mono)
  then show ?case
    using parts child by simp
next
  case (2 ar fs col)
  let ?rows = "map (\<lambda>v. (map (\<lambda>i. case v of VStruct ps \<Rightarrow> snd (ps ! i) | _ \<Rightarrow> VNull) [0..<length fs], v \<noteq> VNull)) col"
  have rows: "rmap (struct_row fs) col = Inr ?rows"
    using 2(2) by (intro struct_rows [OF 2(3)]) simp
  have cols: "map (\<lambda>i. map (\<lambda>r. fst r ! i) ?rows) [0..<length fs] = map (\<lambda>k. member_column k col) [0..<length fs]"
    by (auto simp: member_column_def split: fval.split)
  have "\<exists>as. build_children ar fs (map (\<lambda>i. map (\<lambda>r. fst r ! i) ?rows) [0..<length fs]) = Inr as"
    using 2(1) [OF rows, unfolded cols] 2(2) member_column_fits [OF 2(3)] member_column_count [OF 2(3)] 2(4)
    unfolding cols by (auto intro: le_less_trans)
  then show ?case
    using rows 2(2) by auto
next
  case (5 ar f fs c cs)
  obtain a where a: "build_array ar (af_type f) c = Inr a"
    using 5(1) 5(3,5) by fastforce
  obtain as where "build_children ar fs cs = Inr as"
    using 5(2) [OF a] 5(3-5) by fastforce
  then show ?case
    using a by simp
qed (simp_all add: output_type_def prim_build_succeeds del: build_array.simps)

section \<open>The reported types\<close>

text \<open>The DuckDB name of an Arrow type, as \<open>describe\<close> writes it (structs without members).\<close>

fun sql_name :: "data_type \<Rightarrow> rstr" where
  "sql_name TUtf8 = lit ''VARCHAR''"
| "sql_name TBoolean = lit ''BOOLEAN''"
| "sql_name (TInt bits) = lit ''BIGINT''"
| "sql_name TFloat32 = lit ''REAL''"
| "sql_name TFloat64 = lit ''DOUBLE''"
| "sql_name (TDecimal128 p s) =
     lit ''DECIMAL('' @ nat_str p @ lit '','' @ (if s < 0 then lit ''-'' else []) @ nat_str (nat \<bar>s\<bar>) @ lit '')''"
| "sql_name TDate32 = lit ''DATE''"
| "sql_name TTime64Micro = lit ''TIME''"
| "sql_name (TTimestampMicro tz) = lit ''TIMESTAMP''"
| "sql_name (TStruct fs) = lit ''STRUCT''"
| "sql_name (TList item) = sql_name (af_type item) @ lit ''[]''"
| "sql_name dt = lit ''NULL''"

definition small_scale :: "field \<Rightarrow> bool" where
  "small_scale f =
     (case f_kind f of KDecimal p s _ _ \<Rightarrow> s < 128 | KEdited p s _ _ \<Rightarrow> s < 128 | _ \<Rightarrow> True)"

lemma as_i8_small [simp]: "n < 128 \<Longrightarrow> as_i8 n = int n"
  by (simp add: as_i8_def)

lemma base_type_sql: "base_type f = Inr dt \<Longrightarrow> small_scale f \<Longrightarrow> base_sql_type f = sql_name dt"
  by (cases "f_kind f")
    (auto simp: base_type.simps base_sql_type_def small_scale_def decimal_type_def MAX_DECIMAL_PRECISION_def
      max.commute min.commute min_def split: if_splits date_time_kind.splits)

lemma arrow_field_sql:
  "arrow_field f = Inr a \<Longrightarrow> small_scale f \<Longrightarrow> af_name a = f_name f \<and> sql_type f = sql_name (af_type a)"
  using base_type_sql [of f] by (auto simp: arrow_field.simps sql_type_def)

lemma walk_field_depth: "r \<in> set (walk_field f prefix base depth) \<Longrightarrow> depth \<le> d_depth r"
proof (induction f prefix base depth rule: walk_field.induct)
  case (1 nm off w k occ dep red prefix base depth)
  then show ?case
    by (cases k) (force simp: Let_def describe_one_def split: if_splits)+
qed

lemma walk_top:
  "filter (\<lambda>r. d_depth r = 0) (walk_field f [] 0 0) = (if is_pad f then [] else [describe_one f (f_name f) (f_offset f) 0])"
proof (cases f)
  case (Field nm off w k occ dep red)
  have "r \<in> set (walk_field c path offset (Suc 0)) \<Longrightarrow> d_depth r \<noteq> 0" for c path offset r
    using walk_field_depth [of r c path offset "Suc 0"] by auto
  then have "filter (\<lambda>r. d_depth r = 0) (concat (map (\<lambda>c. walk_field c path offset (Suc 0)) cs)) = []" for path offset cs
    by (auto simp: filter_empty_conv)
  then show ?thesis
    using Field by (cases k) (auto simp: Let_def describe_one_def join_path_def)
qed

lemma describe_matches:
  "arrow_fields fs = Inr as \<Longrightarrow> list_all small_scale fs \<Longrightarrow>
   map (\<lambda>r. (d_path r, d_sql_type r)) (filter (\<lambda>r. d_depth r = 0) (walk fs [] 0 0))
     = map (\<lambda>a. (af_name a, sql_name (af_type a))) as"
proof (induction fs arbitrary: as)
  case (Cons f fs)
  then show ?case
    using arrow_field_sql [of f] by (auto simp: walk_def walk_top describe_one_def split: if_splits)
qed (simp add: walk_def)

definition accepting_arrow :: arrow_lib where
  "accepting_arrow = \<lparr> al_decimal = (\<lambda>p s. p \<le> 38), al_batch = (\<lambda>_ _. None) \<rparr>"

section \<open>Properties\<close>

text \<open>
  C16. Every decoded record has the type that the layout announces: the values of
  \<open>decode_record\<close> are, name by name, values of the Arrow fields of \<open>layout_fields\<close> (or NULL), at
  all depths of groups and tables, with the scale of decimals as declared.
\<close>

theorem decoded_record_typed:
  assumes "decode_record c l bs enc = Ok vs" "layout_fields l = Inr as"
  shows "fits_row same_scale as vs"
  using assms by (rule decode_record_fits(1))

theorem decoded_record_typed_witness:
  "\<exists>c. decode_record c (Layout.layout.make 3 [Field [65] 0 1 (KBinary Big False) (Some 2) None None, Field [66] 2 1 KBool None None None] False)
     [7, 8, 1] Ascii = Ok [([65], VList [VInt 7, VInt 8]), ([66], VBool True)]
   \<and> fits_row same_scale [AField [65] (TList (AField (lit ''item'') (TInt 64) True)) True, AField [66] TBoolean True]
       [([65], VList [VInt 7, VInt 8]), ([66], VBool True)]"
proof -
  let ?l = "Layout.layout.make 3 [Field [65] 0 1 (KBinary Big False) (Some 2) None None, Field [66] 2 1 KBool None None None] False"
  have d: "decode_record c ?l [7, 8, 1] Ascii = Ok [([65], VList [VInt 7, VInt 8]), ([66], VBool True)]" for c
    by code_simp
  have "layout_fields ?l = Inr [AField [65] (TList (AField (lit ''item'') (TInt 64) True)) True, AField [66] TBoolean True]"
    by code_simp
  from decoded_record_typed [OF d this] d show ?thesis
    by blast
qed

text \<open>
  C15. An array built from a column reads back, element by element, to the column, for every
  column of values of the type (lists and structs nested at any depth, NULLs anywhere): the
  building succeeds and no value is lost, given that floats of a 32-bit column are 32-bit values,
  that a struct has members and no two of them of the same name up to case, that Arrow accepts the
  decimal types, and that there are fewer than \<open>2^31\<close> list items.
\<close>

theorem build_array_reads_back:
  assumes "storable ar dt" "fits_all lossless dt col" "sum_list (map item_count col) < 2 ^ 31"
  shows "\<exists>a. build_array ar dt col = Inr a \<and> (\<forall>i < length col. value_at a i = Inr (col ! i))"
  using assms by (rule build_reads_back(1))

theorem build_array_reads_back_witness:
  "\<exists>a. build_array accepting_arrow (TStruct [AField [65] (TList (AField [66] (TDecimal128 5 2) True)) True])
       [VStruct [([65], VList [VDecimal 125 2, VNull])], VNull, VStruct [([65], VNull)]] = Inr a
     \<and> value_at a 0 = Inr (VStruct [([65], VList [VDecimal 125 2, VNull])]) \<and> value_at a 1 = Inr VNull"
  using build_array_reads_back [of accepting_arrow "TStruct [AField [65] (TList (AField [66] (TDecimal128 5 2) True)) True]"
      "[VStruct [([65], VList [VDecimal 125 2, VNull])], VNull, VStruct [([65], VNull)]]"]
  by (fastforce simp: lossless_def accepting_arrow_def)

text \<open>
  A struct type without members, as a record type of fillers has, cannot be built: no child gives
  the length of the array.
\<close>

theorem memberless_struct_panics:
  "\<exists>e. build_array ar (TStruct []) col = Inl e"
  by (cases "rmap (struct_row []) col") simp_all

theorem filler_layout_memberless:
  "layout_struct_type (Layout.layout.make n [Field nm 0 n (KPad b) None None None] False) = Inr (TStruct [])"
  by (simp add: layout_struct_type_def layout_fields_def Layout.layout.make_def is_pad_def)

text \<open>
  C37. \<open>describe\<close> tells the types that a scan delivers: its rows of depth 0 are the names and the
  DuckDB types of the output schema of the layout, in order, when the schema exists and no
  decimal scale exceeds 127.
\<close>

theorem describe_tells_schema:
  assumes "layout_fields l = Inr as" "list_all small_scale (l_fields l)"
  shows "map (\<lambda>r. (d_path r, d_sql_type r)) (filter (\<lambda>r. d_depth r = 0) (describe l))
    = map (\<lambda>a. (af_name a, sql_name (af_type a))) as"
  using assms describe_matches by (simp add: describe_def layout_fields_def)

theorem describe_tells_schema_witness:
  "map (\<lambda>r. (d_path r, d_sql_type r)) (filter (\<lambda>r. d_depth r = 0)
       (describe (Layout.layout.make 4 [Field [65] 0 2 (KDecimal 3 2 RComp3 SEmbedded) (Some 2) None None] False)))
     = [([65], lit ''DECIMAL(3,2)[]'')]"
proof -
  have "layout_fields (Layout.layout.make 4 [Field [65] 0 2 (KDecimal 3 2 RComp3 SEmbedded) (Some 2) None None] False)
      = Inr [AField [65] (TList (AField (lit ''item'') (TDecimal128 3 2) True)) True]"
    by code_simp
  moreover have "map (\<lambda>a. (af_name a, sql_name (af_type a))) [AField [65] (TList (AField (lit ''item'') (TDecimal128 3 2) True)) True]
      = [([65], lit ''DECIMAL(3,2)[]'')]"
    by code_simp
  ultimately show ?thesis
    using describe_tells_schema by (fastforce simp: Layout.layout.make_def small_scale_def)
qed

text \<open>
  For a decimal with more than 38 digits \<open>describe\<close> reports a type although no schema exists:
  the precision is clamped to 38 in the report and refused when the schema is built.
\<close>

theorem describe_clamps_precision:
  assumes "f_kind f = KDecimal precision scale repr sign" "38 < precision"
  shows "base_sql_type f = decimal_type 38 scale \<and> base_type f = Inl (PrecisionTooBig precision)"
  using assms by (simp add: base_sql_type_def decimal_type_def base_type.simps MAX_DECIMAL_PRECISION_def)

theorem describe_clamps_precision_witness:
  "base_type (Field [65] 0 20 (KDecimal 39 0 RComp3 SEmbedded) None None None) = Inl (PrecisionTooBig 39)"
  using describe_clamps_precision [of "Field [65] 0 20 (KDecimal 39 0 RComp3 SEmbedded) None None None"] by simp

end
