(* ===== verification/Reader.thy ===== *)
theory Reader
  imports Stream Arrow
begin

text \<open>
  The readers of the worker (\<open>reader.rs\<close>, and the producer of \<open>table/read_multi.rs\<close>, whose
  loop is the same up to the decoding of a record): opening a source, reading all rows eagerly,
  and the producer that reads one batch at a time and resumes from the pair of source index and
  record count. What opening a path or a remote object gives (a byte source or an I/O error) is
  part of the configuration; a source gives the same bytes each time it is opened.
\<close>

section \<open>Errors of the worker\<close>

datatype (plugins only: code size) worker_error =
    Core error
  | InSource rstr error
  | InRecord rstr nat error
  | Resuming rstr nat error
  | ResumeBeyond rstr nat
  | VariableFixed
  | VariableRecordType rstr
  | ProjectedColumn rstr
  | TooManyVariants nat
  | OpenFailed rstr io_error
  | ArrowFailed arrow_error
  | VariantMissing rstr

definition ve :: "error + 'a \<Rightarrow> worker_error + 'a" where
  "ve r = map_err Core r"

section \<open>Opening a source\<close>

record read_config =
  rc_framing :: framing
  rc_rec_len :: nat
  rc_compression :: "compression option"
  rc_limits :: limits
  rc_codecs :: stream_codecs
  rc_sources :: "(rstr \<times> (io_error + source)) list"

definition check_variable_framing :: "layout \<Rightarrow> framing \<Rightarrow> worker_error + unit" where
  "check_variable_framing l m = (if l_variable l \<and> m = Fixed then Inl VariableFixed else Inr ())"

definition open_stream :: "read_config \<Rightarrow> rstr \<times> (io_error + source) \<Rightarrow> worker_error + stream_state" where
  "open_stream rc src =
     rbind (map_err (OpenFailed (fst src)) (snd src)) (\<lambda>raw.
     rbind (ve (decompress_reader (rc_codecs rc) raw (rc_compression rc)
                 (max_decompressed_bytes (rc_limits rc)))) (\<lambda>plain.
     ve (stream_new plain (rc_framing rc) (rc_rec_len rc) (max_record_bytes (rc_limits rc)))))"

section \<open>All rows at once\<close>

text \<open>\<open>dec\<close> turns the bytes of a record into a row; \<open>i\<close> counts the records of the source.\<close>

function (sequential) read_source :: "(bytes \<Rightarrow> error + 'row) \<Rightarrow> rstr \<Rightarrow> nat \<Rightarrow> stream_state \<Rightarrow> worker_error + 'row list" where
  "read_source dec label i st =
     (case stream_next st of
        (None, _) \<Rightarrow> Inr []
      | (Some r, st) \<Rightarrow>
          rbind (map_err (InSource label) r) (\<lambda>rec.
          rbind (map_err (InRecord label (i + 1)) (dec rec)) (\<lambda>row.
          rbind (read_source dec label (i + 1) st) (\<lambda>rows.
          Inr (row # rows)))))"
  by pat_completeness auto
termination
  by (relation "measure (\<lambda>(_, _, _, st). state_size st)") (auto dest: stream_next_size [OF sym])

declare read_source.simps [simp del]

fun read_sources :: "(bytes \<Rightarrow> error + 'row) \<Rightarrow> read_config \<Rightarrow> (rstr \<times> (io_error + source)) list \<Rightarrow> worker_error + 'row list" where
  "read_sources dec rc [] = Inr []"
| "read_sources dec rc (src # srcs) =
     rbind (open_stream rc src) (\<lambda>st.
     rbind (read_source dec (fst src) 0 st) (\<lambda>rows.
     rbind (read_sources dec rc srcs) (\<lambda>rest.
     Inr (rows @ rest))))"

definition decode_row :: "chrono \<Rightarrow> layout \<Rightarrow> encoding \<Rightarrow> bytes \<Rightarrow> error + fval list" where
  "decode_row c l enc rec = rmap_value (map snd) (decode_record c l rec enc)"

definition read_all :: "chrono \<Rightarrow> layout \<Rightarrow> encoding \<Rightarrow> read_config \<Rightarrow> worker_error + fval list list" where
  "read_all c l enc rc =
     rbind (check_variable_framing l (rc_framing rc)) (\<lambda>_.
     read_sources (decode_row c l enc) rc (rc_sources rc))"

section \<open>One batch at a time\<close>

definition BATCH_ROWS :: nat where
  "BATCH_ROWS = 2048"

record producer =
  pr_idx :: nat
  pr_seen :: nat
  pr_current :: "stream_state option"

text \<open>The loop that skips the records already delivered when a source is opened again.\<close>

fun skip_records :: "rstr \<Rightarrow> nat \<Rightarrow> nat \<Rightarrow> nat \<Rightarrow> stream_state \<Rightarrow> worker_error + stream_state" where
  "skip_records label seen record 0 st = Inr st"
| "skip_records label seen record (Suc k) st =
     (case stream_next st of
        (Some (Inr _), st) \<Rightarrow> skip_records label seen (record + 1) k st
      | (Some (Inl e), _) \<Rightarrow> Inl (Resuming label (record + 1) e)
      | (None, _) \<Rightarrow> Inl (ResumeBeyond label seen))"

definition current_stream :: "read_config \<Rightarrow> producer \<Rightarrow> worker_error + stream_state" where
  "current_stream rc p =
     (case pr_current p of
        Some st \<Rightarrow> Inr st
      | None \<Rightarrow>
          rbind (open_stream rc (rc_sources rc ! pr_idx p)) (\<lambda>st.
          skip_records (fst (rc_sources rc ! pr_idx p)) (pr_seen p) 0 (pr_seen p) st))"

function (sequential) fill_batch ::
  "(bytes \<Rightarrow> error + 'row) \<Rightarrow> read_config \<Rightarrow> nat \<Rightarrow> producer \<Rightarrow> 'row list \<Rightarrow> (worker_error + 'row list) \<times> producer" where
  "fill_batch dec rc limit p rows =
     (if limit \<le> length rows then (Inr rows, p)
      else if pr_current p = None \<and> length (rc_sources rc) \<le> pr_idx p then (Inr rows, p)
      else
        case current_stream rc p of
          Inl e \<Rightarrow> (Inl e, p)
        | Inr st \<Rightarrow>
            let label = fst (rc_sources rc ! pr_idx p) in
            (case stream_next st of
               (None, _) \<Rightarrow>
                 fill_batch dec rc limit (p\<lparr> pr_current := None, pr_idx := pr_idx p + 1, pr_seen := 0 \<rparr>) rows
             | (Some r, st) \<Rightarrow>
                 let p = p\<lparr> pr_current := Some st, pr_seen := pr_seen p + 1 \<rparr> in
                 (case r of
                    Inl e \<Rightarrow> (Inl (InSource label e), p)
                  | Inr rec \<Rightarrow>
                      (case dec rec of
                         Inl e \<Rightarrow> (Inl (InRecord label (pr_seen p) e), p)
                       | Inr row \<Rightarrow> fill_batch dec rc limit p (rows @ [row])))))"
  by pat_completeness auto
termination
  by (relation "measures [\<lambda>(_, _, limit, _, rows). limit - length rows,
      \<lambda>(_, rc, _, p, _). length (rc_sources rc) - pr_idx p,
      \<lambda>(_, _, _, p, _). if pr_current p = None then 0 else 1]") auto

declare fill_batch.simps [simp del]

definition next_rows ::
  "nat \<Rightarrow> (bytes \<Rightarrow> error + 'row) \<Rightarrow> read_config \<Rightarrow> producer \<Rightarrow> (worker_error + 'row list option) \<times> producer" where
  "next_rows limit dec rc p =
     (case fill_batch dec rc limit p [] of
        (Inl e, p) \<Rightarrow> (Inl e, p)
      | (Inr rows, p) \<Rightarrow> (Inr (if rows = [] then None else Some rows), p))"

text \<open>The worker asks for \<open>BATCH_ROWS\<close> rows; nothing below depends on that number.\<close>

definition next_batch ::
  "(bytes \<Rightarrow> error + 'row) \<Rightarrow> read_config \<Rightarrow> producer \<Rightarrow> (worker_error + 'row list option) \<times> producer" where
  "next_batch = next_rows BATCH_ROWS"

definition start_producer :: producer where
  "start_producer = \<lparr> pr_idx = 0, pr_seen = 0, pr_current = None \<rparr>"

section \<open>What is left to read\<close>

text \<open>
  The specification: the rows that a stream, or a list of sources, still gives, and the error
  that comes after them, if any.
\<close>

function (sequential) stream_items ::
  "(bytes \<Rightarrow> error + 'row) \<Rightarrow> rstr \<Rightarrow> nat \<Rightarrow> stream_state \<Rightarrow> 'row list \<times> worker_error option" where
  "stream_items dec label i st =
     (case stream_next st of
        (None, _) \<Rightarrow> ([], None)
      | (Some (Inl e), _) \<Rightarrow> ([], Some (InSource label e))
      | (Some (Inr rec), st) \<Rightarrow>
          (case dec rec of
             Inl e \<Rightarrow> ([], Some (InRecord label (i + 1) e))
           | Inr row \<Rightarrow> (case stream_items dec label (i + 1) st of (rows, e) \<Rightarrow> (row # rows, e))))"
  by pat_completeness auto
termination
  by (relation "measure (\<lambda>(_, _, _, st). state_size st)") (auto dest: stream_next_size [OF sym])

declare stream_items.simps [simp del]

definition and_then :: "'row list \<times> 'e option \<Rightarrow> 'row list \<times> 'e option \<Rightarrow> 'row list \<times> 'e option" where
  "and_then a b = (case snd a of None \<Rightarrow> (fst a @ fst b, snd b) | Some e \<Rightarrow> a)"

fun source_items :: "(bytes \<Rightarrow> error + 'row) \<Rightarrow> read_config \<Rightarrow> (rstr \<times> (io_error + source)) list \<Rightarrow> 'row list \<times> worker_error option" where
  "source_items dec rc [] = ([], None)"
| "source_items dec rc (src # srcs) =
     (case open_stream rc src of
        Inl e \<Rightarrow> ([], Some e)
      | Inr st \<Rightarrow> and_then (stream_items dec (fst src) 0 st) (source_items dec rc srcs))"

definition items_result :: "'row list \<times> worker_error option \<Rightarrow> worker_error + 'row list" where
  "items_result it = (case snd it of None \<Rightarrow> Inr (fst it) | Some e \<Rightarrow> Inl e)"

lemma and_then_assoc: "and_then (and_then a b) c = and_then a (and_then b c)"
  by (auto simp: and_then_def split: option.split)

lemma and_then_simps [simp]:
  "and_then ([], None) b = b" "and_then a ([], None) = a" "and_then (xs, Some e) b = (xs, Some e)"
  by (auto simp: and_then_def prod_eq_iff split: option.split)

lemma read_source_items: "read_source dec label i st = items_result (stream_items dec label i st)"
proof (induction "state_size st" arbitrary: i st rule: less_induct)
  case less
  obtain r st' where n: "stream_next st = (r, st')"
    by (cases "stream_next st")
  have "read_source dec label (i + 1) st' = items_result (stream_items dec label (i + 1) st')" if "r \<noteq> None"
    using less stream_next_size n that by blast
  then show ?case
    by (subst read_source.simps, subst stream_items.simps)
      (auto simp: n items_result_def map_err_def rbind_def split: prod.split option.split sum.split)
qed

lemma read_sources_items: "read_sources dec rc srcs = items_result (source_items dec rc srcs)"
  by (induction srcs)
    (auto simp: items_result_def read_source_items and_then_def rbind_def split: sum.split option.split)

text \<open>What a producer between two batches still gives.\<close>

definition remaining :: "(bytes \<Rightarrow> error + 'row) \<Rightarrow> read_config \<Rightarrow> producer \<Rightarrow> 'row list \<times> worker_error option" where
  "remaining dec rc p =
     (case pr_current p of
        None \<Rightarrow> source_items dec rc (drop (pr_idx p) (rc_sources rc))
      | Some st \<Rightarrow>
          and_then (stream_items dec (fst (rc_sources rc ! pr_idx p)) (pr_seen p) st)
            (source_items dec rc (drop (pr_idx p + 1) (rc_sources rc))))"

text \<open>
  The states between batches: without an open stream nothing of the source has been read;
  with one, it is where skipping the records already seen would take a newly opened stream.
\<close>

definition consistent :: "read_config \<Rightarrow> producer \<Rightarrow> bool" where
  "consistent rc p \<longleftrightarrow>
     (case pr_current p of
        None \<Rightarrow> pr_seen p = 0
      | Some st \<Rightarrow> pr_idx p < length (rc_sources rc) \<and> 0 < pr_seen p
          \<and> current_stream rc (p\<lparr> pr_current := None \<rparr>) = Inr st)"

lemma skip_records_snoc:
  "skip_records label s r k st = Inr st' \<Longrightarrow> stream_next st' = (Some (Inr x), st'') \<Longrightarrow>
   skip_records label s' r (Suc k) st = Inr st''"
proof (induction k arbitrary: r st)
  case (Suc k)
  then obtain y st1 where n: "stream_next st = (Some (Inr y), st1)" "skip_records label s (r + 1) k st1 = Inr st'"
    by (auto split: prod.splits option.splits sum.splits)
  then show ?case
    using Suc.IH [OF n(2) Suc.prems(2)] by (simp del: skip_records.simps(2)) (subst skip_records.simps(2), simp)
qed simp

lemma consistent_step:
  assumes "consistent rc p" "pr_current p = None \<Longrightarrow> pr_idx p < length (rc_sources rc)"
    "current_stream rc p = Inr st" "stream_next st = (Some (Inr x), st')"
  shows "consistent rc (p\<lparr> pr_current := Some st', pr_seen := pr_seen p + 1 \<rparr>)"
proof -
  have "current_stream rc (p\<lparr> pr_current := None \<rparr>) = Inr st"
    using assms(1,3) by (cases "pr_current p") (auto simp: consistent_def current_stream_def)
  then obtain st0 where "open_stream rc (rc_sources rc ! pr_idx p) = Inr st0"
    "skip_records (fst (rc_sources rc ! pr_idx p)) (pr_seen p) 0 (pr_seen p) st0 = Inr st"
    by (auto simp: current_stream_def)
  then show ?thesis
    using skip_records_snoc [OF _ assms(4)] assms(1,2)
    by (auto simp: consistent_def current_stream_def split: option.splits)
qed

lemma remaining_current:
  assumes "consistent rc p" "pr_current p = None \<Longrightarrow> pr_idx p < length (rc_sources rc)"
    "current_stream rc p = Inr st"
  shows "remaining dec rc p =
    and_then (stream_items dec (fst (rc_sources rc ! pr_idx p)) (pr_seen p) st)
      (source_items dec rc (drop (pr_idx p + 1) (rc_sources rc)))"
  using assms
  by (cases "pr_current p")
    (auto simp: remaining_def consistent_def current_stream_def Cons_nth_drop_Suc [symmetric])

lemma remaining_fail:
  assumes "consistent rc p" "pr_current p = None \<Longrightarrow> pr_idx p < length (rc_sources rc)"
    "current_stream rc p = Inl err"
  shows "remaining dec rc p = ([], Some err)"
  using assms
  by (cases "pr_current p")
    (auto simp: remaining_def consistent_def current_stream_def Cons_nth_drop_Suc [symmetric] rbind_def split: sum.splits)

lemma fill_batch_remaining:
  assumes "consistent rc p" "length rows \<le> limit" "remaining dec rc p = (xs, e)"
  shows "case fill_batch dec rc limit p rows of
      (Inr rows', p') \<Rightarrow> consistent rc p' \<and> rows' = rows @ take (limit - length rows) xs
        \<and> remaining dec rc p' = (drop (limit - length rows) xs, e)
        \<and> (length xs < limit - length rows \<longrightarrow> e = None)
    | (Inl err, p') \<Rightarrow> e = Some err \<and> length xs < limit - length rows"
  using assms
proof (induction dec rc limit p rows arbitrary: xs e rule: fill_batch.induct)
  case (1 dec rc limit p rows)
  let ?label = "fst (rc_sources rc ! pr_idx p)"
  consider "limit \<le> length rows" | "length rows < limit" "pr_current p = None" "length (rc_sources rc) \<le> pr_idx p"
    | "length rows < limit" "pr_current p = None \<Longrightarrow> pr_idx p < length (rc_sources rc)"
    by linarith
  then show ?case
  proof cases
    case 1
    then show ?thesis
      using "1.prems" by (simp add: fill_batch.simps)
  next
    case 2
    then show ?thesis
      using "1.prems" by (simp add: fill_batch.simps remaining_def)
  next
    case go: 3
    show ?thesis
    proof (cases "current_stream rc p")
      case (Inl err)
      then show ?thesis
        using "1.prems" go remaining_fail [OF "1.prems"(1) go(2) Inl, of dec]
        by (subst fill_batch.simps) auto
    next
      case (Inr st)
      note rem = remaining_current [OF "1.prems"(1) go(2) Inr, of dec]
      obtain r st' where n: "stream_next st = (r, st')"
        by (cases "stream_next st")
      have guard: "\<not> limit \<le> length rows" "\<not> (pr_current p = None \<and> length (rc_sources rc) \<le> pr_idx p)"
        using go by auto
      show ?thesis
      proof (cases r)
        case None
        let ?p = "p\<lparr>pr_current := None, pr_idx := pr_idx p + 1, pr_seen := 0\<rparr>"
        have "fill_batch dec rc limit p rows = fill_batch dec rc limit ?p rows"
          by (subst fill_batch.simps) (simp only: guard if_False Inr n None sum.case prod.case option.case Let_def)
        moreover have "consistent rc ?p" "remaining dec rc ?p = (xs, e)"
          using rem n None "1.prems"(3) by (simp_all add: consistent_def remaining_def stream_items.simps [of _ _ _ st])
        ultimately show ?thesis
          using "1.IH"(1) [OF guard Inr refl n [symmetric] None _ "1.prems"(2)] by simp
      next
        case (Some x)
        let ?p = "p\<lparr>pr_current := Some st', pr_seen := pr_seen p + 1\<rparr>"
        show ?thesis
        proof (cases "\<exists>r row. x = Inr r \<and> dec r = Inr row")
          case False
          then show ?thesis
            using rem n Some "1.prems" go
            by (subst fill_batch.simps)
              (auto simp: Inr Let_def stream_items.simps [of _ _ _ st] split: sum.splits)
        next
          case True
          then obtain b row where x: "x = Inr b" "dec b = Inr row"
            by blast
          have "fill_batch dec rc limit p rows = fill_batch dec rc limit ?p (rows @ [row])"
            by (subst fill_batch.simps) (simp only: guard if_False Inr n Some x sum.case prod.case option.case Let_def)
          moreover have c: "consistent rc ?p"
            using consistent_step [OF "1.prems"(1) go(2) Inr] n Some x(1) by simp
          moreover obtain ys where ys: "remaining dec rc ?p = (ys, e)" "xs = row # ys"
            using rem n Some x "1.prems"(3)
            by (auto simp: remaining_def and_then_def stream_items.simps [of _ _ _ st] split: prod.splits option.splits)
          moreover have "limit - length rows = Suc (limit - length (rows @ [row]))"
            using go(1) by simp
          ultimately show ?thesis
            using "1.IH"(2) [OF guard Inr refl n [symmetric] Some refl x c _ ys(1)] go(1)
            by (auto split: prod.splits sum.splits)
        qed
      qed
    qed
  qed
qed

section \<open>Reading batch by batch\<close>

text \<open>
  The contract of a producer of batches: a step delivers the next \<open>limit\<close> rows of what is left,
  ends when nothing is left, and fails with the error that follows the rows when fewer than
  \<open>limit\<close> come before it.
\<close>

locale batches =
  fixes step :: "'s \<Rightarrow> ('e + 'row list option) \<times> 's"
    and left_over :: "'s \<Rightarrow> 'row list \<times> 'e option"
    and ok :: "'s \<Rightarrow> bool"
    and limit :: nat
  assumes limit_pos: "0 < limit"
    and step_rows: "ok s \<Longrightarrow> left_over s = (xs, e) \<Longrightarrow>
      (case step s of
         (Inr None, s') \<Rightarrow> xs = [] \<and> e = None
       | (Inr (Some rows), s') \<Rightarrow> rows = take limit xs \<and> rows \<noteq> [] \<and> left_over s' = (drop limit xs, e) \<and> ok s'
       | (Inl err, s') \<Rightarrow> e = Some err \<and> length xs < limit)"

fun run_batches :: "('s \<Rightarrow> ('e + 'row list option) \<times> 's) \<Rightarrow> nat \<Rightarrow> 's \<Rightarrow> ('e + 'row list) option" where
  "run_batches step 0 s = None"
| "run_batches step (Suc fuel) s =
     (case step s of
        (Inl err, _) \<Rightarrow> Some (Inl err)
      | (Inr None, _) \<Rightarrow> Some (Inr [])
      | (Inr (Some rows), s) \<Rightarrow> map_option (rmap_value ((@) rows)) (run_batches step fuel s))"

context batches
begin

lemma run_batches_all:
  "ok s \<Longrightarrow> left_over s = (xs, e) \<Longrightarrow> length xs < fuel \<Longrightarrow>
   run_batches step fuel s = Some (case e of None \<Rightarrow> Inr xs | Some err \<Rightarrow> Inl err)"
proof (induction fuel arbitrary: s xs)
  case (Suc fuel)
  note st = step_rows [OF Suc.prems(1,2)]
  show ?case
  proof (cases "step s")
    case (Pair r s')
    consider (err) err where "r = Inl err" | (fin) "r = Inr None" | (rows) rows where "r = Inr (Some rows)"
      by (cases r; cases "projr r"; auto)
    then show ?thesis
    proof cases
      case rows
      then have b: "rows = take limit xs" "rows \<noteq> []" "left_over s' = (drop limit xs, e)" "ok s'"
        using st Pair by auto
      have "length (drop limit xs) < fuel"
        using Suc.prems(3) limit_pos b(1,2) by (cases xs) auto
      then show ?thesis
        using Suc.IH [OF b(4,3)] Pair rows b(1) by (auto split: option.split)
    qed (use st Pair in auto)
  qed
qed simp

end

lemma next_rows_contract:
  assumes "0 < limit" "consistent rc p" "remaining dec rc p = (xs, e)"
  shows "case next_rows limit dec rc p of
      (Inr None, p') \<Rightarrow> xs = [] \<and> e = None
    | (Inr (Some rows), p') \<Rightarrow> rows = take limit xs \<and> rows \<noteq> []
        \<and> remaining dec rc p' = (drop limit xs, e) \<and> consistent rc p'
    | (Inl err, p') \<Rightarrow> e = Some err \<and> length xs < limit"
  using assms(1) fill_batch_remaining [OF assms(2) _ assms(3), of "[]" limit]
  by (auto simp: next_rows_def split: prod.splits sum.splits)

interpretation producer: batches "next_batch dec rc" "remaining dec rc" "consistent rc" BATCH_ROWS
  for dec rc
  unfolding next_batch_def by unfold_locales (simp add: BATCH_ROWS_def, rule next_rows_contract, simp_all add: BATCH_ROWS_def)

lemma consistent_start: "consistent rc start_producer"
  by (simp add: consistent_def start_producer_def)

lemma remaining_start: "remaining dec rc start_producer = source_items dec rc (rc_sources rc)"
  by (simp add: remaining_def start_producer_def)

text \<open>The states that a scan can be in between two batches.\<close>

inductive reachable :: "nat \<Rightarrow> (bytes \<Rightarrow> error + 'row) \<Rightarrow> read_config \<Rightarrow> producer \<Rightarrow> bool"
  for limit dec rc where
  reachable_start: "reachable limit dec rc start_producer"
| reachable_batch: "reachable limit dec rc p \<Longrightarrow> next_rows limit dec rc p = (Inr (Some rows), p') \<Longrightarrow>
    reachable limit dec rc p'"

lemma reachable_consistent: "reachable limit dec rc p \<Longrightarrow> 0 < limit \<Longrightarrow> consistent rc p"
proof (induction rule: reachable.induct)
  case (reachable_batch p rows p')
  then show ?case
    using next_rows_contract [of limit rc p dec] by (cases "remaining dec rc p") auto
qed (rule consistent_start)

lemma fill_batch_resume:
  assumes "consistent rc p" "length rows < limit"
  shows "fill_batch dec rc limit (p\<lparr> pr_current := None \<rparr>) rows = fill_batch dec rc limit p rows"
proof (cases "pr_current p")
  case (Some st)
  then have "pr_idx p < length (rc_sources rc)" "current_stream rc (p\<lparr> pr_current := None \<rparr>) = Inr st"
    "current_stream rc p = Inr st"
    using assms(1) by (auto simp: consistent_def current_stream_def)
  then show ?thesis
    using assms(2) Some by (simp add: fill_batch.simps [of _ _ _ _ rows] Let_def split: prod.split option.split)
next
  case None
  then have "p\<lparr> pr_current := None \<rparr> = p"
    by (cases p) simp
  then show ?thesis
    by simp
qed

lemma batches_read_sources:
  "\<exists>k. \<forall>fuel > k. run_batches (next_batch dec rc) fuel start_producer = Some (read_sources dec rc (rc_sources rc))"
proof -
  obtain xs e where it: "source_items dec rc (rc_sources rc) = (xs, e)"
    by (cases "source_items dec rc (rc_sources rc)")
  have "run_batches (next_batch dec rc) fuel start_producer = Some (case e of None \<Rightarrow> Inr xs | Some err \<Rightarrow> Inl err)"
    if "length xs < fuel" for fuel
    using producer.run_batches_all [OF consistent_start, of dec rc xs e fuel] that by (simp add: remaining_start it)
  then show ?thesis
    by (intro exI [of _ "length xs"]) (cases e; simp add: read_sources_items items_result_def it)
qed

section \<open>Properties\<close>

text \<open>
  C8. Reading batch by batch gives what reading all at once gives: the batches of a scan, put
  together, are the rows of \<open>read_all\<close>, over any number of sources, and a scan fails with the
  error of \<open>read_all\<close>. Calling for one batch more than there are rows is enough.
\<close>

theorem batches_equal_read_all:
  assumes "\<not> (l_variable l \<and> rc_framing rc = Fixed)"
  shows "\<exists>k. \<forall>fuel > k. run_batches (next_batch (decode_row c l enc) rc) fuel start_producer = Some (read_all c l enc rc)"
  using assms batches_read_sources [of "decode_row c l enc" rc] by (auto simp: read_all_def check_variable_framing_def)

definition sample_stream_codecs :: stream_codecs where
  "sample_stream_codecs =
     \<lparr> gz_stream = (\<lambda>src. push_back (drop 2 (source_data src)) []),
       zs_stream = (\<lambda>src. Inr (push_back (drop 4 (source_data src)) [])) \<rparr>"

definition sample_config :: read_config where
  "sample_config =
     \<lparr> rc_framing = Newline, rc_rec_len = 0, rc_compression = None, rc_limits = default_limits,
       rc_codecs = sample_stream_codecs,
       rc_sources = [([97], Inr [Piece 65 [10, 66], Intr, Piece 10 []]), ([98], Inr [Piece 67 []])] \<rparr>"

definition sample_text_layout :: layout where
  "sample_text_layout =
     \<lparr> l_record_len = 1, l_fields = [Field [84] 0 1 (KText JLeft True 32) None None None], l_variable = False \<rparr>"

theorem batches_equal_read_all_witness:
  "\<exists>c k. \<forall>fuel > k. run_batches (next_batch (decode_row c sample_text_layout Ascii) sample_config) fuel start_producer
     = Some (Inr [[VText [65]], [VText [66]], [VText [67]]])"
proof -
  have "read_all c sample_text_layout Ascii sample_config = Inr [[VText [65]], [VText [66]], [VText [67]]]" for c
    by code_simp
  then show ?thesis
    using batches_equal_read_all [of sample_text_layout sample_config _ Ascii]
    by (auto simp: sample_text_layout_def sample_config_def)
qed

text \<open>
  A scan that is resumed from its token (the index of the source and the number of records
  seen) after any number of batches delivers the same next batch, and is in the same state
  after it, as the scan that was not interrupted.
\<close>

theorem resume_continues:
  "0 < limit \<Longrightarrow> reachable limit dec rc p \<Longrightarrow>
   next_rows limit dec rc (p\<lparr> pr_current := None \<rparr>) = next_rows limit dec rc p"
  using reachable_consistent [of limit dec rc p] fill_batch_resume [of rc p "[]" limit dec]
  by (simp add: next_rows_def)

theorem resume_continues_witness:
  "\<exists>c p. pr_seen p = 1 \<and> pr_current p \<noteq> None \<and>
     next_rows 1 (decode_row c sample_text_layout Ascii) sample_config (p\<lparr> pr_current := None \<rparr>)
       = next_rows 1 (decode_row c sample_text_layout Ascii) sample_config p"
proof -
  have "(case next_rows 1 (decode_row c sample_text_layout Ascii) sample_config start_producer of
      (Inr (Some rows), p) \<Rightarrow> pr_seen p = 1 \<and> pr_current p \<noteq> None | _ \<Rightarrow> False)" for c
    by code_simp
  moreover fix c
  obtain r p where p: "next_rows 1 (decode_row c sample_text_layout Ascii) sample_config start_producer = (r, p)"
    by (cases "next_rows 1 (decode_row c sample_text_layout Ascii) sample_config start_producer")
  ultimately have "(case r of Inr (Some rows) \<Rightarrow> pr_seen p = 1 \<and> pr_current p \<noteq> None | _ \<Rightarrow> False)"
    by (metis (no_types, lifting) prod.case)
  then obtain rows where rows: "r = Inr (Some rows)" and seen: "pr_seen p = 1" "pr_current p \<noteq> None"
    by (auto split: sum.splits option.splits)
  have "reachable 1 (decode_row c sample_text_layout Ascii) sample_config p"
    by (rule reachable_batch [OF reachable_start p [unfolded rows]])
  then show ?thesis
    using resume_continues [of 1 "decode_row c sample_text_layout Ascii" sample_config p] seen by auto
qed

end
