(* ===== verification/Batch.thy ===== *)
theory Batch
  imports Arrow
begin

text \<open>
  Record batches: the calls of \<open>RecordBatch::try_new\<close>, to which \<open>build_batch\<close> of \<open>reader.rs\<close> and \<open>read\<close>
  of \<open>copy_from.rs\<close> hand their columns, its contract, and what makes it accept them: the type and the
  length of the arrays that \<open>build_array\<close> builds.
\<close>

section \<open>Batches\<close>

fun arr_type :: "arr \<Rightarrow> data_type" where
  "arr_type (APrim dt cells) = dt"
| "arr_type (AList item offsets child valid) = TList item"
| "arr_type (AStruct fs arrays valid) = TStruct fs"

fun arr_len :: "arr \<Rightarrow> nat" where
  "arr_len (APrim dt cells) = length cells"
| "arr_len (AList item offsets child valid) = length valid"
| "arr_len (AStruct fs arrays valid) = length valid"

fun has_nulls :: "arr \<Rightarrow> bool" where
  "has_nulls (APrim dt cells) = (None \<in> set cells)"
| "has_nulls (AList item offsets child valid) = (False \<in> set valid)"
| "has_nulls (AStruct fs arrays valid) = (False \<in> set valid)"

text \<open>\<open>RecordBatch::try_new(...).map_err(...)\<close>\<close>

definition record_batch :: "arrow_lib \<Rightarrow> afield list \<Rightarrow> arr list \<Rightarrow> arrow_error + arr list" where
  "record_batch ar schema columns =
     (case al_batch ar schema columns of None \<Rightarrow> Inr columns | Some e \<Rightarrow> Inl (BatchRefused e))"

text \<open>
  What Arrow documents of \<open>try_new\<close>: it accepts one column for every field, at least one of them, of
  the type of the field, without NULL where the field has none, and as many rows in each.
\<close>

definition batch_shape :: "afield list \<Rightarrow> arr list \<Rightarrow> bool" where
  "batch_shape schema columns \<longleftrightarrow>
     columns \<noteq> [] \<and> map arr_type columns = map af_type schema
     \<and> list_all2 (\<lambda>a f. af_nullable f \<or> \<not> has_nulls a) columns schema
     \<and> list_all (\<lambda>a. arr_len a = arr_len (hd columns)) columns"

definition accepts_batches :: "arrow_lib \<Rightarrow> bool" where
  "accepts_batches ar \<longleftrightarrow> (\<forall>schema columns. batch_shape schema columns \<longrightarrow> al_batch ar schema columns = None)"

lemma accepting_accepts: "accepts_batches accepting_arrow"
  by (simp add: accepts_batches_def accepting_arrow_def)

section \<open>The shape of a built array\<close>

lemma list_parts_valid: "list_parts acc col = Inr (flat, offsets, valid) \<Longrightarrow> length valid = length col"
  by (induction acc col arbitrary: flat offsets valid rule: list_parts.induct)
    (auto simp: Let_def rbind_def split: fval.splits sum.splits)

lemma build_array_shape:
  "build_array ar dt col = Inr a \<Longrightarrow> arr_type a = dt \<and> arr_len a = length col"
  "build_children ar fs cs = Inr as \<Longrightarrow> length fs = length cs \<Longrightarrow>
     map arr_type as = map af_type fs \<and> map arr_len as = map length cs"
proof (induction ar dt col and ar fs cs arbitrary: a and as rule: build_array_build_children.induct)
qed (auto simp: rbind_def rmap_value_def split: sum.splits prod.splits if_splits dest: list_parts_valid rmap_length)

section \<open>Batches of built arrays\<close>

lemma record_batch_accepts:
  assumes "accepts_batches ar" "map arr_type columns = map af_type schema" "map arr_len columns = replicate (length schema) n"
    and "schema \<noteq> []" "list_all af_nullable schema"
  shows "record_batch ar schema columns = Inr columns"
proof -
  have len: "length columns = length schema"
    using assms(2) by (rule map_eq_imp_length_eq)
  have "arr_len a = n" if "a \<in> set columns" for a
    using that assms(3) by (metis image_eqI in_set_replicate list.set_map)
  then have "list_all (\<lambda>a. arr_len a = arr_len (hd columns)) columns"
    using len assms(4) by (cases columns) (auto simp: list_all_iff)
  moreover have "list_all2 (\<lambda>a f. af_nullable f \<or> \<not> has_nulls a) columns schema"
    using len assms(5) by (auto simp: list_all2_conv_all_nth list_all_length)
  ultimately have "batch_shape schema columns"
    using assms(2,4) len by (auto simp: batch_shape_def)
  then show ?thesis
    using assms(1) by (simp add: record_batch_def accepts_batches_def)
qed

end
