(* ===== verification/Scan.thy ===== *)
theory Scan
  imports Reader Batch
begin

text \<open>
  The batches that the scans deliver: the projected columns of \<open>read_fixed\<close>
  (\<open>StreamingProducer::new\<close> and \<open>build_batch\<close> of \<open>reader.rs\<close>), the union column of
  \<open>read_multi\<close> and \<open>unpack_multi\<close> (\<open>table/read_multi.rs\<close>), and reading a union element
  (\<open>union_at\<close> of \<open>value_in.rs\<close>).
\<close>

section \<open>Projected columns\<close>

definition projection_of :: "rstr list \<Rightarrow> rstr list \<Rightarrow> worker_error + nat list" where
  "projection_of names full_names =
     rmap (\<lambda>name. ok_or (position (\<lambda>n. eq_ignore_ascii_case n name) full_names) (ProjectedColumn name)) names"

text \<open>
  The values that one row gives to the columns: each is moved out of the row (\<open>mem::replace\<close>),
  so a second column for the same slot gets NULL, as does a column beyond the end of the row.
\<close>

fun take_values :: "nat list \<Rightarrow> fval list \<Rightarrow> fval list" where
  "take_values [] row = []"
| "take_values (src # srcs) row =
     (if src < length row then row ! src # take_values srcs (row[src := VNull])
      else VNull # take_values srcs row)"

definition columns_of :: "nat list \<Rightarrow> fval list list \<Rightarrow> fval list list" where
  "columns_of projection rows =
     map (\<lambda>i. map (\<lambda>row. take_values projection row ! i) rows) [0..<length projection]"

definition build_batch ::
  "arrow_lib \<Rightarrow> afield list \<Rightarrow> nat list \<Rightarrow> fval list list \<Rightarrow> arrow_error + arr list" where
  "build_batch ar schema projection rows =
     rbind (build_children ar schema (columns_of projection rows)) (record_batch ar schema)"

definition scan_next ::
  "arrow_lib \<Rightarrow> chrono \<Rightarrow> layout \<Rightarrow> encoding \<Rightarrow> afield list \<Rightarrow> nat list \<Rightarrow> read_config \<Rightarrow> producer
     \<Rightarrow> (worker_error + arr list option) \<times> producer" where
  "scan_next ar c l enc schema projection rc p =
     (case next_batch (decode_row c l enc) rc p of
        (Inl e, p) \<Rightarrow> (Inl e, p)
      | (Inr None, p) \<Rightarrow> (Inr None, p)
      | (Inr (Some rows), p) \<Rightarrow> (map_err ArrowFailed (rmap_value Some (build_batch ar schema projection rows)), p))"

section \<open>Union columns\<close>

definition MAX_VARIANTS :: nat where
  "MAX_VARIANTS = 127"

text \<open>One row of \<open>read_multi\<close>: the index of the variant and the struct of its fields.\<close>

definition multi_row :: "chrono \<Rightarrow> multi_layout \<Rightarrow> encoding \<Rightarrow> bytes \<Rightarrow> error + (nat \<times> fval)" where
  "multi_row c m enc rec =
     rbind (select m rec enc) (\<lambda>(vidx, l).
     rbind (decode_record c l rec enc) (\<lambda>pairs. Inr (vidx, VStruct pairs)))"

definition multi_record_length :: "int option \<Rightarrow> multi_layout \<Rightarrow> nat" where
  "multi_record_length arg m =
     (case arg of
        Some n \<Rightarrow> nat (max n 0)
      | None \<Rightarrow> max_of (map (\<lambda>v. l_record_len (snd v)) (m_variants m)))"

definition check_framing :: "multi_layout \<Rightarrow> framing \<Rightarrow> worker_error + unit" where
  "check_framing m framing =
     (if framing = Fixed then
        (case find (\<lambda>v. l_variable (snd v)) (m_variants m) of
           Some (tag, l) \<Rightarrow> Inl (VariableRecordType tag)
         | None \<Rightarrow> Inr ())
      else Inr ())"

type_synonym union_fields = "(8 word \<times> afield) list"

definition union_fields_of :: "multi_layout \<Rightarrow> worker_error + union_fields" where
  "union_fields_of m =
     (if length (m_variants m) > MAX_VARIANTS then Inl (TooManyVariants (length (m_variants m)))
      else
        rmap_value (zip (map word_of_nat [0..<length (m_variants m)]))
          (rmap (\<lambda>(tag, l). map_err ArrowFailed (rmap_value (\<lambda>ty. AField tag ty True) (layout_struct_type l)))
             (m_variants m)))"

record union_array =
  ua_fields :: union_fields
  ua_type_ids :: "8 word list"
  ua_children :: "arr list"

text \<open>The loop of \<open>build_union_array\<close>: the type ids and the columns of the variants.\<close>

fun union_columns ::
  "(nat \<times> fval) list \<Rightarrow> 8 word list \<Rightarrow> fval list list \<Rightarrow> arrow_error + (8 word list \<times> fval list list)" where
  "union_columns [] ids cols = Inr (ids, cols)"
| "union_columns ((vidx, v) # rows) ids cols =
     (let cols = map (\<lambda>col. col @ [VNull]) cols in
      if vidx < length cols then
        union_columns rows (ids @ [word_of_nat vidx]) (cols[vidx := butlast (cols ! vidx) @ [v]])
      else Inl (ArrowPanic ''index out of bounds''))"

definition build_union_array ::
  "arrow_lib \<Rightarrow> union_fields \<Rightarrow> (nat \<times> fval) list \<Rightarrow> arrow_error + union_array" where
  "build_union_array ar uf rows =
     rbind (union_columns rows [] (replicate (length uf) [])) (\<lambda>(ids, cols).
     rbind (build_children ar (map snd uf) cols) (\<lambda>children.
     Inr \<lparr> ua_fields = uf, ua_type_ids = ids, ua_children = children \<rparr>))"

definition union_at :: "union_array \<Rightarrow> nat \<Rightarrow> arrow_error + (rstr \<times> pairs)" where
  "union_at u row =
     (let type_id = ua_type_ids u ! row in
      case position (\<lambda>(tid, _). tid = type_id) (ua_fields u) of
        None \<Rightarrow> Inl (TypeIdUnknown type_id)
      | Some k \<Rightarrow>
          let tag = af_name (snd (ua_fields u ! k)) in
          rbind (value_at (ua_children u ! k) row) (\<lambda>v.
            case v of
              VStruct pairs \<Rightarrow> Inr (tag, pairs)
            | VNull \<Rightarrow> Inr (tag, [])
            | _ \<Rightarrow> Inl (VariantNotStruct tag v)))"

section \<open>Facts on projection\<close>

lemma take_values_length [simp]: "length (take_values srcs row) = length srcs"
  by (induction srcs row rule: take_values.induct) simp_all

lemma take_values_distinct:
  "distinct srcs \<Longrightarrow> set srcs \<subseteq> {..<length row} \<Longrightarrow> take_values srcs row = map ((!) row) srcs"
proof (induction srcs row rule: take_values.induct)
  case (2 src srcs row)
  have "map ((!) (row[src := VNull])) srcs = map ((!) row) srcs"
    using 2(3) by (intro map_cong refl nth_list_update_neq) auto
  then show ?case
    using 2 by simp
qed simp

lemma take_values_null:
  "(srcs ! j < length row \<longrightarrow> row ! (srcs ! j) = VNull) \<Longrightarrow> j < length srcs \<Longrightarrow> take_values srcs row ! j = VNull"
proof (induction srcs row arbitrary: j rule: take_values.induct)
  case (2 src srcs row)
  show ?case
  proof (cases j)
    case (Suc k)
    then show ?thesis
      using 2(1) [of k] 2(2) [of k] 2(3,4) by (auto simp: nth_list_update)
  qed (use 2(3) in simp)
qed simp

lemma take_values_again:
  "i < j \<Longrightarrow> j < length srcs \<Longrightarrow> srcs ! i = srcs ! j \<Longrightarrow> take_values srcs row ! j = VNull"
proof (induction srcs row arbitrary: i j rule: take_values.induct)
  case (2 src srcs row)
  obtain k where j: "j = Suc k" "k < length srcs"
    using 2(3,4) by (cases j) auto
  show ?case
  proof (cases i)
    case 0
    then have "srcs ! k = src"
      using 2(5) j by simp
    then show ?thesis
      using j take_values_null [of srcs k "row[src := VNull]"] take_values_null [of srcs k row] by auto
  next
    case (Suc m)
    then show ?thesis
      using 2(1) [of m k] 2(2) [of m k] 2(3,5) j by auto
  qed
qed simp

lemma columns_of_nth:
  "i < length projection \<Longrightarrow> k < length rows \<Longrightarrow> columns_of projection rows ! i ! k = take_values projection (rows ! k) ! i"
  by (simp add: columns_of_def)

lemma projection_found:
  "projection_of names full = Inr projection \<Longrightarrow> i < length names \<Longrightarrow>
   projection ! i < length full \<and> eq_ignore_ascii_case (full ! (projection ! i)) (names ! i)"
  using rmap_nth [of "\<lambda>name. ok_or (position (\<lambda>n. eq_ignore_ascii_case n name) full) (ProjectedColumn name)" names projection i]
    position_Some [of "\<lambda>n. eq_ignore_ascii_case n (names ! i)" full "projection ! i"]
  by (auto simp: projection_of_def)

lemma projection_distinct:
  assumes "projection_of names full = Inr projection" "distinct (map to_ascii_lowercase names)"
  shows "distinct projection"
proof -
  have len: "length projection = length names"
    using assms(1) by (auto simp: projection_of_def dest: rmap_length)
  have "i = j" if "i < length names" "j < length names" "projection ! i = projection ! j" for i j
    using projection_found [OF assms(1) that(1)] projection_found [OF assms(1) that(2)] that assms(2)
    by (simp add: eq_ignore_ascii_case_def nth_eq_iff_index_eq [symmetric, of "map to_ascii_lowercase names"])
  then show ?thesis
    by (auto simp: distinct_conv_nth len)
qed

section \<open>Facts on batches\<close>

lemma arrow_fields_nullable: "arrow_fields fs = Inr as \<Longrightarrow> list_all af_nullable as"
  by (induction fs arbitrary: as) (auto simp: arrow_field.simps rbind_def split: sum.splits if_splits)

lemma columns_of_shape: "length (columns_of projection rows) = length projection"
    "map length (columns_of projection rows) = replicate (length projection) (length rows)"
  by (simp_all add: columns_of_def map_replicate_const comp_def)

lemma build_batch_children:
  assumes "accepts_batches ar" "length projection = length schema" "schema \<noteq> []" "list_all af_nullable schema"
  shows "build_batch ar schema projection rows = build_children ar schema (columns_of projection rows)"
proof (cases "build_children ar schema (columns_of projection rows)")
  case (Inr columns)
  have "map arr_type columns = map af_type schema" "map arr_len columns = replicate (length schema) (length rows)"
    using build_array_shape(2) [OF Inr] columns_of_shape [of projection rows] assms(2) by simp_all
  then show ?thesis
    using record_batch_accepts [OF assms(1) _ _ assms(3,4)] Inr by (simp add: build_batch_def)
qed (simp add: build_batch_def)

text \<open>The rows of a batch are decoded records.\<close>

lemma fill_batch_rows:
  "fill_batch dec rc limit p rows = (Inr rows', p') \<Longrightarrow> (\<And>rec row. dec rec = Inr row \<Longrightarrow> P row) \<Longrightarrow> \<forall>row \<in> set rows. P row \<Longrightarrow>
   \<forall>row \<in> set rows'. P row"
proof (induction dec rc limit p rows rule: fill_batch.induct)
  case (1 dec rc limit p rows)
  note step = "1.prems"(1) [unfolded fill_batch.simps [of dec rc limit p rows]]
  show ?case
  proof (cases "limit \<le> length rows \<or> pr_current p = None \<and> length (rc_sources rc) \<le> pr_idx p")
    case True
    then show ?thesis
      using step "1.prems"(3) by (auto split: if_splits)
  next
    case False
    then have guard: "\<not> limit \<le> length rows" "\<not> (pr_current p = None \<and> length (rc_sources rc) \<le> pr_idx p)"
      by auto
    obtain st where st: "current_stream rc p = Inr st"
      using step guard by (cases "current_stream rc p") auto
    obtain r st' where n: "stream_next st = (r, st')"
      by (cases "stream_next st")
    show ?thesis
    proof (cases r)
      case None
      then show ?thesis
        using step guard st n "1.prems"(2,3)
        by (intro "1.IH"(1) [OF guard st refl n [symmetric] None]) simp_all
    next
      case (Some x)
      then obtain rec row where x: "x = Inr rec" "dec rec = Inr row"
        using step guard st n by (cases x; cases "dec (projr x)") (auto simp: Let_def)
      then show ?thesis
        using step guard st n Some "1.prems"(2,3)
        by (intro "1.IH"(2) [OF guard st refl n [symmetric] Some refl x]) (auto simp: Let_def)
    qed
  qed
qed

lemma next_batch_rows:
  "next_batch dec rc p = (Inr (Some rows), p') \<Longrightarrow> (\<And>rec row. dec rec = Inr row \<Longrightarrow> P row) \<Longrightarrow> \<forall>row \<in> set rows. P row"
  using fill_batch_rows [of dec rc BATCH_ROWS p "[]" rows p' P]
  by (auto simp: next_batch_def next_rows_def split: prod.splits sum.splits if_splits)

text \<open>The values that a row gives to the columns belong to their types, and have no more list items than the row.\<close>

lemma take_values_cases: "j < length srcs \<Longrightarrow> take_values srcs row ! j = VNull \<or> srcs ! j < length row \<and> take_values srcs row ! j = row ! (srcs ! j)"
proof (induction srcs row arbitrary: j rule: take_values.induct)
  case (2 src srcs row)
  show ?case
    using 2(1) [of "j - 1"] 2(2) [of "j - 1"] 2(3) by (cases j) (auto simp: nth_list_update split: if_splits)
qed simp

lemma projection_field:
  assumes "projection_of (map af_name schema) (map af_name full) = Inr projection" "set schema \<subseteq> set full"
    "distinct (map (\<lambda>f. to_ascii_lowercase (af_name f)) full)" "j < length schema"
  shows "projection ! j < length full" "full ! (projection ! j) = schema ! j"
proof -
  have found: "projection ! j < length full" "to_ascii_lowercase (af_name (full ! (projection ! j))) = to_ascii_lowercase (af_name (schema ! j))"
    using projection_found [OF assms(1), of j] assms(4) by (auto simp: eq_ignore_ascii_case_def)
  obtain k where k: "k < length full" "full ! k = schema ! j"
    using assms(2,4) by (metis in_set_conv_nth nth_mem subsetD)
  then have "projection ! j = k"
    using found assms(3) by (metis (no_types, lifting) distinct_conv_nth length_map nth_map)
  then show "projection ! j < length full" "full ! (projection ! j) = schema ! j"
    using found k by simp_all
qed

definition row_items :: "fval list \<Rightarrow> nat" where
  "row_items row = sum_list (map item_count row)"

lemma row_items_nth: "i < length row \<Longrightarrow> item_count (row ! i) \<le> row_items row"
  unfolding row_items_def using elem_le_sum_list [of i "map item_count row"] by simp

lemma column_items: "j < length projection \<Longrightarrow> sum_list (map item_count (columns_of projection rows ! j)) \<le> sum_list (map row_items rows)"
proof (induction rows)
  case (Cons row rows)
  have "item_count (take_values projection row ! j) \<le> row_items row"
    using take_values_cases [OF Cons.prems, of row] row_items_nth by auto
  then show ?case
    using Cons by (simp add: columns_of_def)
qed (simp add: columns_of_def)

lemma columns_of_fit:
  assumes "projection_of (map af_name schema) (map af_name full) = Inr projection" "set schema \<subseteq> set full"
    "distinct (map (\<lambda>f. to_ascii_lowercase (af_name f)) full)" "j < length schema"
    "\<forall>row \<in> set rows. \<exists>vs. row = map snd vs \<and> fits_row P full vs"
  shows "fits_all P (af_type (schema ! j)) (columns_of projection rows ! j)"
proof -
  have len: "j < length projection"
    using assms(1,4) by (auto simp: projection_of_def dest: rmap_length)
  have "fits P (af_type (schema ! j)) (take_values projection row ! j)" if "row \<in> set rows" for row
    using take_values_cases [OF len, of row] projection_field [OF assms(1-4)] assms(5) that by (fastforce simp: fits_row_iff)
  then show ?thesis
    using len by (simp add: columns_of_def fits_all_iff)
qed

section \<open>Facts on unions\<close>

text \<open>The columns of a list of rows: in each variant, the values of its rows and NULL elsewhere.\<close>

definition variant_column :: "nat \<Rightarrow> (nat \<times> fval) list \<Rightarrow> fval list" where
  "variant_column k rows = map (\<lambda>(vidx, v). if vidx = k then v else VNull) rows"

lemma union_columns_eq:
  "\<forall>r \<in> set rows. fst r < n \<Longrightarrow> length cols = n \<Longrightarrow>
   union_columns rows ids cols
     = Inr (ids @ map (\<lambda>r. word_of_nat (fst r)) rows, map (\<lambda>k. cols ! k @ variant_column k rows) [0..<n])"
proof (induction rows ids cols rule: union_columns.induct)
  case (1 ids cols)
  then show ?case
    by (auto simp: variant_column_def intro: nth_equalityI)
next
  case (2 vidx v rows ids cols)
  let ?cols = "map (\<lambda>col. col @ [VNull]) cols"
  have "map (\<lambda>k. (?cols[vidx := butlast (?cols ! vidx) @ [v]]) ! k @ variant_column k rows) [0..<n]
      = map (\<lambda>k. cols ! k @ variant_column k ((vidx, v) # rows)) [0..<n]"
    using 2(2,3) by (auto simp: variant_column_def nth_list_update)
  then show ?case
    using 2 by (simp add: Let_def)
qed

lemma word_ids_distinct: "n \<le> 256 \<Longrightarrow> distinct (map (word_of_nat :: nat \<Rightarrow> 8 word) [0..<n])"
proof -
  assume n: "n \<le> 256"
  have "inj_on (word_of_nat :: nat \<Rightarrow> 8 word) {0..<n}"
    using n byte_of_inj by (intro inj_onI) (simp add: byte_of_def)
  then show ?thesis
    by (simp add: distinct_map)
qed

lemma union_fields_shape:
  assumes "union_fields_of m = Inr uf"
  shows "length uf = length (m_variants m)" "distinct (map fst uf)"
    "i < length uf \<Longrightarrow> fst (uf ! i) = word_of_nat i \<and> af_name (snd (uf ! i)) = fst (m_variants m ! i)
       \<and> layout_struct_type (snd (m_variants m ! i)) = Inr (af_type (snd (uf ! i)))"
proof -
  let ?g = "\<lambda>(tag, l). map_err ArrowFailed (rmap_value (\<lambda>ty. AField tag ty True) (layout_struct_type l))"
  obtain fs where n: "length (m_variants m) \<le> 127" and fs: "rmap ?g (m_variants m) = Inr fs"
    and uf: "uf = zip (map word_of_nat [0..<length (m_variants m)]) fs"
    using assms by (auto simp: union_fields_of_def MAX_VARIANTS_def split: if_splits)
  have len: "length fs = length (m_variants m)"
    using fs by (rule rmap_length)
  show "length uf = length (m_variants m)" "distinct (map fst uf)"
    using n len by (simp_all add: uf word_ids_distinct)
  assume "i < length uf"
  then have "?g (m_variants m ! i) = Inr (fs ! i)" "i < length (m_variants m)"
    using rmap_nth [OF fs, of i] len by (simp_all add: uf)
  then show "fst (uf ! i) = word_of_nat i \<and> af_name (snd (uf ! i)) = fst (m_variants m ! i)
       \<and> layout_struct_type (snd (m_variants m ! i)) = Inr (af_type (snd (uf ! i)))"
    using len by (cases "m_variants m ! i") (auto simp: uf map_err_def split: sum.splits)
qed

lemma union_reads_back:
  assumes uf: "distinct (map fst uf)" "\<And>i. i < length uf \<Longrightarrow> fst (uf ! i) = word_of_nat i"
    and st: "\<forall>f \<in> set uf. storable ar (af_type (snd f))"
    and rows: "\<forall>(i, ps) \<in> set rows. i < length uf \<and> fits lossless (af_type (snd (uf ! i))) (VStruct ps)"
    and few: "sum_list (map (\<lambda>(i, ps). item_count (VStruct ps)) rows) < 2 ^ 31"
  shows "\<exists>u. build_union_array ar uf (map (\<lambda>(i, ps). (i, VStruct ps)) rows) = Inr u
    \<and> (\<forall>r < length rows. union_at u r = Inr (af_name (snd (uf ! fst (rows ! r))), snd (rows ! r)))"
proof -
  let ?rows = "map (\<lambda>(i, ps). (i, VStruct ps)) rows" and ?n = "length uf"
  let ?cols = "map (\<lambda>k. variant_column k ?rows) [0..<?n]"
  let ?ids = "map (\<lambda>r. word_of_nat (fst r)) ?rows"
  have cols: "union_columns ?rows [] (replicate ?n []) = Inr (?ids, ?cols)"
    using rows union_columns_eq [of ?rows ?n "replicate ?n []" "[]"] by (auto simp: case_prod_beta)
  have count: "sum_list (map item_count (variant_column k ?rows)) < 2 ^ 31" for k
  proof -
    have "sum_list (map item_count (variant_column k ?rows)) \<le> sum_list (map (\<lambda>(i, ps). item_count (VStruct ps)) rows)"
      by (induction rows) (auto simp: variant_column_def intro: add_mono)
    then show ?thesis
      using few by linarith
  qed
  have fit: "fits_all lossless (af_type (map snd uf ! k)) (?cols ! k)" if "k < ?n" for k
    using that rows by (auto simp: fits_all_iff variant_column_def case_prod_beta)
  obtain children where ch: "build_children ar (map snd uf) ?cols = Inr children" "length children = ?n"
    "\<And>k i. k < ?n \<Longrightarrow> i < length rows \<Longrightarrow> value_at (children ! k) i = Inr (variant_column k ?rows ! i)"
    using build_reads_back(2) [of "map snd uf" ar ?cols] st fit count by (auto simp: variant_column_def)
  let ?u = "\<lparr> ua_fields = uf, ua_type_ids = ?ids, ua_children = children \<rparr>"
  have "build_union_array ar uf ?rows = Inr ?u"
    by (simp add: build_union_array_def cols ch(1))
  moreover have "union_at ?u r = Inr (af_name (snd (uf ! fst (rows ! r))), snd (rows ! r))" if "r < length rows" for r
  proof -
    obtain i ps where row: "rows ! r = (i, ps)"
      by (cases "rows ! r")
    moreover have "(i, ps) \<in> set rows"
      using nth_mem [OF that] row by simp
    ultimately have less: "i < ?n"
      using rows by blast
    then have "position (\<lambda>(tid, _). tid = word_of_nat i) uf = Some i"
      using position_distinct [OF uf(1), of i] uf(2) by simp
    then show ?thesis
      using that row less ch(3) [of i r] by (simp add: union_at_def Let_def variant_column_def)
  qed
  ultimately show ?thesis
    by blast
qed

section \<open>Properties\<close>

text \<open>
  C29. Projection puts every value under the right column: with column names that differ by more
  than case, column \<open>i\<close> of a batch holds, row by row, the value of the decoded field whose name
  equals the column name up to case, whatever columns were asked for in whatever order.
\<close>

theorem projected_columns:
  assumes "projection_of names full = Inr projection" "distinct (map to_ascii_lowercase names)"
    "\<forall>row \<in> set rows. length row = length full" "i < length names"
  shows "\<exists>j < length full. eq_ignore_ascii_case (full ! j) (names ! i) \<and>
    columns_of projection rows ! i = map (\<lambda>row. row ! j) rows"
proof -
  have len: "length projection = length names"
    using assms(1) by (auto simp: projection_of_def dest: rmap_length)
  have "set projection \<subseteq> {..<length full}"
    using projection_found [OF assms(1)] len by (auto simp: in_set_conv_nth)
  then have "take_values projection row ! i = row ! (projection ! i)" if "row \<in> set rows" for row
    using take_values_distinct [OF projection_distinct [OF assms(1,2)], of row] that assms(3,4) len by simp
  then have "columns_of projection rows ! i = map (\<lambda>row. row ! (projection ! i)) rows"
    using assms(4) len by (simp add: columns_of_def)
  then show ?thesis
    using projection_found [OF assms(1,4)] by blast
qed

theorem projected_columns_witness:
  "\<exists>projection. projection_of [[67], [97]] [[65], [66], [67]] = Inr projection \<and>
     columns_of projection [[VInt 1, VInt 2, VInt 3], [VInt 4, VInt 5, VInt 6]] ! 0 = [VInt 3, VInt 6]"
proof -
  have "projection_of [[67], [97]] [[65], [66], [67]] = Inr [2, 0]"
    by code_simp
  moreover have "\<exists>j < length [[65], [66], [67 :: rchar]]. eq_ignore_ascii_case ([[65], [66], [67]] ! j) ([[67], [97]] ! 0) \<and>
      columns_of [2, 0] [[VInt 1, VInt 2, VInt 3], [VInt 4, VInt 5, VInt 6]] ! 0
        = map (\<lambda>row. row ! j) [[VInt 1, VInt 2, VInt 3], [VInt 4, VInt 5, VInt 6]]"
    by (rule projected_columns [OF calculation]) (simp_all add: to_ascii_lowercase_def lower_char_def is_ascii_upper_def)
  ultimately show ?thesis
    by (auto simp: less_Suc_eq eq_ignore_ascii_case_def to_ascii_lowercase_def lower_char_def is_ascii_upper_def)
qed

text \<open>
  Of two columns whose names are equal up to case, the second is NULL in every row: both are
  mapped to the same decoded field, and the first one moves its value out of the row.
\<close>

theorem homonym_column_lost:
  assumes "projection_of names full = Inr projection" "i < j" "j < length names"
    "eq_ignore_ascii_case (names ! i) (names ! j)"
  shows "columns_of projection rows ! j = replicate (length rows) VNull"
proof -
  let ?f = "\<lambda>name. ok_or (position (\<lambda>n. eq_ignore_ascii_case n name) full) (ProjectedColumn name)"
  have len: "length projection = length names" and r: "rmap ?f names = Inr projection"
    using assms(1) by (auto simp: projection_of_def dest: rmap_length)
  have "(\<lambda>n. eq_ignore_ascii_case n (names ! i)) = (\<lambda>n. eq_ignore_ascii_case n (names ! j))"
    using assms(4) by (auto simp: eq_ignore_ascii_case_def)
  then have "projection ! i = projection ! j"
    using rmap_nth [OF r, of i] rmap_nth [OF r, of j] assms(2,3) by auto
  then show ?thesis
    using assms(2,3) len take_values_again [of i j projection]
    by (auto simp: columns_of_def map_replicate_const [symmetric])
qed

theorem homonym_column_lost_witness:
  "columns_of [0, 0] [[VInt 1, VInt 2]] ! 1 = [VNull]"
proof -
  have "projection_of [[97], [65]] [[97], [65]] = Inr [0, 0]"
    by code_simp
  from homonym_column_lost [OF this, of 0 1 "[[VInt 1, VInt 2]]"] show ?thesis
    by (simp add: eq_ignore_ascii_case_def to_ascii_lowercase_def lower_char_def is_ascii_upper_def)
qed

text \<open>
  C17. A union column reads back: from the array that \<open>read_multi\<close> builds for rows of any variants
  of a spec, \<open>union_at\<close> gives for every row the tag of its variant and its fields. Every variant
  has to be a type that the builders store without loss; one with fillers only is not (a struct array
  without members cannot be built).
\<close>

theorem union_array_reads_back:
  assumes "union_fields_of m = Inr uf" "\<forall>f \<in> set uf. storable ar (af_type (snd f))"
    "\<forall>(i, ps) \<in> set rows. i < length uf \<and> fits lossless (af_type (snd (uf ! i))) (VStruct ps)"
    "sum_list (map (\<lambda>(i, ps). item_count (VStruct ps)) rows) < 2 ^ 31"
  shows "\<exists>u. build_union_array ar uf (map (\<lambda>(i, ps). (i, VStruct ps)) rows) = Inr u
    \<and> (\<forall>r < length rows. union_at u r = Inr (fst (m_variants m ! fst (rows ! r)), snd (rows ! r)))"
proof -
  note shape = union_fields_shape [OF assms(1)]
  have "af_name (snd (uf ! fst (rows ! r))) = fst (m_variants m ! fst (rows ! r))" if "r < length rows" for r
    using shape(3) [of "fst (rows ! r)"] nth_mem [OF that] assms(3) by (auto simp: case_prod_beta)
  then show ?thesis
    using union_reads_back [OF shape(2) _ assms(2-4)] shape(3) by fastforce
qed

definition sample_multi :: multi_layout where
  "sample_multi =
     \<lparr> m_disc_offset = 0, m_disc_width = 1,
       m_variants =
         [([72], \<lparr> l_record_len = 2, l_fields = [Field [] 0 1 (KPad 0) None None None, Field [97] 1 1 KBool None None None], l_variable = False \<rparr>),
          ([68], \<lparr> l_record_len = 3, l_fields = [Field [] 0 1 (KPad 0) None None None, Field [98] 1 2 (KBinary Big True) None None None], l_variable = False \<rparr>)],
       m_default = None \<rparr>"

theorem union_array_reads_back_witness:
  "\<exists>uf u. union_fields_of sample_multi = Inr uf \<and>
     build_union_array accepting_arrow uf [(1, VStruct [([98], VInt 7)]), (0, VStruct [([97], VBool True)])] = Inr u \<and>
     union_at u 0 = Inr ([68], [([98], VInt 7)]) \<and> union_at u 1 = Inr ([72], [([97], VBool True)])"
proof -
  let ?uf = "[(0, AField [72] (TStruct [AField [97] TBoolean True]) True), (1, AField [68] (TStruct [AField [98] (TInt 64) True]) True)]"
  let ?rows = "[(1, [([98], VInt 7)]), (0, [([97], VBool True)])] :: (nat \<times> pairs) list"
  have uf: "union_fields_of sample_multi = Inr ?uf"
    by code_simp
  have "\<exists>u. build_union_array accepting_arrow ?uf (map (\<lambda>(i, ps). (i, VStruct ps)) ?rows) = Inr u
      \<and> (\<forall>r < length ?rows. union_at u r = Inr (fst (m_variants sample_multi ! fst (?rows ! r)), snd (?rows ! r)))"
    by (rule union_array_reads_back [OF uf]) (simp_all add: output_type_def lossless_def)
  then obtain u where "build_union_array accepting_arrow ?uf (map (\<lambda>(i, ps). (i, VStruct ps)) ?rows) = Inr u"
    "\<forall>r < length ?rows. union_at u r = Inr (fst (m_variants sample_multi ! fst (?rows ! r)), snd (?rows ! r))"
    by blast
  then have "build_union_array accepting_arrow ?uf [(1, VStruct [([98], VInt 7)]), (0, VStruct [([97], VBool True)])] = Inr u"
    "union_at u 0 = Inr ([68], [([98], VInt 7)])" "union_at u 1 = Inr ([72], [([97], VBool True)])"
    by (simp_all add: sample_multi_def less_Suc_eq)
  then show ?thesis
    using uf by blast
qed

text \<open>
  C11. A scan delivers its rows under the type that was bound: every batch has between one and
  \<open>BATCH_ROWS\<close> rows, and the rows of a layout are always turned into columns, in the order of the
  output schema and of its types, each with all the rows, whatever columns are projected; a scan
  reports only the errors of the records. The schema has types that the builders store, names of
  fields differ by more than case, scales are below 256, a batch has fewer than \<open>2^31\<close> list items, and
  Arrow accepts a batch of columns that have the types of the schema and the same length.
\<close>

theorem scan_batches_typed:
  assumes "layout_fields l = Inr full" "set schema \<subseteq> set full" "schema \<noteq> []"
    and "distinct (map (\<lambda>f. to_ascii_lowercase (af_name f)) full)" "list_all byte_scales (l_fields l)"
    and "projection_of (map af_name schema) (map af_name full) = Inr projection"
    and "accepts_batches ar" "\<forall>f \<in> set schema. storable ar (af_type f)"
    and "reachable BATCH_ROWS (decode_row c l enc) rc p"
  shows "case next_batch (decode_row c l enc) rc p of
      (Inr (Some rows), p') \<Rightarrow> 0 < length rows \<and> length rows \<le> BATCH_ROWS \<and>
        (sum_list (map row_items rows) < 2 ^ 31 \<longrightarrow>
          (\<exists>columns. scan_next ar c l enc schema projection rc p = (Inr (Some columns), p')
             \<and> map arr_type columns = map af_type schema
             \<and> map arr_len columns = replicate (length schema) (length rows)))
    | (r, p') \<Rightarrow> scan_next ar c l enc schema projection rc p = (map_sum id (\<lambda>_. None) r, p')"
proof -
  have proj: "length projection = length schema"
    using assms(6) by (auto simp: projection_of_def dest: rmap_length)
  have nullable: "list_all af_nullable schema"
    using arrow_fields_nullable assms(1,2) by (fastforce simp: layout_fields_def list_all_iff)
  have rows: "0 < length rows \<and> length rows \<le> BATCH_ROWS"
    if "next_batch (decode_row c l enc) rc p = (Inr (Some rows), p')" for rows p'
    using next_rows_contract [of BATCH_ROWS rc p "decode_row c l enc"] reachable_consistent [OF assms(9)] that
    by (cases "remaining (decode_row c l enc) rc p") (auto simp: next_batch_def BATCH_ROWS_def)
  have built: "\<exists>columns. build_batch ar schema projection rows = Inr columns \<and> map arr_type columns = map af_type schema
      \<and> map arr_len columns = replicate (length schema) (length rows)"
    if nb: "next_batch (decode_row c l enc) rc p = (Inr (Some rows), p')" and few: "sum_list (map row_items rows) < 2 ^ 31" for rows p'
  proof -
    have "\<forall>row \<in> set rows. \<exists>vs. row = map snd vs \<and> fits_row own_scale full vs"
      by (rule next_batch_rows [OF nb]) (use decode_record_fits(2) [OF _ assms(1,5)] in \<open>auto simp: decode_row_def\<close>)
    then have "fits_all own_scale (af_type (schema ! j)) (columns_of projection rows ! j)" if "j < length schema" for j
      using columns_of_fit [OF assms(6,2,4) that] by blast
    moreover have "sum_list (map item_count (columns_of projection rows ! j)) < 2 ^ 31" if "j < length schema" for j
      using column_items [of j projection rows] few that proj by linarith
    ultimately obtain columns where cols: "build_children ar schema (columns_of projection rows) = Inr columns"
      using build_succeeds(2) [of schema ar "columns_of projection rows"] assms(8) columns_of_shape(1) [of projection rows] proj by auto
    then show ?thesis
      using build_batch_children [OF assms(7) proj assms(3) nullable, of rows] build_array_shape(2) [OF cols]
        columns_of_shape [of projection rows] proj by simp
  qed
  obtain r p' where nb: "next_batch (decode_row c l enc) rc p = (r, p')"
    by (cases "next_batch (decode_row c l enc) rc p")
  consider (err) e where "r = Inl e" | (fin) "r = Inr None" | (some) rs where "r = Inr (Some rs)"
    by (metis not_None_eq obj_sumE)
  then show ?thesis
  proof cases
    case (some rs)
    then show ?thesis
      using rows [of rs p'] built [of rs p'] nb by (auto simp: scan_next_def map_err_def)
  qed (simp_all add: nb scan_next_def)
qed

theorem scan_batches_typed_witness:
  "\<exists>c p' columns. next_batch (decode_row c sample_text_layout Ascii) sample_config start_producer
      = (Inr (Some [[VText [65]], [VText [66]], [VText [67]]]), p')
    \<and> scan_next accepting_arrow c sample_text_layout Ascii [AField [84] TUtf8 True] [0] sample_config start_producer
      = (Inr (Some columns), p')
    \<and> map arr_type columns = [TUtf8] \<and> map arr_len columns = [3]"
proof -
  fix c
  let ?dec = "decode_row c sample_text_layout Ascii"
  let ?scan = "scan_next accepting_arrow c sample_text_layout Ascii [AField [84] TUtf8 True] [0] sample_config start_producer"
  obtain r p' where nb: "next_batch ?dec sample_config start_producer = (r, p')"
    by (cases "next_batch ?dec sample_config start_producer")
  have "fst (next_batch ?dec sample_config start_producer) = Inr (Some [[VText [65]], [VText [66]], [VText [67]]])"
    by code_simp
  then have r: "r = Inr (Some [[VText [65]], [VText [66]], [VText [67]]])"
    using nb by simp
  have "layout_fields sample_text_layout = Inr [AField [84] TUtf8 True]" "projection_of [[84]] [[84]] = Inr [0]"
    "list_all byte_scales (l_fields sample_text_layout)"
    by code_simp+
  then have "\<exists>columns. ?scan = (Inr (Some columns), p') \<and> map arr_type columns = [TUtf8] \<and> map arr_len columns = replicate 1 3"
    using scan_batches_typed [OF _ _ _ _ _ _ accepting_accepts _ reachable_start, of sample_text_layout "[AField [84] TUtf8 True]"
        "[AField [84] TUtf8 True]" "[0]" c Ascii sample_config] nb r
    by (simp add: row_items_def output_type_def numeral_3_eq_3)
  then obtain columns where "?scan = (Inr (Some columns), p')" "map arr_type columns = [TUtf8]" "map arr_len columns = [3]"
    by auto
  then show ?thesis
    using nb unfolding r by (intro exI conjI)
qed

end
