(* ===== verification/Writer.thy ===== *)
theory Writer
  imports Scan Specs
begin

text \<open>
  The sinks of the worker: encoding the rows of input batches (\<open>record_writer.rs\<close>,
  \<open>buffering/write_multi.rs\<close>), draining the buffered batches and writing the file
  (\<open>buffering/write_fixed.rs\<close>, \<open>buffering/write_multi.rs\<close>, \<open>copy_to.rs\<close>), and the two scalar
  functions on single records (\<open>scalar/pack.rs\<close>, \<open>scalar/unpack.rs\<close>). The storage of the
  buffered batches belongs to the worker SDK; its \<open>scan\<close> is a parameter, with its documented
  contract as the predicate \<open>append_log\<close>.
\<close>

section \<open>Encoding a batch\<close>

record batch =
  bt_names :: "rstr list"
  bt_columns :: "arr list"
  bt_rows :: nat

definition row_pairs :: "batch \<Rightarrow> nat \<Rightarrow> worker_error + pairs" where
  "row_pairs b row =
     rmap_value (zip (bt_names b)) (map_err ArrowFailed (rmap (\<lambda>col. value_at col row) (bt_columns b)))"

definition encode_batch :: "chrono \<Rightarrow> layout \<Rightarrow> encoding \<Rightarrow> batch \<Rightarrow> worker_error + bytes list" where
  "encode_batch c l enc b =
     rmap (\<lambda>row. rbind (row_pairs b row) (\<lambda>pairs. ve (encode_record c l pairs enc))) [0..<bt_rows b]"

text \<open>The discriminator is written over the record, which is extended with zeros if it is too short.\<close>

definition stamp :: "nat \<Rightarrow> nat \<Rightarrow> bytes \<Rightarrow> bytes \<Rightarrow> bytes" where
  "stamp off width disc rec =
     (let rec = rec @ replicate (off + width - length rec) 0 in
      take off rec @ disc @ drop (off + width) rec)"

definition encode_multi_row ::
  "chrono \<Rightarrow> multi_layout \<Rightarrow> encoding \<Rightarrow> rstr \<times> pairs \<Rightarrow> worker_error + bytes" where
  "encode_multi_row c m enc entry =
     (case entry of (tag, pairs) \<Rightarrow>
       rbind (ok_or (variant m tag) (VariantMissing tag)) (\<lambda>l.
       rbind (ve (encode_record c l pairs enc)) (\<lambda>rec.
       Inr (stamp (m_disc_offset m) (m_disc_width m) (encode_discriminator m tag enc) rec))))"

definition encode_multi_batch ::
  "chrono \<Rightarrow> multi_layout \<Rightarrow> encoding \<Rightarrow> union_array \<times> nat \<Rightarrow> worker_error + bytes list" where
  "encode_multi_batch c m enc b =
     rmap (\<lambda>row. rbind (map_err ArrowFailed (union_at (fst b) row)) (encode_multi_row c m enc)) [0..<snd b]"

section \<open>Draining the buffered batches\<close>

text \<open>
  The loop of \<open>finalize_producer\<close>: pages of 256 batches, each identified by a number; the next
  page starts after the last number seen. The loop ends at the first empty page; \<open>fuel\<close> bounds
  the number of pages.
\<close>

fun drain_shards ::
  "(int \<Rightarrow> nat \<Rightarrow> (int \<times> 'b) list) \<Rightarrow> ('b \<Rightarrow> worker_error + bytes list) \<Rightarrow> nat \<Rightarrow> int \<Rightarrow> bytes list
     \<Rightarrow> (worker_error + bytes list) option" where
  "drain_shards scan encode 0 after_id recs = None"
| "drain_shards scan encode (Suc fuel) after_id recs =
     (let rows = scan after_id 256 in
      if rows = [] then Some (Inr recs)
      else case rmap (\<lambda>(_, blob). encode blob) rows of
        Inl e \<Rightarrow> Some (Inl e)
      | Inr recss \<Rightarrow> drain_shards scan encode fuel (fst (last rows)) (recs @ concat recss))"

text \<open>\<open>close\<close> of \<open>COPY ... TO\<close> takes all batches in one scan.\<close>

definition USIZE_MAX :: nat where
  "USIZE_MAX = 2 ^ 64 - 1"

definition copy_shards ::
  "(int \<Rightarrow> nat \<Rightarrow> (int \<times> 'b) list) \<Rightarrow> ('b \<Rightarrow> worker_error + bytes list) \<Rightarrow> worker_error + bytes list" where
  "copy_shards scan encode = rmap_value concat (rmap (\<lambda>(_, blob). encode blob) (scan (- 1) USIZE_MAX))"

text \<open>
  The contract of the storage: \<open>scan\<close> gives the first \<open>limit\<close> entries after an identifier, in the
  order in which they were appended, under increasing positive identifiers.
\<close>

definition append_log :: "(int \<Rightarrow> nat \<Rightarrow> (int \<times> 'b) list) \<Rightarrow> (int \<times> 'b) list \<Rightarrow> bool" where
  "append_log scan log \<longleftrightarrow>
     sorted_wrt (<) (map fst log) \<and> (\<forall>e \<in> set log. 0 < fst e) \<and>
     (\<forall>after_id limit. scan after_id limit = take limit (filter (\<lambda>e. after_id < fst e) log))"

section \<open>The written file\<close>

record summary =
  rows_written :: int
  bytes_written :: int
  file_body :: bytes

definition finish_write :: "codecs \<Rightarrow> framing \<Rightarrow> compression \<Rightarrow> bytes list \<Rightarrow> worker_error + summary" where
  "finish_write cd framing codec recs =
     rbind (ve (compress cd (assemble recs framing) codec)) (\<lambda>body.
     Inr \<lparr> rows_written = wrap_i64 (int (length recs)), bytes_written = wrap_i64 (int (length body)), file_body = body \<rparr>)"

section \<open>Single records\<close>

text \<open>The cells of \<open>unpack\<close> and \<open>pack\<close>: \<open>None\<close> is an SQL NULL.\<close>

definition unpack_rows :: "chrono \<Rightarrow> layout \<Rightarrow> encoding \<Rightarrow> bytes option list \<Rightarrow> worker_error + fval list" where
  "unpack_rows c l enc recs =
     rmap (\<lambda>r. case r of
         None \<Rightarrow> Inr VNull
       | Some bs \<Rightarrow> rmap_value VStruct (ve (decode_record c l bs enc))) recs"

definition pack_rows :: "chrono \<Rightarrow> layout \<Rightarrow> encoding \<Rightarrow> arr \<Rightarrow> nat \<Rightarrow> worker_error + bytes option list" where
  "pack_rows c l enc data nrows =
     rmap (\<lambda>row. rbind (map_err ArrowFailed (value_at data row)) (\<lambda>v.
       case v of
         VStruct pairs \<Rightarrow> rmap_value Some (ve (encode_record c l pairs enc))
       | VNull \<Rightarrow> Inr None
       | _ \<Rightarrow> Inl (ArrowFailed (ExpectedValue (lit ''struct'') v)))) [0..<nrows]"

definition unpack_multi_rows ::
  "chrono \<Rightarrow> multi_layout \<Rightarrow> encoding \<Rightarrow> bytes option list \<Rightarrow> worker_error + (nat \<times> fval) list" where
  "unpack_multi_rows c m enc recs =
     rmap (\<lambda>r. case r of None \<Rightarrow> Inr (0, VNull) | Some bs \<Rightarrow> ve (multi_row c m enc bs)) recs"

section \<open>Draining reads the whole log\<close>

lemma filter_after_take:
  assumes "sorted_wrt (<) (map fst (xs :: (int \<times> 'b) list))" "0 < n" "xs \<noteq> []"
  shows "filter (\<lambda>e. fst (last (take n xs)) < fst e) xs = drop n xs"
  using assms
proof (induction n arbitrary: xs)
  case (Suc n)
  then obtain x ys where xs: "xs = x # ys"
    by (cases xs) auto
  show ?case
  proof (cases "n = 0 \<or> ys = []")
    case True
    then show ?thesis
      using Suc.prems xs by (auto simp: filter_id_conv take_Cons')
  next
    case False
    then have "take n ys \<noteq> []" "sorted_wrt (<) (map fst ys)"
      using Suc.prems xs by auto
    moreover have "fst x < fst (last (take n ys))"
      using Suc.prems xs in_set_takeD [OF last_in_set [OF \<open>take n ys \<noteq> []\<close>]] by auto
    ultimately show ?thesis
      using Suc.IH [of ys] False xs by auto
  qed
qed simp

lemma append_log_scan:
  "append_log scan log \<Longrightarrow> scan after_id n = take n (filter (\<lambda>e. after_id < fst e) log)"
  by (simp add: append_log_def)

lemma drain_shards_all:
  assumes "append_log scan log" "length (filter (\<lambda>e. after_id < fst e) log) < fuel"
  shows "drain_shards scan encode fuel after_id recs
    = Some (rmap_value (\<lambda>rss. recs @ concat rss) (rmap (\<lambda>(_, blob). encode blob) (filter (\<lambda>e. after_id < fst e) log)))"
  using assms(2)
proof (induction fuel arbitrary: after_id recs)
  case (Suc fuel)
  let ?rest = "filter (\<lambda>e. after_id < fst e) log"
  have scan: "scan after_id 256 = take 256 ?rest"
    by (rule append_log_scan [OF assms(1)])
  show ?case
  proof (cases "?rest = []")
    case True
    then show ?thesis
      using scan by (simp add: Let_def)
  next
    case False
    have sorted: "sorted_wrt (<) (map fst ?rest)"
      using assms(1) sorted_wrt_filter [of "\<lambda>a b. fst a < fst b" log] by (simp add: append_log_def sorted_wrt_map)
    let ?next = "fst (last (take 256 ?rest))"
    have "take 256 ?rest \<noteq> []"
      using False by simp
    then have "last (take 256 ?rest) \<in> set ?rest"
      by (rule in_set_takeD [OF last_in_set])
    then have "after_id < ?next"
      by simp
    then have "filter (\<lambda>e. ?next < fst e) log = filter (\<lambda>e. ?next < fst e) ?rest"
      by (auto simp: intro!: filter_cong)
    then have rest: "filter (\<lambda>e. ?next < fst e) log = drop 256 ?rest"
      using filter_after_take [OF sorted _ False, of 256] by simp
    have "length (drop 256 ?rest) < fuel"
      using Suc.prems False by (cases ?rest) auto
    then have IH: "drain_shards scan encode fuel ?next rs
        = Some (rmap_value (\<lambda>rss. rs @ concat rss) (rmap (\<lambda>(_, blob). encode blob) (drop 256 ?rest)))" for rs
      using Suc.IH [of ?next rs] rest by simp
    have "rmap (\<lambda>(_, blob). encode blob) ?rest
        = rbind (rmap (\<lambda>(_, blob). encode blob) (take 256 ?rest)) (\<lambda>as. rbind (rmap (\<lambda>(_, blob). encode blob) (drop 256 ?rest)) (\<lambda>bs. Inr (as @ bs)))"
      using rmap_append [of "\<lambda>(_, blob). encode blob" "take 256 ?rest" "drop 256 ?rest"] by simp
    then show ?thesis
      using False by (simp add: Let_def scan IH rbind_def rmap_value_def split: sum.split)
  qed
qed simp

section \<open>Overwriting the discriminator\<close>

text \<open>
  What a field reads from position \<open>p\<close> on does not depend on the bytes before \<open>p\<close>.
\<close>

definition same_from :: "nat \<Rightarrow> bytes \<Rightarrow> bytes \<Rightarrow> bool" where
  "same_from p a b \<longleftrightarrow> length a = length b \<and> drop p a = drop p b"

lemma slice_same: "same_from p a b \<Longrightarrow> p \<le> pos \<Longrightarrow> slice a pos w = slice b pos w"
  unfolding same_from_def slice_def get_slice_def
  by (metis drop_drop le_add_diff_inverse2)

lemma decode_same:
  "same_from p bs bs' \<Longrightarrow> \<forall>f \<in> set fs. p \<le> base + f_offset f \<Longrightarrow>
     decode_fields c bs enc fs base shift fin sc = decode_fields c bs' enc fs base shift fin sc"
  "same_from p bs bs' \<Longrightarrow> p \<le> pos \<Longrightarrow> decode_field c bs enc f pos sc = decode_field c bs' enc f pos sc"
  "same_from p bs bs' \<Longrightarrow> p \<le> cursor \<Longrightarrow>
     decode_items c bs enc f n k cursor sc = decode_items c bs' enc f n k cursor sc"
  "same_from p bs bs' \<Longrightarrow> p \<le> pos' \<Longrightarrow> decode_one c bs enc f pos' sc = decode_one c bs' enc f pos' sc"
proof (induction c bs enc fs base shift fin sc and c bs enc f pos sc and c bs enc f n k cursor sc and c bs enc f pos' sc
    rule: decode_fields_decode_field_decode_items_decode_one.induct)
  case (2 c bs enc f fs base shift fin sc)
  then show ?case
    by (auto simp: Let_def intro!: rbind_cong)
next
  case (3 c bs enc f pos sc)
  then show ?case
    by (auto intro!: rbind_cong split: option.splits)
next
  case (5 c bs enc f n k cursor sc)
  then show ?case
    by (auto intro!: rbind_cong)
next
  case (6 c bs enc f pos sc)
  show ?case
  proof (cases "\<exists>cs. f_kind f = KGroup cs")
    case True
    then show ?thesis
      using 6 by (auto intro!: rbind_cong)
  next
    case False
    then show ?thesis
      using slice_same [OF 6(2,3)] by (auto split: field_kind.split)
  qed
qed auto

definition disc_reserved :: "multi_layout \<Rightarrow> layout \<Rightarrow> bool" where
  "disc_reserved m l \<longleftrightarrow>
     m_disc_offset m + m_disc_width m \<le> l_record_len l \<and>
     (case l_fields l of
        [] \<Rightarrow> False
      | f # fs \<Rightarrow> is_pad f \<and> f_occurs f = None \<and> f_depending_on f = None \<and>
          (\<forall>g \<in> set fs. m_disc_offset m + m_disc_width m \<le> f_offset g))"

lemma decode_field_pad:
  assumes "length a = length b" "is_pad f" "f_occurs f = None" "f_depending_on f = None"
  shows "decode_field c a enc f pos sc = decode_field c b enc f pos sc"
  using assms
  by (auto simp: is_pad_def decode_count_def slice_def get_slice_def decode_leaf_def split: field_kind.splits)

lemma decode_record_stamped:
  assumes "disc_reserved m l" "same_from (m_disc_offset m + m_disc_width m) a b"
  shows "decode_record c l a enc = decode_record c l b enc"
proof -
  obtain f fs where l: "l_fields l = f # fs" and pad: "is_pad f" "f_occurs f = None" "f_depending_on f = None"
    and away: "\<forall>g \<in> set fs. m_disc_offset m + m_disc_width m \<le> f_offset g"
    using assms(1) by (auto simp: disc_reserved_def split: list.splits)
  have len: "length a = length b"
    using assms(2) by (simp add: same_from_def)
  have "decode_fields c a enc fs 0 shift fin sc = decode_fields c b enc fs 0 shift fin sc" for shift fin sc
    by (rule decode_same(1) [OF assms(2)]) (use away in simp)
  then have "decode_fields c a enc (l_fields l) 0 0 0 Map.empty = decode_fields c b enc (l_fields l) 0 0 0 Map.empty"
    using decode_field_pad [OF len pad, of c enc] pad(1) by (simp add: l Let_def)
  then show ?thesis
    by (simp add: decode_record_def decode_seq_def len)
qed

lemma stamp_same:
  "off + width \<le> length rec \<Longrightarrow> length disc = width \<Longrightarrow>
   stamp off width disc rec = take off rec @ disc @ drop (off + width) rec
   \<and> same_from (off + width) rec (stamp off width disc rec)"
  by (auto simp: stamp_def same_from_def Let_def)

text \<open>A row of a variant whose discriminator bytes lie in a pad at its beginning.\<close>

definition multi_row_ok :: "chrono \<Rightarrow> multi_layout \<Rightarrow> nat \<times> rstr \<times> pairs \<Rightarrow> bool" where
  "multi_row_ok c m row =
     (case row of (i, tag, vs) \<Rightarrow>
       position (\<lambda>(t, _). t = tag) (m_variants m) = Some i \<and> list_all is_scalar tag \<and>
       length (utf8 tag) \<le> m_disc_width m \<and> trim tag = tag \<and>
       disc_reserved m (snd (m_variants m ! i)) \<and> conforms_record c (snd (m_variants m ! i)) vs)"

lemma multi_row_roundtrip:
  assumes "multi_row_ok c m (i, tag, vs)"
  shows "\<exists>rec. encode_multi_row c m enc (tag, vs) = Inr rec \<and> multi_row c m enc rec = Ok (i, VStruct vs)"
proof -
  let ?l = "snd (m_variants m ! i)" and ?off = "m_disc_offset m" and ?width = "m_disc_width m"
  let ?disc = "encode_discriminator m tag enc"
  have ok: "position (\<lambda>(t, _). t = tag) (m_variants m) = Some i" "list_all is_scalar tag"
    "length (utf8 tag) \<le> ?width" "trim tag = tag" "disc_reserved m ?l" "conforms_record c ?l vs"
    using assms by (auto simp: multi_row_ok_def)
  obtain bs where bs: "encode_record c ?l vs enc = Ok bs" "l_record_len ?l \<le> length bs" "decode_record c ?l bs enc = Ok vs"
    using encode_decode_record [OF ok(6)] by blast
  have fit: "?off + ?width \<le> length bs"
    using ok(5) bs(2) by (simp add: disc_reserved_def)
  have st: "stamp ?off ?width ?disc bs = take ?off bs @ ?disc @ drop (?off + ?width) bs"
    "same_from (?off + ?width) bs (stamp ?off ?width ?disc bs)"
    using stamp_same [OF fit discriminator_text(2) [OF ok(2-4), where enc = enc]] by blast+
  have sel: "select m (stamp ?off ?width ?disc bs) enc = Ok (i, ?l)" "variant m tag = Some ?l"
    using select_discriminator [OF ok(1-4), of "take ?off bs" enc "drop (?off + ?width) bs"] fit st(1) by simp_all
  have "decode_record c ?l (stamp ?off ?width ?disc bs) enc = Ok vs"
    using decode_record_stamped [OF ok(5) st(2), of c enc] bs(3) by simp
  then show ?thesis
    using bs(1) sel by (simp add: encode_multi_row_def multi_row_def ve_def map_err_def)
qed

section \<open>Reading written files\<close>

lemma read_source_drained:
  "drain st = Ok recs \<Longrightarrow> rmap dec recs = Ok rows \<Longrightarrow> read_source dec label i st = Inr rows"
proof (induction "state_size st" arbitrary: st i recs rows rule: less_induct)
  case less
  obtain r st' where n: "stream_next st = (r, st')"
    by (cases "stream_next st")
  show ?case
  proof (cases r)
    case None
    then show ?thesis
      using less.prems n by (simp add: drain.simps [of st] read_source.simps [of _ _ _ st])
  next
    case (Some x)
    then obtain b recs' where x: "x = Ok b" "drain st' = Ok recs'" "recs = b # recs'"
      using less.prems(1) n by (auto simp: drain.simps [of st] split: sum.splits)
    then obtain row rows' where "dec b = Ok row" "rmap dec recs' = Ok rows'" "rows = row # rows'"
      using less.prems(2) by auto
    then show ?thesis
      using less.hyps [of st' recs' rows' "i + 1"] stream_next_size n Some x
      by (simp add: read_source.simps [of _ _ _ st] map_err_def)
  qed
qed

lemma read_sources_drained:
  "list_all2 (\<lambda>src rows. \<exists>st recs. open_stream rc src = Inr st \<and> drain st = Ok recs \<and> rmap dec recs = Ok rows) srcs rowss \<Longrightarrow>
   read_sources dec rc srcs = Inr (concat rowss)"
  by (induction rule: list_all2_induct) (auto simp: read_source_drained)

text \<open>The streaming decoders agree with the decoders of whole buffers on sources without errors.\<close>

definition stream_laws :: "codecs \<Rightarrow> stream_codecs \<Rightarrow> bool" where
  "stream_laws cd sc \<longleftrightarrow>
     (\<forall>src data. sound src \<longrightarrow> gz_decode cd (source_data src) = Inr data \<longrightarrow>
        sound (gz_stream sc src) \<and> source_data (gz_stream sc src) = data) \<and>
     (\<forall>src data. sound src \<longrightarrow> zs_decode cd (source_data src) = Inr data \<longrightarrow>
        (\<exists>inner. zs_stream sc src = Inr inner \<and> sound inner \<and> source_data inner = data))"

text \<open>
  A file that was written with the given records and arrives without I/O errors; when the
  codec is to be detected, its first four bytes arrive in one piece and uncompressed data does
  not look compressed.
\<close>

definition holds_records :: "codecs \<Rightarrow> read_config \<Rightarrow> rstr \<times> (io_error + source) \<Rightarrow> bytes list \<Rightarrow> bool" where
  "holds_records cd rc src recs \<longleftrightarrow>
     framing_fits (rc_framing rc) (rc_rec_len rc) recs \<and>
     within_cap (rc_framing rc) (rc_rec_len rc) (max_record_bytes (rc_limits rc)) (assemble recs (rc_framing rc)) \<and>
     length (assemble recs (rc_framing rc)) \<le> max_decompressed_bytes (rc_limits rc) \<and>
     (case snd src of
        Inl e \<Rightarrow> False
      | Inr raw \<Rightarrow> sound raw \<and>
          (\<exists>k s. finish_write cd (rc_framing rc) k recs = Inr s \<and> file_body s = source_data raw \<and>
             (case rc_compression rc of
                Some k' \<Rightarrow> k' = k
              | None \<Rightarrow> (case raw of Piece b bs # _ \<Rightarrow> 3 \<le> length bs | _ \<Rightarrow> False) \<and>
                  (k = NoCompression \<longrightarrow> detect (assemble recs (rc_framing rc)) = NoCompression))))"

lemma finish_write_body: "finish_write cd m k recs = Inr s \<Longrightarrow> compress cd (assemble recs m) k = Ok (file_body s)"
  by (auto simp: finish_write_def ve_def map_err_def split: sum.splits)

lemma detect_prefix: "4 \<le> length xs \<Longrightarrow> detect (xs @ ys) = detect xs"
  by (auto simp: detect_def nth_append)

lemma open_written:
  assumes "codec_laws cd" "stream_laws cd (rc_codecs rc)" "0 < rc_rec_len rc"
    "max_decompressed_bytes (rc_limits rc) < U64_MAX" "holds_records cd rc src recs"
  shows "\<exists>st. open_stream rc src = Inr st \<and> drain st = Ok recs"
proof -
  let ?m = "rc_framing rc" and ?n = "rc_rec_len rc" and ?limit = "max_decompressed_bytes (rc_limits rc)"
  let ?body = "assemble recs ?m"
  obtain raw k where src: "snd src = Inr raw" "sound raw" "compress cd ?body k = Ok (source_data raw)"
    and det: "case rc_compression rc of Some k' \<Rightarrow> k' = k
       | None \<Rightarrow> (case raw of Piece b bs # _ \<Rightarrow> 3 \<le> length bs | _ \<Rightarrow> False) \<and> (k = NoCompression \<longrightarrow> detect ?body = NoCompression)"
    and fits: "framing_fits ?m ?n recs" and cap: "within_cap ?m ?n (max_record_bytes (rc_limits rc)) ?body"
    and small: "length ?body \<le> ?limit"
    using assms(5) by (auto simp: holds_records_def dest!: finish_write_body split: sum.splits)
  have codec: "(case rc_compression rc of Some k \<Rightarrow> Ok k | None \<Rightarrow> rmap_value detect (read_error (peek raw))) = Ok k"
  proof (cases "rc_compression rc")
    case None
    then obtain b bs es where raw: "raw = Piece b bs # es" "3 \<le> length bs"
      using det by (auto split: list.splits event.splits)
    then have "detect (b # bs) = detect (source_data raw)"
      using detect_prefix [of "b # bs" "source_data es"] by simp
    also have "\<dots> = k"
      using detect_compress [OF assms(1) src(3)] det None by auto
    finally show ?thesis
      using None raw(1) by (simp add: peek_def read_error_def)
  qed (use det in simp)
  have "\<exists>plain. decompress_reader (rc_codecs rc) raw (rc_compression rc) ?limit = Ok plain
      \<and> sound plain \<and> source_data plain = ?body"
  proof (cases k)
    case NoCompression
    then show ?thesis
      using src codec by (simp add: decompress_reader_def compress_def)
  next
    case Gzip
    then have "gz_decode cd (source_data raw) = Inr ?body"
      using src(3) assms(1) by (auto simp: compress_def codec_result_def codec_laws_def split: sum.splits)
    then have "sound (gz_stream (rc_codecs rc) raw)" "source_data (gz_stream (rc_codecs rc) raw) = ?body"
      using assms(2) src(2) by (simp_all add: stream_laws_def)
    then show ?thesis
      using Gzip codec labeled_reader_sound limit_reader_id [OF assms(4), of 0] small
      by (simp add: decompress_reader_def)
  next
    case Zstd
    then have "zs_decode cd (source_data raw) = Inr ?body"
      using src(3) assms(1) by (auto simp: compress_def codec_result_def codec_laws_def split: sum.splits)
    then obtain inner where "zs_stream (rc_codecs rc) raw = Inr inner" "sound inner" "source_data inner = ?body"
      using assms(2) src(2) unfolding stream_laws_def by blast
    then show ?thesis
      using Zstd codec labeled_reader_sound limit_reader_id [OF assms(4), of 0] small
      by (simp add: decompress_reader_def)
  qed
  then obtain plain where plain: "decompress_reader (rc_codecs rc) raw (rc_compression rc) ?limit = Ok plain"
    "sound plain" "source_data plain = ?body"
    by blast
  have "records ?body ?m ?n = Ok recs"
    using records_assembled [OF assms(3), of ?m "[recs]"] fits by simp
  then have "streamed plain ?m ?n (max_record_bytes (rc_limits rc)) = Ok recs"
    using streamed_records [OF plain(2), of ?m ?n "max_record_bytes (rc_limits rc)"] plain(3) cap
    by (simp add: same_records_def)
  then show ?thesis
    using src(1) plain(1) by (auto simp: streamed_def open_stream_def map_err_def ve_def)
qed

text \<open>The rows of the batches that were written to a file.\<close>

definition written :: "chrono \<Rightarrow> layout \<Rightarrow> encoding \<Rightarrow> codecs \<Rightarrow> read_config \<Rightarrow> rstr \<times> (io_error + source) \<Rightarrow> pairs list \<Rightarrow> bool" where
  "written c l enc cd rc src vss \<longleftrightarrow>
     (\<exists>bs recss vsss. rmap (encode_batch c l enc) bs = Inr recss \<and>
        rmap (\<lambda>b. rmap (row_pairs b) [0..<bt_rows b]) bs = Inr vsss \<and>
        vss = concat vsss \<and> holds_records cd rc src (concat recss))"

lemma writtenI:
  "rmap (encode_batch c l enc) bs = Inr recss \<Longrightarrow> rmap (\<lambda>b. rmap (row_pairs b) [0..<bt_rows b]) bs = Inr vsss \<Longrightarrow>
   holds_records cd rc src (concat recss) \<Longrightarrow> written c l enc cd rc src (concat vsss)"
  by (auto simp: written_def)

lemma encode_batch_rows:
  assumes "encode_batch c l enc b = Inr recs" "rmap (row_pairs b) [0..<bt_rows b] = Inr vss"
  shows "rmap (\<lambda>vs. encode_record c l vs enc) vss = Ok recs"
proof (rule rmap_eqI)
  have len: "length recs = bt_rows b" "length vss = bt_rows b"
    using rmap_length [OF assms(1) [unfolded encode_batch_def]] rmap_length [OF assms(2)] by simp_all
  then show "length recs = length vss"
    by simp
  fix k
  assume "k < length vss"
  then show "encode_record c l (vss ! k) enc = Ok (recs ! k)"
    using rmap_nth [OF assms(1) [unfolded encode_batch_def], of k] rmap_nth [OF assms(2), of k] len
    by (auto simp: ve_def map_err_def split: sum.splits)
qed

lemma rmap_concat:
  "list_all2 (\<lambda>xs ys. rmap f xs = Inr ys) xss yss \<Longrightarrow> rmap f (concat xss) = Inr (concat yss)"
  by (induction rule: list_all2_induct) (simp_all add: rmap_append)

lemma written_records:
  assumes "written c l enc cd rc src vss"
  shows "\<exists>recs. rmap (\<lambda>vs. encode_record c l vs enc) vss = Ok recs \<and> holds_records cd rc src recs"
proof -
  obtain bs recss vsss where w: "rmap (encode_batch c l enc) bs = Inr recss"
    "rmap (\<lambda>b. rmap (row_pairs b) [0..<bt_rows b]) bs = Inr vsss" "vss = concat vsss" "holds_records cd rc src (concat recss)"
    using assms by (auto simp: written_def)
  have "list_all2 (\<lambda>vss recs. rmap (\<lambda>vs. encode_record c l vs enc) vss = Ok recs) vsss recss"
    using rmap_length [OF w(1)] rmap_length [OF w(2)] rmap_nth [OF w(1)] rmap_nth [OF w(2)]
    by (auto simp: list_all2_conv_all_nth intro: encode_batch_rows)
  then show ?thesis
    using rmap_concat w(3,4) by blast
qed

lemma decode_rows_encoded:
  assumes "rmap (\<lambda>vs. encode_record c l vs enc) vss = Ok recs" "list_all (conforms_record c l) vss"
  shows "rmap (decode_row c l enc) recs = Ok (map (map snd) vss)"
proof (rule rmap_eqI)
  show "length (map (map snd) vss) = length recs"
    using rmap_length [OF assms(1)] by simp
  fix k
  assume k: "k < length recs"
  then have "conforms_record c l (vss ! k)" "encode_record c l (vss ! k) enc = Ok (recs ! k)"
    using assms rmap_length [OF assms(1)] rmap_nth [OF assms(1), of k] by (auto simp: list_all_length)
  then show "decode_row c l enc (recs ! k) = Ok (map (map snd) vss ! k)"
    using encode_decode_record [of c l "vss ! k" enc] k rmap_length [OF assms(1)] by (auto simp: decode_row_def)
qed

text \<open>The rows of a multi-record file, written as tags and fields.\<close>

definition written_multi ::
  "chrono \<Rightarrow> multi_layout \<Rightarrow> encoding \<Rightarrow> codecs \<Rightarrow> read_config \<Rightarrow> rstr \<times> (io_error + source) \<Rightarrow> (nat \<times> rstr \<times> pairs) list \<Rightarrow> bool" where
  "written_multi c m enc cd rc src rows \<longleftrightarrow>
     (\<exists>us recss entries. rmap (encode_multi_batch c m enc) us = Inr recss \<and>
        rmap (\<lambda>u. rmap (union_at (fst u)) [0..<snd u]) us = Inr entries \<and>
        map snd rows = concat entries \<and> holds_records cd rc src (concat recss))"

lemma encode_multi_rows:
  assumes "encode_multi_batch c m enc u = Inr recs" "rmap (union_at (fst u)) [0..<snd u] = Inr entries"
  shows "rmap (encode_multi_row c m enc) entries = Inr recs"
proof (rule rmap_eqI)
  have len: "length recs = snd u" "length entries = snd u"
    using rmap_length [OF assms(1) [unfolded encode_multi_batch_def]] rmap_length [OF assms(2)] by simp_all
  then show "length recs = length entries"
    by simp
  fix k
  assume "k < length entries"
  then show "encode_multi_row c m enc (entries ! k) = Inr (recs ! k)"
    using rmap_nth [OF assms(1) [unfolded encode_multi_batch_def], of k] rmap_nth [OF assms(2), of k] len
    by (auto simp: map_err_def split: sum.splits)
qed

lemma written_multi_records:
  assumes "written_multi c m enc cd rc src rows"
  shows "\<exists>recs. rmap (encode_multi_row c m enc) (map snd rows) = Inr recs \<and> holds_records cd rc src recs"
proof -
  obtain us recss entries where w: "rmap (encode_multi_batch c m enc) us = Inr recss"
    "rmap (\<lambda>u. rmap (union_at (fst u)) [0..<snd u]) us = Inr entries" "map snd rows = concat entries"
    "holds_records cd rc src (concat recss)"
    using assms by (auto simp: written_multi_def)
  have "list_all2 (\<lambda>es recs. rmap (encode_multi_row c m enc) es = Inr recs) entries recss"
    using rmap_length [OF w(1)] rmap_length [OF w(2)] rmap_nth [OF w(1)] rmap_nth [OF w(2)]
    by (auto simp: list_all2_conv_all_nth intro: encode_multi_rows)
  then show ?thesis
    using rmap_concat w(3,4) by metis
qed

lemma multi_rows_encoded:
  assumes "rmap (encode_multi_row c m enc) (map snd rows) = Inr recs" "list_all (multi_row_ok c m) rows"
  shows "rmap (multi_row c m enc) recs = Ok (map (\<lambda>(i, tag, vs). (i, VStruct vs)) rows)"
proof (rule rmap_eqI)
  show "length (map (\<lambda>(i, tag, vs). (i, VStruct vs)) rows) = length recs"
    using rmap_length [OF assms(1)] by simp
  fix k
  assume k: "k < length recs"
  obtain i tag vs where row: "rows ! k = (i, tag, vs)"
    by (cases "rows ! k")
  then have "multi_row_ok c m (i, tag, vs)" "encode_multi_row c m enc (tag, vs) = Inr (recs ! k)"
    using assms k rmap_length [OF assms(1)] rmap_nth [OF assms(1), of k] by (auto simp: list_all_length)
  then show "multi_row c m enc (recs ! k) = Ok (map (\<lambda>(i, tag, vs). (i, VStruct vs)) rows ! k)"
    using multi_row_roundtrip [of c m i tag vs enc] k row rmap_length [OF assms(1)] by auto
qed

lemma read_written:
  assumes "codec_laws cd" "stream_laws cd (rc_codecs rc)" "0 < rc_rec_len rc"
    "max_decompressed_bytes (rc_limits rc) < U64_MAX"
    "list_all2 (written c l enc cd rc) (rc_sources rc) vsss" "list_all (list_all (conforms_record c l)) vsss"
  shows "read_sources (decode_row c l enc) rc (rc_sources rc) = Inr (map (map snd) (concat vsss))"
proof -
  have "\<exists>st recs. open_stream rc src = Inr st \<and> drain st = Ok recs \<and> rmap (decode_row c l enc) recs = Ok (map (map snd) vss)"
    if "written c l enc cd rc src vss" "list_all (conforms_record c l) vss" for src vss
    using written_records [OF that(1)] open_written [OF assms(1-4)] decode_rows_encoded [OF _ that(2)] by blast
  then have "list_all2 (\<lambda>src rows. \<exists>st recs. open_stream rc src = Inr st \<and> drain st = Ok recs \<and> rmap (decode_row c l enc) recs = Ok rows)
      (rc_sources rc) (map (map (map snd)) vsss)"
    using assms(5,6) by (auto simp: list_all2_conv_all_nth list_all_length)
  from read_sources_drained [OF this] show ?thesis
    by (simp add: map_concat)
qed

section \<open>Properties\<close>

text \<open>
  C1. What is written is read back, end to end: rows of batches that are encoded, framed and
  compressed into files (several batches per file, several files, any framing, encoding and
  codec) come back from reading the files, all at once or batch by batch, in order. The codec may
  be detected from the file. The rows must be values of a layout without overlaps, the records
  within the limits of the framing mode and of the reader.
\<close>

theorem file_roundtrip:
  assumes "codec_laws cd" "stream_laws cd (rc_codecs rc)" "0 < rc_rec_len rc"
    "max_decompressed_bytes (rc_limits rc) < U64_MAX" "\<not> (l_variable l \<and> rc_framing rc = Fixed)"
    "list_all2 (written c l enc cd rc) (rc_sources rc) vsss" "list_all (list_all (conforms_record c l)) vsss"
  shows "read_all c l enc rc = Inr (map (map snd) (concat vsss)) \<and>
    (\<exists>k. \<forall>fuel > k. run_batches (next_batch (decode_row c l enc) rc) fuel start_producer
       = Some (Inr (map (map snd) (concat vsss))))"
  using read_written [OF assms(1-4,6,7)] batches_read_sources [of "decode_row c l enc" rc] assms(5)
  by (auto simp: read_all_def check_variable_framing_def)

lemma sample_stream_laws: "stream_laws sample_codecs sample_stream_codecs"
  by (auto simp: stream_laws_def sample_codecs_def sample_stream_codecs_def split: if_splits)

definition sample_batch :: batch where
  "sample_batch =
     \<lparr> bt_names = [[84]], bt_columns = [APrim TUtf8 [Some (CText [65]), Some (CText [66])]], bt_rows = 2 \<rparr>"

definition sample_files :: read_config where
  "sample_files =
     \<lparr> rc_framing = Newline, rc_rec_len = 1, rc_compression = None, rc_limits = default_limits,
       rc_codecs = sample_stream_codecs,
       rc_sources = [([97], Inr [Piece 0x1f [0x8b, 65, 10], Intr, Piece 66 [10]])] \<rparr>"

theorem file_roundtrip_witness:
  "\<exists>c. read_all c sample_text_layout Ascii sample_files = Inr [[VText [65]], [VText [66]]]"
proof -
  fix c
  let ?recs = "[[65], [66]] :: bytes list"
  have enc: "rmap (encode_batch c sample_text_layout Ascii) [sample_batch] = Inr [?recs]"
    by code_simp
  have rows: "rmap (\<lambda>b. rmap (row_pairs b) [0..<bt_rows b]) [sample_batch] = Inr [[[([84], VText [65])], [([84], VText [66])]]]"
    by code_simp
  have fin: "finish_write sample_codecs Newline Gzip ?recs = Inr \<lparr> rows_written = 2, bytes_written = 6, file_body = [0x1f, 0x8b, 65, 10, 66, 10] \<rparr>"
    by code_simp
  have "framing_fits Newline 1 ?recs" "within_cap Newline 1 (max_record_bytes default_limits) (assemble ?recs Newline)"
    by (simp_all add: framing_fits_def newline_fits_def within_cap_def assemble_def default_limits_def)
  then have hold: "holds_records sample_codecs sample_files ([97], Inr [Piece 0x1f [0x8b, 65, 10], Intr, Piece 66 [10]]) (concat [?recs])"
    using fin by (force simp: holds_records_def sample_files_def sound_def assemble_def default_limits_def)
  have w: "written c sample_text_layout Ascii sample_codecs sample_files ([97], Inr [Piece 0x1f [0x8b, 65, 10], Intr, Piece 66 [10]])
      [[([84], VText [65])], [([84], VText [66])]]"
    using writtenI [OF enc rows hold] by simp
  have conf: "list_all (conforms_record c sample_text_layout) [[([84], VText [65])], [([84], VText [66])]]"
    by code_simp
  have "stream_laws sample_codecs (rc_codecs sample_files)"
    by (simp add: sample_files_def sample_stream_laws)
  then show ?thesis
    using file_roundtrip [OF sample_codecs_laws, of sample_files sample_text_layout c Ascii "[[[([84], VText [65])], [([84], VText [66])]]]"] w conf
    by (auto simp: sample_files_def sample_text_layout_def default_limits_def U64_MAX_def)
qed

text \<open>
  C4. The same holds for files with several record types: rows of a union column, encoded with the
  layout of their variant and stamped with its discriminator, come back from \<open>read_multi\<close> with
  their variant and fields, in order. The discriminator must lie in a pad at the beginning of
  each layout.
\<close>

theorem multi_file_roundtrip:
  assumes "codec_laws cd" "stream_laws cd (rc_codecs rc)" "0 < rc_rec_len rc"
    "max_decompressed_bytes (rc_limits rc) < U64_MAX"
    "list_all2 (written_multi c m enc cd rc) (rc_sources rc) rowss" "list_all (list_all (multi_row_ok c m)) rowss"
  shows "\<exists>k. \<forall>fuel > k. run_batches (next_batch (multi_row c m enc) rc) fuel start_producer
    = Some (Inr (map (\<lambda>(i, tag, vs). (i, VStruct vs)) (concat rowss)))"
proof -
  let ?out = "map (\<lambda>(i, tag, vs). (i, VStruct vs))"
  have "\<exists>st recs. open_stream rc src = Inr st \<and> drain st = Ok recs \<and> rmap (multi_row c m enc) recs = Ok (?out rows)"
    if "written_multi c m enc cd rc src rows" "list_all (multi_row_ok c m) rows" for src rows
    using written_multi_records [OF that(1)] open_written [OF assms(1-4)] multi_rows_encoded [OF _ that(2)] by blast
  then have "list_all2 (\<lambda>src rows. \<exists>st recs. open_stream rc src = Inr st \<and> drain st = Ok recs \<and> rmap (multi_row c m enc) recs = Ok rows)
      (rc_sources rc) (map ?out rowss)"
    using assms(5,6) by (auto simp: list_all2_conv_all_nth list_all_length)
  from read_sources_drained [OF this]
  have "read_sources (multi_row c m enc) rc (rc_sources rc) = Inr (?out (concat rowss))"
    by (simp add: map_concat)
  then show ?thesis
    using batches_read_sources [of "multi_row c m enc" rc] by simp
qed

definition sample_union :: union_array where
  "sample_union =
     \<lparr> ua_fields = [(0, AField [72] (TStruct [AField [97] TBoolean True]) True), (1, AField [68] (TStruct [AField [98] (TInt 64) True]) True)],
       ua_type_ids = [1, 0],
       ua_children =
         [AStruct [AField [97] TBoolean True] [APrim TBoolean [None, Some (CBool True)]] [False, True],
          AStruct [AField [98] (TInt 64) True] [APrim (TInt 64) [Some (CInt 7), None]] [True, False]] \<rparr>"

definition sample_multi_file :: read_config where
  "sample_multi_file =
     \<lparr> rc_framing = Rdw, rc_rec_len = 1, rc_compression = None, rc_limits = default_limits,
       rc_codecs = sample_stream_codecs,
       rc_sources = [([97], Inr [Piece 0 [7, 0, 0, 68], Piece 0 [7, 0, 6], Intr, Piece 0 [0, 72, 1]])] \<rparr>"

theorem multi_file_roundtrip_witness:
  "\<exists>c k. \<forall>fuel > k. run_batches (next_batch (multi_row c sample_multi Ascii) sample_multi_file) fuel start_producer
     = Some (Inr [(1, VStruct [([98], VInt 7)]), (0, VStruct [([97], VBool True)])])"
proof -
  fix c
  let ?recs = "[[68, 0, 7], [72, 1]] :: bytes list"
  let ?rows = "[(1, [68], [([98], VInt 7)]), (0, [72], [([97], VBool True)])] :: (nat \<times> rstr \<times> pairs) list"
  let ?src = "([97], Inr [Piece 0 [7, 0, 0, 68], Piece 0 [7, 0, 6], Intr, Piece 0 [0, 72, 1]]) :: rstr \<times> (io_error + source)"
  have enc: "rmap (encode_multi_batch c sample_multi Ascii) [(sample_union, 2)] = Inr [?recs]"
    by code_simp
  have rows: "rmap (\<lambda>u. rmap (union_at (fst u)) [0..<snd u]) [(sample_union, 2)] = Inr [map snd ?rows]"
    by code_simp
  have fin: "finish_write sample_codecs Rdw NoCompression ?recs
      = Inr \<lparr> rows_written = 2, bytes_written = 13, file_body = [0, 7, 0, 0, 68, 0, 7, 0, 6, 0, 0, 72, 1] \<rparr>"
    by code_simp
  have det: "detect (assemble ?recs Rdw) = NoCompression" "length (assemble ?recs Rdw) = 13"
    by code_simp+
  have "framing_fits Rdw 1 ?recs"
    by (simp add: framing_fits_def rdw_fits_def)
  then have "holds_records sample_codecs sample_multi_file ?src (concat [?recs])"
    using fin det by (force simp: holds_records_def sample_multi_file_def sound_def within_cap_def default_limits_def)
  then have w: "written_multi c sample_multi Ascii sample_codecs sample_multi_file ?src ?rows"
    using enc rows unfolding written_multi_def by fastforce
  have ok: "list_all (multi_row_ok c sample_multi) ?rows"
    by code_simp
  have "stream_laws sample_codecs (rc_codecs sample_multi_file)"
    by (simp add: sample_multi_file_def sample_stream_laws)
  then show ?thesis
    using multi_file_roundtrip [OF sample_codecs_laws, of sample_multi_file c sample_multi Ascii "[?rows]"] w ok
    by (auto simp: sample_multi_file_def default_limits_def U64_MAX_def)
qed

text \<open>
  C25. The sinks read every buffered batch exactly once and in order: draining the storage page by
  page ends, after at most one page more than there are batches, with the records of all batches
  (or the first error), which is what the single scan of \<open>COPY ... TO\<close> gives.
\<close>

theorem drain_reads_log:
  assumes "append_log scan log" "length log < fuel" "length log \<le> USIZE_MAX"
  shows "drain_shards scan encode fuel 0 [] = Some (rmap_value concat (rmap (\<lambda>(_, blob). encode blob) log))
    \<and> copy_shards scan encode = rmap_value concat (rmap (\<lambda>(_, blob). encode blob) log)"
proof -
  have "filter (\<lambda>e. 0 < fst e) log = log" "filter (\<lambda>e. - 1 < fst e) log = log"
    using assms(1) by (force simp: append_log_def filter_id_conv)+
  then show ?thesis
    using drain_shards_all [OF assms(1), of 0 fuel encode "[]"] append_log_scan [OF assms(1), of "- 1" USIZE_MAX] assms(2,3)
    by (simp add: copy_shards_def)
qed

theorem drain_reads_log_witness:
  "drain_shards (\<lambda>after_id limit. take limit (filter (\<lambda>e. after_id < fst e) [(1, [[7]]), (4, [[8], [9]])])) Inr 3 0 []
     = Some (Inr [[7], [8], [9 :: byte]])"
  using drain_reads_log [of "\<lambda>after_id limit. take limit (filter (\<lambda>e. after_id < fst e) [(1, [[7]]), (4, [[8], [9]])])"
      "[(1, [[7]]), (4, [[8], [9 :: byte]])]" 3 Inr]
  by (auto simp: append_log_def USIZE_MAX_def)

end
