(* ===== verification/Hosts.thy ===== *)
theory Hosts
  imports RustStr
begin

text \<open>
  Hosts that must not be reached (\<open>cloud.rs\<close>): the addresses a host can have, their text, and which
  of them are internal; the tests on bytes are shown to be membership in blocks of addresses.
\<close>

datatype ip_addr = V4 byte byte byte byte | V6 "16 word list"

section \<open>Address literals\<close>

text \<open>
  The parser of addresses of the standard library (\<open>core::net::parser\<close>): each reader gives what it
  read and the rest of the text.
\<close>

type_synonym 'a reads = "rstr \<Rightarrow> ('a \<times> rstr) option"

definition digit_value :: "nat \<Rightarrow> rchar \<Rightarrow> nat option" where
  "digit_value radix c =
     (let v = (if is_ascii_digit c then Some (c - ch CHR ''0'')
               else if is_ascii_lower c then Some (c - ch CHR ''a'' + 10)
               else if is_ascii_upper c then Some (c - ch CHR ''A'' + 10)
               else None)
      in case v of None \<Rightarrow> None | Some d \<Rightarrow> if d < radix then Some d else None)"

text \<open>Digits up to the first character that is none, at most \<open>k\<close>, the value bounded by \<open>bound\<close>.\<close>

fun number_loop :: "nat \<Rightarrow> nat \<Rightarrow> nat \<Rightarrow> nat \<Rightarrow> nat reads" where
  "number_loop radix bound k acc [] = Some (acc, [])"
| "number_loop radix bound k acc (c # cs) =
     (case digit_value radix c of
        None \<Rightarrow> Some (acc, c # cs)
      | Some d \<Rightarrow>
          if bound < acc * radix + d then None
          else case k of 0 \<Rightarrow> None | Suc k \<Rightarrow> number_loop radix bound k (acc * radix + d) cs)"

definition read_number :: "nat \<Rightarrow> nat \<Rightarrow> nat \<Rightarrow> bool \<Rightarrow> nat reads" where
  "read_number radix bound max_digits allow_zero_prefix s =
     (case number_loop radix bound max_digits 0 s of
        None \<Rightarrow> None
      | Some (n, rest) \<Rightarrow>
          let count = length s - length rest in
          if count = 0 then None
          else if \<not> allow_zero_prefix \<and> hd s = ch CHR ''0'' \<and> 1 < count then None
          else Some (n, rest))"

definition read_char :: "rchar \<Rightarrow> rstr \<Rightarrow> rstr option" where
  "read_char c s = (case s of [] \<Rightarrow> None | x # xs \<Rightarrow> if x = c then Some xs else None)"

definition read_separated :: "rchar \<Rightarrow> nat \<Rightarrow> 'a reads \<Rightarrow> 'a reads" where
  "read_separated sep i rd s = (if 0 < i then Option.bind (read_char sep s) rd else rd s)"

definition read_octet :: "nat \<Rightarrow> byte reads" where
  "read_octet i = read_separated (ch CHR ''.'') i (\<lambda>s. map_option (map_prod word_of_nat id) (read_number 10 255 3 False s))"

definition read_ipv4 :: "(byte \<times> byte \<times> byte \<times> byte) reads" where
  "read_ipv4 s =
     (case read_octet 0 s of None \<Rightarrow> None | Some (a, s) \<Rightarrow>
      case read_octet 1 s of None \<Rightarrow> None | Some (b, s) \<Rightarrow>
      case read_octet 2 s of None \<Rightarrow> None | Some (c, s) \<Rightarrow>
      case read_octet 3 s of None \<Rightarrow> None | Some (d, s) \<Rightarrow> Some ((a, b, c, d), s))"

definition word_of_bytes :: "byte \<Rightarrow> byte \<Rightarrow> 16 word" where
  "word_of_bytes h l = word_of_nat (unat h * 256 + unat l)"

text \<open>Up to \<open>limit\<close> groups of an IPv6 address, and whether they end in an embedded IPv4 address.\<close>

function read_groups :: "nat \<Rightarrow> nat \<Rightarrow> rstr \<Rightarrow> (16 word list \<times> bool) \<times> rstr" where
  "read_groups limit i s =
     (if i \<ge> limit then (([], False), s)
      else case (if i + 1 < limit then read_separated (ch CHR '':'') i read_ipv4 s else None) of
        Some ((a, b, c, d), rest) \<Rightarrow> (([word_of_bytes a b, word_of_bytes c d], True), rest)
      | None \<Rightarrow>
          (case read_separated (ch CHR '':'') i (read_number 16 0xffff 4 True) s of
             None \<Rightarrow> (([], False), s)
           | Some (g, rest) \<Rightarrow>
               let ((gs, v4), rest') = read_groups limit (i + 1) rest in ((word_of_nat g # gs, v4), rest')))"
  by auto
termination
  by (relation "measure (\<lambda>(limit, i, _). limit - i)") auto

declare read_groups.simps [simp del]

definition read_ipv6 :: "16 word list reads" where
  "read_ipv6 s =
     (let ((head, v4), rest) = read_groups 8 0 s in
      if length head = 8 then Some (head, rest)
      else if v4 then None
      else case Option.bind (read_char (ch CHR '':'') rest) (read_char (ch CHR '':'')) of
        None \<Rightarrow> None
      | Some rest \<Rightarrow>
          let ((tail, _), rest) = read_groups (8 - (length head + 1)) 0 rest
          in Some (head @ replicate (8 - length head - length tail) 0 @ tail, rest))"

definition parse_ip :: "rstr \<Rightarrow> ip_addr option" where
  "parse_ip s =
     (case read_ipv4 s of
        Some ((a, b, c, d), rest) \<Rightarrow> if rest = [] then Some (V4 a b c d) else None
      | None \<Rightarrow>
          (case read_ipv6 s of
             Some (gs, rest) \<Rightarrow> if rest = [] then Some (V6 gs) else None
           | None \<Rightarrow> None))"

section \<open>Internal addresses\<close>

definition v4_internal :: "byte \<Rightarrow> byte \<Rightarrow> byte \<Rightarrow> byte \<Rightarrow> bool" where
  "v4_internal a b c d \<longleftrightarrow>
     a = 127 \<or>
     (a = 10 \<or> a = 172 \<and> 16 \<le> b \<and> b \<le> 31 \<or> a = 192 \<and> b = 168) \<or>
     (a = 169 \<and> b = 254) \<or>
     (a = 0 \<and> b = 0 \<and> c = 0 \<and> d = 0) \<or>
     (a = 255 \<and> b = 255 \<and> c = 255 \<and> d = 255) \<or>
     a = 0 \<or>
     (a = 100 \<and> b AND 0xc0 = 64)"

definition hi_byte :: "16 word \<Rightarrow> byte" where
  "hi_byte s = ucast (drop_bit 8 s)"

definition lo_byte :: "16 word \<Rightarrow> byte" where
  "lo_byte s = ucast s"

definition is_internal_ip :: "ip_addr \<Rightarrow> bool" where
  "is_internal_ip ip =
     (case ip of
        V4 a b c d \<Rightarrow> v4_internal a b c d
      | V6 s \<Rightarrow>
          s = [0, 0, 0, 0, 0, 0, 0, 1] \<or> s = [0, 0, 0, 0, 0, 0, 0, 0] \<or>
          (s ! 0) AND 0xfe00 = 0xfc00 \<or> (s ! 0) AND 0xffc0 = 0xfe80 \<or>
          (take 6 s = [0, 0, 0, 0, 0, 0xffff] \<and>
             v4_internal (hi_byte (s ! 6)) (lo_byte (s ! 6)) (hi_byte (s ! 7)) (lo_byte (s ! 7))))"

text \<open>The environment of the process: whether the override variable is set, and the resolver of names.\<close>

record host_env =
  he_allow :: bool
  he_resolve :: "rstr \<Rightarrow> ip_addr list option"

definition resolve_any_internal :: "host_env \<Rightarrow> rstr \<Rightarrow> bool" where
  "resolve_any_internal env host =
     (case he_resolve env host of None \<Rightarrow> False | Some addrs \<Rightarrow> list_ex is_internal_ip addrs)"

section \<open>Address blocks\<close>

text \<open>The blocks of addresses that must not be reached, as network number and prefix length.\<close>

definition v4_number :: "nat \<Rightarrow> nat \<Rightarrow> nat \<Rightarrow> nat \<Rightarrow> nat" where
  "v4_number a b c d = a * 2 ^ 24 + b * 2 ^ 16 + c * 2 ^ 8 + d"

definition in_block :: "nat \<Rightarrow> nat \<times> nat \<Rightarrow> bool" where
  "in_block addr block = (addr div 2 ^ (32 - snd block) = fst block div 2 ^ (32 - snd block))"

definition internal_blocks :: "(nat \<times> nat) list" where
  "internal_blocks =
     [(v4_number 127 0 0 0, 8), (v4_number 10 0 0 0, 8), (v4_number 172 16 0 0, 12), (v4_number 192 168 0 0, 16),
      (v4_number 169 254 0 0, 16), (v4_number 0 0 0 0, 8), (v4_number 255 255 255 255, 32), (v4_number 100 64 0 0, 10)]"

lemma and_high_bits: "(n :: nat) AND (m * 2 ^ k) = (n div 2 ^ k AND m) * 2 ^ k"
  unfolding push_bit_eq_mult [symmetric] drop_bit_eq_div [symmetric]
  by (rule bit_eqI) (auto simp: bit_simps)

lemma and_high_bits_eq:
  "(n :: nat) < 2 ^ (k + w) \<Longrightarrow> (n AND ((2 ^ w - 1) * 2 ^ k) = m * 2 ^ k) \<longleftrightarrow> n div 2 ^ k = m"
proof -
  assume n: "n < 2 ^ (k + w)"
  then have "n div 2 ^ k < 2 ^ w"
    by (simp add: power_add less_mult_imp_div_less mult.commute)
  then have "n div 2 ^ k AND (2 ^ w - 1) = n div 2 ^ k"
    unfolding mask_eq_exp_minus_1 [symmetric] take_bit_eq_mask [symmetric] by (simp add: take_bit_nat_eq_self_iff)
  then show ?thesis
    by (simp only: and_high_bits) simp
qed

lemma byte_high_bits: "((b :: byte) AND 0xc0 = 64) \<longleftrightarrow> unat b div 64 = 1"
  using and_high_bits_eq [of "unat b" 6 2 1] by (simp add: word_unat_eq_iff unsigned_and_eq)

lemma word_high_bits:
  "((s :: 16 word) AND 0xfe00 = 0xfc00) \<longleftrightarrow> unat s div 512 = 126"
  "((s :: 16 word) AND 0xffc0 = 0xfe80) \<longleftrightarrow> unat s div 64 = 1018"
  using and_high_bits_eq [of "unat s" 9 7 126] and_high_bits_eq [of "unat s" 6 10 1018] unsigned_less [of s]
  by (simp_all add: word_unat_eq_iff unsigned_and_eq)

lemma digits_eq: "y < n \<Longrightarrow> v < n \<Longrightarrow> x * n + y = u * n + v \<longleftrightarrow> x = u \<and> y = v" for x y u v n :: nat
proof -
  assume "y < n" "v < n"
  moreover have "(x * n + y) div n = x" "(x * n + y) mod n = y" "(u * n + v) div n = u" "(u * n + v) mod n = v"
    using calculation by simp_all
  ultimately show ?thesis
    by metis
qed

lemma block_172: "y \<le> 255 \<Longrightarrow> x * 16 + y div 16 = 2753 \<longleftrightarrow> x = 172 \<and> 16 \<le> y \<and> y \<le> 31" for x y :: nat
  using digits_eq [of "y div 16" 16 1 x 172] by linarith

lemma block_100: "y \<le> 255 \<Longrightarrow> x * 4 + y div 64 = 401 \<longleftrightarrow> x = 100 \<and> y div 64 = 1" for x y :: nat
  using digits_eq [of "y div 64" 4 1 x 100] by linarith

lemma block_16: "y \<le> 255 \<Longrightarrow> v \<le> 255 \<Longrightarrow> x * 256 + y = u * 256 + v \<longleftrightarrow> x = u \<and> y = v" for x y u v :: nat
  using digits_eq [of y 256 v x u] by linarith

lemma quotient: "q * m + r = n \<Longrightarrow> r < m \<Longrightarrow> n div m = q" for q m r n :: nat
  by auto

lemma v4_quotients:
  assumes "b \<le> 255" "c \<le> 255" "d \<le> 255"
  shows "v4_number a b c d div 2 ^ 24 = a"
    and "v4_number a b c d div 2 ^ 16 = a * 256 + b"
    and "v4_number a b c d div 2 ^ 20 = a * 16 + b div 16"
    and "v4_number a b c d div 2 ^ 22 = a * 4 + b div 64"
proof -
  show d16: "v4_number a b c d div 2 ^ 16 = a * 256 + b"
    using assms by (intro quotient [of _ _ "c * 2 ^ 8 + d"]) (simp_all add: v4_number_def)
  have finer: "v4_number a b c d div (2 ^ 16 * m) = (a * 256 + b) div m" for m
    unfolding div_mult2_eq d16 ..
  show "v4_number a b c d div 2 ^ 24 = a"
    using assms finer [of "2 ^ 8"] by simp
  show "v4_number a b c d div 2 ^ 20 = a * 16 + b div 16"
    using finer [of "2 ^ 4"] div_mult_self3 [of 16 "a * 16" b] by simp
  show "v4_number a b c d div 2 ^ 22 = a * 4 + b div 64"
    using finer [of "2 ^ 6"] div_mult_self3 [of 64 "a * 4" b] by simp
qed

lemma v4_number_max:
  assumes "a \<le> 255" "b \<le> 255" "c \<le> 255" "d \<le> 255"
  shows "v4_number a b c d = v4_number 255 255 255 255 \<longleftrightarrow> a = 255 \<and> b = 255 \<and> c = 255 \<and> d = 255"
  using assms by (simp add: v4_number_def) (intro iffI conjI; linarith)

lemma in_internal_blocks:
  assumes "a \<le> 255" "b \<le> 255" "c \<le> 255" "d \<le> 255"
  shows "list_ex (in_block (v4_number a b c d)) internal_blocks \<longleftrightarrow>
    a = 127 \<or> a = 10 \<or> (a = 172 \<and> 16 \<le> b \<and> b \<le> 31) \<or> (a = 192 \<and> b = 168) \<or> (a = 169 \<and> b = 254) \<or>
    a = 0 \<or> (a = 255 \<and> b = 255 \<and> c = 255 \<and> d = 255) \<or> (a = 100 \<and> b div 64 = 1)"
proof -
  note q = v4_quotients [OF assms(2-4), of a] v4_quotients [of 0 0 0] v4_quotients [of 16 0 0 172] v4_quotients [of 168 0 0 192]
    v4_quotients [of 254 0 0 169] v4_quotients [of 64 0 0 100]
  show ?thesis
    using block_172 [OF assms(2), of a] block_100 [OF assms(2), of a] block_16 [OF assms(2), of 168 a 192]
      block_16 [OF assms(2), of 254 a 169] v4_number_max [OF assms]
    by (simp add: internal_blocks_def in_block_def q [simplified])
qed

lemma v4_internal_iff:
  "v4_internal a b c d \<longleftrightarrow> list_ex (in_block (v4_number (unat a) (unat b) (unat c) (unat d))) internal_blocks"
proof -
  have less: "unat x \<le> 255" for x :: byte
    using unat_byte_less [of x] by linarith
  show ?thesis
    unfolding in_internal_blocks [OF less less less less] v4_internal_def byte_high_bits
    by (auto simp: byte_eq_iff_unat word_le_nat_alt)
qed

text \<open>An address is internal when its leading bits are those of an internal block.\<close>

definition internal_network :: "ip_addr \<Rightarrow> bool" where
  "internal_network ip =
     (case ip of
        V4 a b c d \<Rightarrow> list_ex (in_block (v4_number (unat a) (unat b) (unat c) (unat d))) internal_blocks
      | V6 s \<Rightarrow>
          s = replicate 7 0 @ [1] \<or> s = replicate 8 0 \<or>
          unat (s ! 0) div 2 ^ 9 = 0xfc00 div 2 ^ 9 \<or> unat (s ! 0) div 2 ^ 6 = 0xfe80 div 2 ^ 6 \<or>
          (take 6 s = replicate 5 0 @ [0xffff] \<and>
             list_ex (in_block (unat (s ! 6) * 2 ^ 16 + unat (s ! 7))) internal_blocks))"

lemma v4_number_mapped:
  "v4_number (unat (hi_byte g)) (unat (lo_byte g)) (unat (hi_byte h)) (unat (lo_byte h)) = unat g * 2 ^ 16 + unat h"
proof -
  have "unat (hi_byte w) * 2 ^ 8 + unat (lo_byte w) = unat w" for w
  proof -
    have "unat w < 2 ^ 16"
      using unsigned_less [of w] by simp
    then have "unat (hi_byte w) = unat w div 2 ^ 8"
      by (simp add: hi_byte_def unsigned_ucast_eq take_bit_nat_eq_self_iff drop_bit_eq_div unat_div less_mult_imp_div_less)
    moreover have "unat (lo_byte w) = unat w mod 2 ^ 8"
      by (simp add: lo_byte_def unsigned_ucast_eq take_bit_eq_mod)
    ultimately show ?thesis
      by simp
  qed
  from this [of g] this [of h] show ?thesis
    unfolding v4_number_def by (simp add: algebra_simps)
qed

lemma is_internal_ip_iff: "is_internal_ip ip = internal_network ip"
proof (cases ip)
  case (V4 a b c d)
  then show ?thesis
    by (simp add: is_internal_ip_def internal_network_def v4_internal_iff)
next
  case (V6 s)
  have "replicate 7 0 = [0, 0, 0, 0, 0, 0, 0 :: 16 word]" "replicate 8 0 = [0, 0, 0, 0, 0, 0, 0, 0 :: 16 word]"
    "replicate 5 0 = [0, 0, 0, 0, 0 :: 16 word]"
    by (simp_all add: eval_nat_numeral)
  then show ?thesis
    unfolding is_internal_ip_def internal_network_def v4_internal_iff V6 ip_addr.case v4_number_mapped word_high_bits
    by simp
qed

text \<open>The URL crate gives the host of an IPv6 URL in brackets; no address literal starts with one.\<close>

definition bracketed :: "rstr \<Rightarrow> rstr" where
  "bracketed h = lit ''['' @ h @ lit '']''"

lemma parse_ip_bracketed: "parse_ip (bracketed h) = None"
proof -
  have "digit_value r (ch CHR ''['') = None" for r
    by (simp add: digit_value_def is_ascii_digit_def is_ascii_lower_def is_ascii_upper_def)
  then have num: "read_number r b k z (bracketed h) = None" for r b k z
    by (simp add: read_number_def bracketed_def)
  then have "read_ipv4 (bracketed h) = None"
    by (simp add: read_ipv4_def read_octet_def read_separated_def)
  moreover from this num have "read_groups 8 0 (bracketed h) = (([], False), bracketed h)"
    by (simp add: read_groups.simps [of 8 0] read_separated_def)
  ultimately show ?thesis
    by (simp add: parse_ip_def read_ipv6_def Let_def) (simp add: bracketed_def read_char_def)
qed

end
