(* ===== verification/Cloud.thy ===== *)
theory Cloud
  imports Hosts Stream MultiRecord "HOL-Library.List_Lexorder"
begin

text \<open>
  Paths and object stores (\<open>cloud.rs\<close>, \<open>table/mod.rs\<close>): classifying a path, the secrets and
  store options of a URL, the guard against internal hosts, glob prefixes and listing, and the
  reader that fetches a remote object in byte ranges. The crates for URLs, percent encoding, glob
  patterns and object stores, the resolver and the file system are parameters.
\<close>

section \<open>Parameters\<close>

record url =
  u_scheme :: rstr
  u_host :: "rstr option"
  u_path :: rstr
  u_text :: rstr

record url_lib =
  ul_parse :: "rstr \<Rightarrow> url option"
  ul_encode :: "rstr \<Rightarrow> rstr"
  ul_decode :: "rstr \<Rightarrow> rstr"

datatype (plugins only: code size) cloud_error =
    BadUrl rstr
  | UnsupportedScheme rstr rstr
  | InternalHost rstr
  | ReadOnlyScheme rstr
  | BadGlob rstr
  | FileNotFound rstr
  | RebuildUrl rstr
  | StoreFailed io_error

section \<open>Classifying a path\<close>

datatype (plugins only: code size) location = Local rstr | Remote url

fun split_once :: "rstr \<Rightarrow> rstr \<Rightarrow> (rstr \<times> rstr) option" where
  "split_once pat s =
     (if starts_with pat s then Some ([], drop (length pat) s)
      else case s of
        [] \<Rightarrow> None
      | c # cs \<Rightarrow> map_option (\<lambda>(a, b). (c # a, b)) (split_once pat cs))"

declare split_once.simps [simp del]

definition scheme_char :: "rchar \<Rightarrow> bool" where
  "scheme_char c \<longleftrightarrow> is_ascii_digit c \<or> is_ascii_upper c \<or> is_ascii_lower c \<or> c \<in> set (lit ''+-.'')"

definition s3_schemes :: "rstr list" where
  "s3_schemes = [lit ''s3'', lit ''s3a'']"

definition http_schemes :: "rstr list" where
  "http_schemes = [lit ''http'', lit ''https'']"

definition REMOTE_SCHEMES :: "rstr list" where
  "REMOTE_SCHEMES = [lit ''s3'', lit ''s3a'', lit ''http'', lit ''https'']"

definition encode_s3_url :: "url_lib \<Rightarrow> rstr \<Rightarrow> rstr \<Rightarrow> rstr" where
  "encode_s3_url ul scheme rest =
     (let (bucket, key) = (case split_once (lit ''/'') rest of None \<Rightarrow> (rest, []) | Some p \<Rightarrow> p)
      in scheme @ lit ''://'' @ bucket @ lit ''/'' @ ul_encode ul key)"

definition classify :: "url_lib \<Rightarrow> rstr \<Rightarrow> cloud_error + location" where
  "classify ul path =
     (case split_once (lit ''://'') path of
        None \<Rightarrow> Inr (Local path)
      | Some (scheme, rest) \<Rightarrow>
          let lower = to_ascii_lowercase scheme in
          if lower \<in> set s3_schemes then
            rmap_value Remote (ok_or (ul_parse ul (encode_s3_url ul lower rest)) (BadUrl path))
          else if lower \<in> set http_schemes then
            rmap_value Remote (ok_or (ul_parse ul path) (BadUrl path))
          else if lower \<noteq> [] \<and> list_all scheme_char lower then Inl (UnsupportedScheme lower path)
          else Inr (Local path))"

definition is_remote :: "rstr \<Rightarrow> bool" where
  "is_remote path =
     (case split_once (lit ''://'') path of
        None \<Rightarrow> False
      | Some (scheme, _) \<Rightarrow> to_ascii_lowercase scheme \<in> set REMOTE_SCHEMES)"

definition remote_key :: "url_lib \<Rightarrow> url \<Rightarrow> rstr" where
  "remote_key ul u =
     ul_decode ul (case strip_prefix (lit ''/'') (u_path u) of Some p \<Rightarrow> p | None \<Rightarrow> u_path u)"

section \<open>Secrets\<close>

definition secret_type_for :: "url \<Rightarrow> rstr option" where
  "secret_type_for u = (if u_scheme u \<in> set s3_schemes then Some (lit ''s3'') else None)"

text \<open>A lookup is the type of the secret and its scope.\<close>

type_synonym secret_lookup = "rstr \<times> rstr"

definition secret_lookup :: "url_lib \<Rightarrow> rstr \<Rightarrow> secret_lookup option" where
  "secret_lookup ul path =
     (case classify ul path of
        Inr (Remote u) \<Rightarrow> map_option (\<lambda>t. (t, u_text u)) (secret_type_for u)
      | _ \<Rightarrow> None)"

fun secret_lookups_loop :: "url_lib \<Rightarrow> rstr list \<Rightarrow> secret_lookup list \<Rightarrow> secret_lookup list" where
  "secret_lookups_loop ul [] out = out"
| "secret_lookups_loop ul (p # ps) out =
     secret_lookups_loop ul ps
       (case secret_lookup ul p of
          None \<Rightarrow> out
        | Some l \<Rightarrow> if l \<in> set out then out else out @ [l])"

definition secret_lookups :: "url_lib \<Rightarrow> rstr list \<Rightarrow> secret_lookup list" where
  "secret_lookups ul paths = secret_lookups_loop ul paths []"

section \<open>The guard against internal hosts\<close>

definition guard_host :: "host_env \<Rightarrow> rstr \<Rightarrow> cloud_error + unit" where
  "guard_host env host =
     (if he_allow env then Inr ()
      else
        let internal = (case parse_ip host of Some ip \<Rightarrow> is_internal_ip ip | None \<Rightarrow> resolve_any_internal env host)
        in if internal then Inl (InternalHost host) else Inr ())"

section \<open>Options of a store\<close>

definition parse_bool :: "rstr \<Rightarrow> bool option" where
  "parse_bool s =
     (let t = to_ascii_lowercase (trim s) in
      if t \<in> set (map lit [''true'', ''1'', ''yes'', ''on'']) then Some True
      else if t \<in> set (map lit [''false'', ''0'', ''no'', ''off'']) then Some False
      else None)"

definition contains_str :: "rstr \<Rightarrow> rstr \<Rightarrow> bool" where
  "contains_str pat s \<longleftrightarrow> split_once pat s \<noteq> None"

definition normalize_endpoint :: "rstr \<Rightarrow> bool option \<Rightarrow> rstr" where
  "normalize_endpoint ep use_ssl =
     (if contains_str (lit ''://'') ep then ep
      else (if use_ssl = Some False then lit ''http'' else lit ''https'') @ lit ''://'' @ ep)"

type_synonym options = "(rstr \<times> rstr) list"

definition opt_entry :: "rstr \<Rightarrow> rstr option \<Rightarrow> options" where
  "opt_entry key v = (case v of None \<Rightarrow> [] | Some x \<Rightarrow> [(key, x)])"

text \<open>\<open>secrets\<close> gives the fields of the secret for a URL and a type.\<close>

definition s3_options :: "(rstr \<Rightarrow> rstr \<Rightarrow> (rstr \<rightharpoonup> rstr) option) \<Rightarrow> url \<Rightarrow> options" where
  "s3_options secrets u =
     (case secrets (u_text u) (lit ''s3'') of
        None \<Rightarrow> []
      | Some flds \<Rightarrow>
          let nonempty = (\<lambda>f. case flds (lit f) of Some v \<Rightarrow> if v = [] then None else Some v | None \<Rightarrow> None);
              use_ssl = Option.bind (flds (lit ''use_ssl'')) parse_bool
          in opt_entry (lit ''aws_access_key_id'') (nonempty ''key_id'')
           @ opt_entry (lit ''aws_secret_access_key'') (nonempty ''secret'')
           @ opt_entry (lit ''aws_session_token'') (nonempty ''session_token'')
           @ opt_entry (lit ''aws_region'') (nonempty ''region'')
           @ opt_entry (lit ''aws_endpoint'') (map_option (\<lambda>v. normalize_endpoint v use_ssl) (nonempty ''endpoint''))
           @ opt_entry (lit ''aws_virtual_hosted_style_request'')
               (case nonempty ''url_style'' of
                  Some v \<Rightarrow> if eq_ignore_ascii_case v (lit ''path'') then Some (lit ''false'') else None
                | None \<Rightarrow> None)
           @ opt_entry (lit ''aws_allow_http'') (if use_ssl = Some False then Some (lit ''true'') else None))"

definition build_store ::
  "host_env \<Rightarrow> (rstr \<Rightarrow> rstr \<Rightarrow> (rstr \<rightharpoonup> rstr) option) \<Rightarrow> (url \<Rightarrow> options \<Rightarrow> cloud_error + 'store)
     \<Rightarrow> url \<Rightarrow> options \<Rightarrow> cloud_error + 'store" where
  "build_store env secrets init u overrides =
     rbind (if u_scheme u \<in> set http_schemes
            then (case u_host u of Some host \<Rightarrow> guard_host env host | None \<Rightarrow> Inr ())
            else Inr ()) (\<lambda>_.
     init u ((if secret_type_for u = Some (lit ''s3'') then s3_options secrets u else []) @ overrides))"

definition write_object ::
  "host_env \<Rightarrow> (rstr \<Rightarrow> rstr \<Rightarrow> (rstr \<rightharpoonup> rstr) option) \<Rightarrow> (url \<Rightarrow> options \<Rightarrow> cloud_error + 'store)
     \<Rightarrow> ('store \<Rightarrow> bytes \<Rightarrow> cloud_error + unit) \<Rightarrow> url \<Rightarrow> options \<Rightarrow> bytes \<Rightarrow> cloud_error + unit" where
  "write_object env secrets init put u overrides body =
     (if u_scheme u \<in> set http_schemes then Inl (ReadOnlyScheme (u_scheme u))
      else rbind (build_store env secrets init u overrides) (\<lambda>store. put store body))"

section \<open>Globs\<close>

definition is_wildcard :: "rchar \<Rightarrow> bool" where
  "is_wildcard c \<longleftrightarrow> c \<in> set (lit ''*?['')"

text \<open>The end of the part up to the last slash of \<open>s\<close>, \<open>rfind('/')\<close> with the slash included.\<close>

definition upto_slash :: "rstr \<Rightarrow> rstr" where
  "upto_slash s = rev (dropWhile (\<lambda>c. c \<noteq> ch CHR ''/'') (rev s))"

definition glob_prefix :: "rstr \<Rightarrow> rstr" where
  "glob_prefix key =
     (if list_ex is_wildcard key then upto_slash (takeWhile (\<lambda>c. \<not> is_wildcard c) key) else key)"

text \<open>
  \<open>matcher\<close> is the glob crate (\<open>None\<close> for a bad pattern), \<open>list_store\<close> the listing of a store
  below a prefix, whose locations are percent-encoded keys.
\<close>

definition list_glob ::
  "url_lib \<Rightarrow> (rstr \<Rightarrow> (rstr \<Rightarrow> bool) option) \<Rightarrow> (url \<Rightarrow> cloud_error + 'store)
     \<Rightarrow> ('store \<Rightarrow> rstr option \<Rightarrow> cloud_error + rstr list) \<Rightarrow> url \<Rightarrow> cloud_error + url list" where
  "list_glob ul matcher open_store list_store u =
     (if u_scheme u \<in> set http_schemes then Inr [u]
      else
        let key = remote_key ul u in
        rbind (ok_or (matcher key) (BadGlob (u_text u))) (\<lambda>matches.
        let prefix = glob_prefix key in
        rbind (open_store u) (\<lambda>store.
        let bucket = (case u_host u of Some h \<Rightarrow> h | None \<Rightarrow> []) in
        rbind (list_store store (if prefix = [] then None else Some prefix)) (\<lambda>locs.
        let literals = filter matches (map (ul_decode ul) locs)
        in rmap_value (sort_key u_text)
             (rmap (\<lambda>key. ok_or (ul_parse ul (encode_s3_url ul (u_scheme u) (bucket @ lit ''/'' @ key))) (RebuildUrl (u_text u)))
               literals)))))"

record file_system =
  fs_glob :: "rstr \<Rightarrow> rstr list option"
  fs_exists :: "rstr \<Rightarrow> bool"

definition resolve_local :: "file_system \<Rightarrow> rstr \<Rightarrow> cloud_error + rstr list" where
  "resolve_local fs spec =
     (if list_ex is_wildcard spec then rmap_value sort (ok_or (fs_glob fs spec) (BadGlob spec))
      else if fs_exists fs spec then Inr [spec]
      else Inl (FileNotFound spec))"

definition resolve_locations ::
  "url_lib \<Rightarrow> file_system \<Rightarrow> (url \<Rightarrow> cloud_error + url list) \<Rightarrow> rstr \<Rightarrow> cloud_error + location list" where
  "resolve_locations ul fs expand spec =
     rbind (classify ul spec) (\<lambda>loc.
       case loc of
         Local p \<Rightarrow> rmap_value (map Local) (resolve_local fs p)
       | Remote u \<Rightarrow>
           if list_ex is_wildcard (remote_key ul u) then rmap_value (map Remote) (expand u)
           else Inr [Remote u])"

section \<open>Reading an object in ranges\<close>

definition REMOTE_CHUNK :: nat where
  "REMOTE_CHUNK = 8 * 1024 * 1024"

text \<open>
  \<open>os_get start fin\<close> is a ranged request: the bytes received and the total size of the object.
\<close>

record object_store =
  os_get :: "nat \<Rightarrow> nat \<Rightarrow> io_error + (bytes \<times> nat)"
  os_head :: "io_error + nat"

record range_reader =
  rr_size :: "nat option"
  rr_pos :: nat
  rr_buf :: bytes
  rr_off :: nat

definition new_range_reader :: range_reader where
  "new_range_reader = \<lparr> rr_size = None, rr_pos = 0, rr_buf = [], rr_off = 0 \<rparr>"

definition take_buffered :: "nat \<Rightarrow> range_reader \<Rightarrow> (io_error + bytes) \<times> range_reader" where
  "take_buffered n r =
     (let k = min (length (rr_buf r) - rr_off r) n in
      (Inr (take k (drop (rr_off r) (rr_buf r))), r\<lparr> rr_off := rr_off r + k \<rparr>))"

text \<open>\<open>read\<close> into a buffer of \<open>n\<close> bytes.\<close>

definition range_read :: "object_store \<Rightarrow> nat \<Rightarrow> range_reader \<Rightarrow> (io_error + bytes) \<times> range_reader" where
  "range_read os n r =
     (if rr_off r < length (rr_buf r) then take_buffered n r
      else if (case rr_size r of Some len \<Rightarrow> len \<le> rr_pos r | None \<Rightarrow> False) then (Inr [], r)
      else
        let fin = (case rr_size r of
                     Some len \<Rightarrow> min (rr_pos r + REMOTE_CHUNK) len
                   | None \<Rightarrow> rr_pos r + REMOTE_CHUNK) in
        case os_get os (rr_pos r) fin of
          Inl e \<Rightarrow>
            if rr_size r = None \<and> os_head os = Inr 0 then (Inr [], r\<lparr> rr_size := Some 0 \<rparr>)
            else (Inl (Labelled (lit ''read'') e), r)
        | Inr (bs, len) \<Rightarrow>
            let r = r\<lparr> rr_size := Some len, rr_pos := rr_pos r + length bs, rr_buf := bs, rr_off := 0 \<rparr> in
            if bs = [] then (Inr [], r) else take_buffered n r)"

section \<open>Readers of bytes\<close>

text \<open>
  The contract of a reader of bytes on which all that remains can be read: a read into a buffer
  that is not empty delivers the next bytes of what remains, and nothing only at the end.
\<close>

locale byte_reader =
  fixes read :: "nat \<Rightarrow> 's \<Rightarrow> (io_error + bytes) \<times> 's"
    and left_over :: "'s \<Rightarrow> bytes"
    and ok :: "'s \<Rightarrow> bool"
  assumes read_step: "ok s \<Longrightarrow> 0 < n \<Longrightarrow>
      \<exists>bs s'. read n s = (Inr bs, s') \<and> ok s' \<and> left_over s = bs @ left_over s' \<and> length bs \<le> n
        \<and> (bs = [] \<longrightarrow> left_over s = [])"

text \<open>Reading until a read delivers nothing, with buffers of the sizes \<open>ns i\<close>.\<close>

fun read_out :: "(nat \<Rightarrow> 's \<Rightarrow> (io_error + bytes) \<times> 's) \<Rightarrow> nat list \<Rightarrow> 's \<Rightarrow> (io_error + bytes) option" where
  "read_out read [] s = None"
| "read_out read (n # ns) s =
     (case read n s of
        (Inl e, s) \<Rightarrow> Some (Inl e)
      | (Inr bs, s) \<Rightarrow> if bs = [] then Some (Inr []) else map_option (rmap_value ((@) bs)) (read_out read ns s))"

context byte_reader
begin

lemma read_out_all:
  "ok s \<Longrightarrow> list_all (\<lambda>n. 0 < n) ns \<Longrightarrow> length (left_over s) < length ns \<Longrightarrow> read_out read ns s = Some (Inr (left_over s))"
proof (induction ns arbitrary: s)
  case (Cons n ns)
  obtain bs s' where s: "read n s = (Inr bs, s')" "ok s'" "left_over s = bs @ left_over s'" "bs = [] \<longrightarrow> left_over s = []"
    using read_step [OF Cons.prems(1), of n] Cons.prems(2) by auto
  show ?case
  proof (cases "bs = []")
    case False
    then have "length (left_over s') < length ns"
      using s(3) Cons.prems(3) by (cases bs) auto
    then show ?thesis
      using Cons.IH [OF s(2)] Cons.prems(2) s False by simp
  qed (use s in simp)
qed simp

end

text \<open>
  What the code relies on: a ranged request inside the object answers with the size of the object
  and at least one byte of the range, possibly fewer than asked for; a request outside fails.
\<close>

definition serves :: "object_store \<Rightarrow> bytes \<Rightarrow> bool" where
  "serves os obj \<longleftrightarrow>
     os_head os = Inr (length obj) \<and>
     (\<forall>start fin. start < length obj \<longrightarrow> start < fin \<longrightarrow>
        (\<exists>k. 0 < k \<and> k \<le> fin - start \<and> os_get os start fin = Inr (take k (drop start obj), length obj))) \<and>
     (\<forall>start fin. length obj \<le> start \<longrightarrow> (\<exists>e. os_get os start fin = Inl e))"

definition range_ok :: "bytes \<Rightarrow> range_reader \<Rightarrow> bool" where
  "range_ok obj r \<longleftrightarrow>
     (case rr_size r of None \<Rightarrow> rr_pos r = 0 \<and> rr_buf r = [] | Some len \<Rightarrow> len = length obj) \<and> rr_pos r \<le> length obj"

definition range_left :: "bytes \<Rightarrow> range_reader \<Rightarrow> bytes" where
  "range_left obj r = drop (rr_off r) (rr_buf r) @ drop (rr_pos r) obj"

lemma take_buffered_step:
  assumes "range_ok obj r" "rr_off r < length (rr_buf r)" "0 < n"
  shows "\<exists>bs r'. take_buffered n r = (Inr bs, r') \<and> range_ok obj r' \<and> range_left obj r = bs @ range_left obj r'
    \<and> length bs \<le> n \<and> bs \<noteq> []"
proof -
  let ?k = "min (length (rr_buf r) - rr_off r) n" and ?rest = "drop (rr_off r) (rr_buf r)"
  let ?r = "r\<lparr> rr_off := rr_off r + ?k \<rparr>"
  have "take_buffered n r = (Inr (take ?k ?rest), ?r)"
    by (simp add: take_buffered_def Let_def)
  moreover have "range_ok obj ?r"
    using assms(1) by (cases "rr_size r") (simp_all add: range_ok_def)
  moreover have "range_left obj r = take ?k ?rest @ range_left obj ?r"
    by (simp only: range_left_def append_assoc [symmetric]) (simp add: add.commute [of "rr_off r"] drop_drop [symmetric] del: drop_drop)
  moreover have "length (take ?k ?rest) \<le> n" "take ?k ?rest \<noteq> []"
    using assms(2,3) by simp_all
  ultimately show ?thesis
    by blast
qed

lemma range_read_step:
  assumes "serves os obj" "range_ok obj r" "0 < n"
  shows "\<exists>bs r'. range_read os n r = (Inr bs, r') \<and> range_ok obj r' \<and> range_left obj r = bs @ range_left obj r'
    \<and> length bs \<le> n \<and> (bs = [] \<longrightarrow> range_left obj r = [])"
proof -
  consider (buffered) "rr_off r < length (rr_buf r)" | (at_end) "length (rr_buf r) \<le> rr_off r" "rr_pos r = length obj" "rr_size r \<noteq> None"
    | (empty) "length (rr_buf r) \<le> rr_off r" "rr_size r = None" "obj = []"
    | (fetch) "length (rr_buf r) \<le> rr_off r" "rr_pos r < length obj"
  proof (cases "rr_off r < length (rr_buf r)")
    case False
    then show ?thesis
      using assms(2) that(2-4) by (cases "rr_size r"; cases "rr_pos r < length obj") (auto simp: range_ok_def not_less)
  qed (rule that(1))
  then show ?thesis
  proof cases
    case buffered
    then show ?thesis
      using take_buffered_step [OF assms(2) buffered assms(3)] by (auto simp: range_read_def)
  next
    case at_end
    then show ?thesis
      using assms(2) by (auto simp: range_read_def range_ok_def range_left_def)
  next
    case empty
    obtain e where "os_get os 0 REMOTE_CHUNK = Inl e"
      using assms(1) empty(3) unfolding serves_def by fastforce
    then show ?thesis
      using assms(1,2) empty by (auto simp: range_read_def range_ok_def range_left_def serves_def Let_def)
  next
    case fetch
    define fin where "fin = (case rr_size r of Some len \<Rightarrow> min (rr_pos r + REMOTE_CHUNK) len | None \<Rightarrow> rr_pos r + REMOTE_CHUNK)"
    have "rr_pos r < fin"
      using fetch assms(2) by (auto simp: fin_def REMOTE_CHUNK_def range_ok_def split: option.splits)
    then obtain k where k: "0 < k" "os_get os (rr_pos r) fin = Inr (take k (drop (rr_pos r) obj), length obj)"
      using assms(1) fetch(2) unfolding serves_def by blast
    let ?bs = "take k (drop (rr_pos r) obj)"
    let ?r = "r\<lparr> rr_size := Some (length obj), rr_pos := rr_pos r + length ?bs, rr_buf := ?bs, rr_off := 0 \<rparr>"
    have ne: "?bs \<noteq> []"
      using k(1) fetch(2) by simp
    have "range_read os n r = take_buffered n ?r"
      using fetch k(2) ne assms(2)
      by (auto simp: range_read_def Let_def range_ok_def fin_def [symmetric] split: option.splits)
    moreover have "range_ok obj ?r" "rr_off ?r < length (rr_buf ?r)"
      using fetch(2) k(1) by (simp_all add: range_ok_def)
    moreover have "range_left obj ?r = range_left obj r"
    proof -
      have "drop (rr_pos r + length ?bs) obj = drop k (drop (rr_pos r) obj)"
        by (auto simp: min_def add.commute)
      then show ?thesis
        using fetch(1) append_take_drop_id [of k "drop (rr_pos r) obj"] by (simp add: range_left_def add.commute)
    qed
    ultimately show ?thesis
      using take_buffered_step [of obj ?r n] assms(3) by fastforce
  qed
qed

interpretation range: byte_reader "range_read os" "range_left obj" "\<lambda>r. serves os obj \<and> range_ok obj r"
  for os obj
proof
  fix r n
  assume "serves os obj \<and> range_ok obj r" "0 < (n :: nat)"
  then show "\<exists>bs r'. range_read os n r = (Inr bs, r') \<and> (serves os obj \<and> range_ok obj r') \<and>
      range_left obj r = bs @ range_left obj r' \<and> length bs \<le> n \<and> (bs = [] \<longrightarrow> range_left obj r = [])"
    using range_read_step [of os obj r n] by blast
qed

text \<open>The buffered readers of sources satisfy the same contract: \<open>read_full\<close> with a buffer of \<open>n\<close> bytes.\<close>

lemma read_full_step:
  "sound src \<Longrightarrow> 0 < n \<Longrightarrow> \<exists>bs src'. read_full src [] n = (Inr bs, src') \<and> sound src' \<and>
     source_data src = bs @ source_data src' \<and> length bs \<le> n \<and> (bs = [] \<longrightarrow> source_data src = [])"
  using read_full_sound [of src "[]" n] by auto

interpretation full: byte_reader "\<lambda>n src. read_full src [] n" source_data sound
  by unfold_locales (rule read_full_step)

section \<open>Facts\<close>

lemma secret_lookups_loop_eq:
  "distinct out \<Longrightarrow> distinct (secret_lookups_loop ul ps out) \<and>
     set (secret_lookups_loop ul ps out) = set out \<union> {l. \<exists>p \<in> set ps. secret_lookup ul p = Some l}"
proof (induction ul ps out rule: secret_lookups_loop.induct)
  case (2 ul p ps out)
  show ?case
  proof (cases "secret_lookup ul p")
    case (Some l)
    then show ?thesis
      using 2 by (cases "l \<in> set out") auto
  qed (use 2 in simp)
qed simp

lemma upto_slash_prefix: "\<exists>rest. s = upto_slash s @ rest \<and> ch CHR ''/'' \<notin> set rest"
proof -
  let ?p = "\<lambda>c. c \<noteq> (ch CHR ''/'' :: rchar)"
  have "s = rev (dropWhile ?p (rev s)) @ rev (takeWhile ?p (rev s))"
    by (metis rev_append rev_rev_ident takeWhile_dropWhile_id)
  then show ?thesis
    unfolding upto_slash_def by (intro exI [of _ "rev (takeWhile ?p (rev s))"]) (auto dest: set_takeWhileD)
qed

lemma upto_slash_ends: "upto_slash s \<noteq> [] \<Longrightarrow> last (upto_slash s) = ch CHR ''/''"
  unfolding upto_slash_def using hd_dropWhile [of "\<lambda>c. c \<noteq> (ch CHR ''/'' :: rchar)" "rev s"] by (simp add: last_rev)

lemma glob_prefix_parts:
  assumes "list_ex is_wildcard key"
  obtains before segment after where "key = before @ segment @ after" "glob_prefix key = before"
    "\<not> list_ex is_wildcard before" "before = [] \<or> last before = ch CHR ''/''"
    "ch CHR ''/'' \<notin> set segment" "\<not> list_ex is_wildcard segment" "\<exists>w rest. after = w # rest \<and> is_wildcard w"
proof -
  let ?lit = "takeWhile (\<lambda>c. \<not> is_wildcard c) key" and ?after = "dropWhile (\<lambda>c. \<not> is_wildcard c) key"
  obtain segment where seg: "?lit = upto_slash ?lit @ segment" "ch CHR ''/'' \<notin> set segment"
    using upto_slash_prefix by blast
  have lits: "\<not> is_wildcard c" if "c \<in> set ?lit" for c
    using that by (auto dest: set_takeWhileD)
  have "\<exists>w rest. ?after = w # rest \<and> is_wildcard w"
  proof -
    have "?after \<noteq> []"
      using assms by (auto simp: list_ex_iff dropWhile_eq_Nil_conv)
    then show ?thesis
      using hd_dropWhile [of "\<lambda>c. \<not> is_wildcard c" key] by (metis list.collapse)
  qed
  moreover have "key = upto_slash ?lit @ segment @ ?after"
    using seg(1) by (metis append_assoc takeWhile_dropWhile_id)
  moreover have "set (upto_slash ?lit) \<union> set segment = set ?lit"
    using seg(1) by (metis set_append)
  then have "\<not> list_ex is_wildcard (upto_slash ?lit)" "\<not> list_ex is_wildcard segment"
    using lits unfolding list_ex_iff by blast+
  ultimately show ?thesis
    using that [of "upto_slash ?lit" segment ?after] assms seg(2) upto_slash_ends by (auto simp: glob_prefix_def)
qed

text \<open>The addresses that a request to a host can reach.\<close>

definition addresses :: "host_env \<Rightarrow> rstr \<Rightarrow> ip_addr list" where
  "addresses env host =
     (case parse_ip host of
        Some ip \<Rightarrow> [ip]
      | None \<Rightarrow> (case he_resolve env host of Some ips \<Rightarrow> ips | None \<Rightarrow> []))"

section \<open>Properties\<close>

text \<open>
  C13. Reading a remote object in ranges gives the object: whatever the sizes of the buffers and
  however short the answers of the server (as long as each has a byte), reading until nothing
  comes back delivers exactly the bytes of the object, the empty object included, without an
  error. One read more than there are bytes is enough.
\<close>

theorem range_reader_reads_object:
  assumes "serves os obj" "list_all (\<lambda>n. 0 < n) ns" "length obj < length ns"
  shows "read_out (range_read os) ns new_range_reader = Some (Inr obj)"
  using range.read_out_all [of os obj new_range_reader ns] assms
  by (simp add: range_ok_def range_left_def new_range_reader_def)

theorem range_reader_reads_object_witness:
  "read_out (range_read
       \<lparr> os_get = (\<lambda>start fin. if start < 3 then Inr (take 2 (take (fin - start) (drop start [7, 8, 9])), 3) else Inl Interrupted),
         os_head = Inr 3 \<rparr>) [1, 5, 5, 5] new_range_reader = Some (Inr [7, 8, 9])"
proof -
  let ?os = "\<lparr> os_get = (\<lambda>start fin. if start < 3 then Inr (take 2 (take (fin - start) (drop start [7, 8, 9 :: byte])), 3) else Inl Interrupted),
         os_head = Inr 3 \<rparr>"
  have "\<exists>k > 0. k \<le> fin - start \<and> take 2 (take (fin - start) (drop start [7, 8, 9 :: byte])) = take k (drop start [7, 8, 9])"
    if "start < fin" for start fin :: nat
    using that by (intro exI [of _ "min 2 (fin - start)"]) (simp add: min_def)
  then have "serves ?os [7, 8, 9]"
    by (auto simp: serves_def)
  then show ?thesis
    using range_reader_reads_object [of ?os "[7, 8, 9]" "[1, 5, 5, 5]"] by simp
qed

text \<open>
  A path with a scheme is never taken for a local file: \<open>classify\<close> gives a local path exactly
  for paths without \<open>://\<close>, or whose part before it is empty or has a character that no scheme
  has; and the quick check \<open>is_remote\<close> is true exactly for the paths that \<open>classify\<close> gives to the
  object store or whose URL it cannot parse.
\<close>

theorem classify_local_iff:
  "(classify ul path = Inr (Local p) \<longleftrightarrow> p = path \<and>
     (case split_once (lit ''://'') path of
        None \<Rightarrow> True
      | Some (scheme, rest) \<Rightarrow> scheme = [] \<or> list_ex (\<lambda>c. \<not> scheme_char c) scheme))
   \<and> (is_remote path \<longleftrightarrow> (\<exists>u. classify ul path = Inr (Remote u)) \<or> classify ul path = Inl (BadUrl path))"
proof -
  have low: "list_all scheme_char (to_ascii_lowercase s) \<longleftrightarrow> list_all scheme_char s" for s
    by (auto simp: to_ascii_lowercase_def lower_char_def list_all_iff scheme_char_def is_ascii_upper_def is_ascii_lower_def is_ascii_digit_def)
  have known: "list_all scheme_char s \<and> s \<noteq> []" if "to_ascii_lowercase s \<in> set REMOTE_SCHEMES" for s
  proof -
    have "list_all scheme_char (to_ascii_lowercase s)" "to_ascii_lowercase s \<noteq> []"
      using that by (auto simp: REMOTE_SCHEMES_def scheme_char_def is_ascii_lower_def is_ascii_digit_def)
    then show ?thesis
      unfolding low by (simp add: to_ascii_lowercase_def)
  qed
  have sets: "x \<in> set REMOTE_SCHEMES \<longleftrightarrow> x \<in> set s3_schemes \<or> x \<in> set http_schemes" for x
    by (auto simp: s3_schemes_def http_schemes_def REMOTE_SCHEMES_def)
  show ?thesis
  proof (cases "split_once (lit ''://'') path")
    case (Some pair)
    obtain scheme rest where p: "split_once (lit ''://'') path = Some (scheme, rest)"
      using Some by (cases pair) auto
    have ex: "list_ex (\<lambda>c. \<not> scheme_char c) s \<longleftrightarrow> \<not> list_all scheme_char s" for s
      by (auto simp: list_ex_iff list_all_iff)
    note unfolded = ex classify_def is_remote_def Let_def sets p option.case prod.case low ok_or_def
    consider "to_ascii_lowercase scheme \<in> set s3_schemes"
      | "to_ascii_lowercase scheme \<notin> set s3_schemes" "to_ascii_lowercase scheme \<in> set http_schemes"
      | "to_ascii_lowercase scheme \<notin> set s3_schemes" "to_ascii_lowercase scheme \<notin> set http_schemes"
      by blast
    then show ?thesis
    proof cases
      case 1
      then show ?thesis
        using known [of scheme] unfolding unfolded by (auto simp: sets split: option.split)
    next
      case 2
      then show ?thesis
        using known [of scheme] unfolding unfolded by (auto simp: sets split: option.split)
    next
      case 3
      then show ?thesis
        unfolding unfolded by (auto simp: to_ascii_lowercase_def)
    qed
  qed (auto simp: classify_def is_remote_def)
qed

text \<open>
  C14. The guard of \<open>http(s)\<close> reads refuses a host exactly when the override is not set and one of
  its addresses - the address it spells, or else those its name resolves to - lies in a network
  that must not be reached: the tests on single bytes are the loopback, private, link-local,
  unspecified, broadcast and carrier-grade blocks, the unique-local and link-local ranges of IPv6,
  and the IPv4 blocks again for mapped addresses.
\<close>

theorem guard_refuses_internal:
  "guard_host env host =
     (if he_allow env \<or> list_all (\<lambda>ip. \<not> internal_network ip) (addresses env host) then Inr () else Inl (InternalHost host))"
  unfolding guard_host_def resolve_any_internal_def addresses_def is_internal_ip_iff [abs_def]
  by (auto simp: Let_def list_ex_iff list_all_iff split: option.splits)

text \<open>
  An IPv6 host is not guarded: the host of such a URL comes in brackets, which the parser of
  addresses rejects and no resolver knows, so the store is built for every IPv6 address, the
  loopback address included.
\<close>

theorem ipv6_url_not_guarded:
  assumes "u_scheme u \<in> set http_schemes" "u_host u = Some (bracketed h)" "he_resolve env (bracketed h) = None"
  shows "build_store env secrets init u overrides = init u overrides"
  using assms
  by (auto simp: build_store_def guard_host_def resolve_any_internal_def parse_ip_bracketed secret_type_for_def
      http_schemes_def s3_schemes_def Let_def)

theorem ipv6_url_not_guarded_witness:
  "let env = \<lparr> he_allow = False, he_resolve = (\<lambda>_. None) \<rparr>;
       u = \<lparr> u_scheme = lit ''http'', u_host = Some (bracketed (lit ''::1'')), u_path = [], u_text = [] \<rparr>
   in guard_host env (lit ''::1'') = Inl (InternalHost (lit ''::1'')) \<and>
      build_store env (\<lambda>_ _. None) (\<lambda>_ opts. Inr opts) u [] = Inr []"
proof -
  have "guard_host \<lparr> he_allow = False, he_resolve = (\<lambda>_. None) \<rparr> (lit ''::1'') = Inl (InternalHost (lit ''::1''))"
    by code_simp
  then show ?thesis
    by (simp add: ipv6_url_not_guarded [of _ "lit ''::1''"] http_schemes_def)
qed

end
