(* ===== verification/Options.thy ===== *)
theory Options
  imports Cloud Compression
begin

text \<open>
  The options of a call (\<open>options.rs\<close>, and \<open>record_length\<close> of \<open>table/read_fixed.rs\<close>): the paths, the
  layout, and the named options with their defaults. The arguments belong to the worker SDK; their
  accessors are the fields of a record.
\<close>

section \<open>Arguments\<close>

text \<open>An argument that is not a string: a list, whose elements may be strings or not, or anything else.\<close>

datatype (plugins only: code size) arg_value = ArgStrings "rstr option list" | ArgItems | ArgOther

record arguments =
  const_str :: "nat \<Rightarrow> rstr option"
  arg_at :: "nat \<Rightarrow> arg_value option"
  named_str :: "rstr \<Rightarrow> rstr option"
  named_i64 :: "rstr \<Rightarrow> int option"
  named_bool :: "rstr \<Rightarrow> bool option"

datatype (plugins only: code size) option_error =
    PathRequired
  | PathType
  | PathItems
  | NoPaths
  | SpecRequired
  | LimitNotPositive
  | Invalid error

definition opt :: "error + 'a \<Rightarrow> option_error + 'a" where
  "opt r = map_err Invalid r"

section \<open>Positional arguments\<close>

definition paths :: "arguments \<Rightarrow> nat \<Rightarrow> option_error + rstr list" where
  "paths args pos =
     (case const_str args pos of
        Some s \<Rightarrow> Inr [s]
      | None \<Rightarrow>
          (case arg_at args pos of
             None \<Rightarrow> Inl PathRequired
           | Some ArgOther \<Rightarrow> Inl PathType
           | Some ArgItems \<Rightarrow> Inl PathItems
           | Some (ArgStrings elems) \<Rightarrow>
               let out = List.map_filter id elems in
               if out = [] then Inl NoPaths else Inr out))"

definition options_layout :: "serde \<Rightarrow> arguments \<Rightarrow> nat \<Rightarrow> option_error + layout" where
  "options_layout sd args spec_pos =
     rbind (ok_or (const_str args spec_pos) SpecRequired) (\<lambda>spec.
     opt (parse_spec sd spec (named_str args (lit ''format''))))"

definition encoding_at :: "arguments \<Rightarrow> nat \<Rightarrow> option_error + encoding" where
  "encoding_at args pos =
     (case const_str args pos of
        Some s \<Rightarrow> opt (encoding_parse s)
      | None \<Rightarrow> Inr Ascii)"

section \<open>Named options\<close>

text \<open>\<open>a.or_else(b)\<close>\<close>

definition or_else :: "'a option \<Rightarrow> 'a option \<Rightarrow> 'a option" where
  "or_else a b = (case a of Some x \<Rightarrow> Some x | None \<Rightarrow> b)"

definition encoding_option :: "arguments \<Rightarrow> option_error + encoding" where
  "encoding_option args =
     (case or_else (named_str args (lit ''encoding'')) (named_str args (lit ''codepage'')) of
        Some s \<Rightarrow> opt (encoding_parse s)
      | None \<Rightarrow> Inr Ascii)"

definition framing_option :: "arguments \<Rightarrow> option_error + framing" where
  "framing_option args =
     (case named_str args (lit ''framing'') of
        Some s \<Rightarrow> opt (framing_parse s)
      | None \<Rightarrow> Inr Newline)"

definition compression_option :: "arguments \<Rightarrow> option_error + compression option" where
  "compression_option args =
     (case named_str args (lit ''compression'') of
        None \<Rightarrow> Inr None
      | Some s \<Rightarrow>
          if eq_ignore_ascii_case (trim s) (lit ''auto'') then Inr None
          else rmap_value Some (opt (compression_parse s)))"

definition write_compression :: "arguments \<Rightarrow> rstr \<Rightarrow> option_error + compression" where
  "write_compression args path =
     rbind (compression_option args) (\<lambda>k.
     Inr (case k of Some c \<Rightarrow> c | None \<Rightarrow> from_path path))"

definition read_limits :: "arguments \<Rightarrow> option_error + limits" where
  "read_limits args =
     (case named_i64 args (lit ''max_decompressed_bytes'') of
        None \<Rightarrow> Inr default_limits
      | Some n \<Rightarrow>
          if n \<le> 0 then Inl LimitNotPositive
          else Inr (default_limits\<lparr> max_decompressed_bytes := nat n \<rparr>))"

text \<open>\<open>n as usize\<close> for an \<open>i64\<close>\<close>

definition as_usize :: "int \<Rightarrow> nat" where
  "as_usize n = nat (n mod 2 ^ 64)"

definition record_length :: "arguments \<Rightarrow> layout \<Rightarrow> nat" where
  "record_length args l =
     (case named_i64 args (lit ''record_length'') of Some n \<Rightarrow> as_usize n | None \<Rightarrow> l_record_len l)"

section \<open>Options of the object store\<close>

definition use_ssl_option :: "arguments \<Rightarrow> bool option" where
  "use_ssl_option args =
     or_else (named_bool args (lit ''use_ssl'')) (Option.bind (named_str args (lit ''use_ssl'')) parse_bool)"

definition cloud_overrides :: "arguments \<Rightarrow> options" where
  "cloud_overrides args =
     (let use_ssl = use_ssl_option args in
      opt_entry (lit ''aws_endpoint'') (map_option (\<lambda>ep. normalize_endpoint ep use_ssl) (named_str args (lit ''endpoint'')))
    @ opt_entry (lit ''aws_region'') (named_str args (lit ''region''))
    @ opt_entry (lit ''aws_virtual_hosted_style_request'')
        (case named_str args (lit ''url_style'') of
           Some s \<Rightarrow> if eq_ignore_ascii_case s (lit ''path'') then Some (lit ''false'') else None
         | None \<Rightarrow> None)
    @ opt_entry (lit ''aws_allow_http'') (if use_ssl = Some False then Some (lit ''true'') else None))"

section \<open>Facts\<close>

text \<open>The store takes the last value of a key.\<close>

definition effective :: "options \<Rightarrow> rstr \<Rightarrow> rstr option" where
  "effective opts key = map_of (rev opts) key"

lemma effective_append: "effective (a @ b) key = or_else (effective b key) (effective a key)"
  by (simp add: effective_def or_else_def map_add_def split: option.split)

lemma effective_entry: "effective (opt_entry k v) key = (if key = k then v else None)"
  by (simp add: effective_def opt_entry_def split: option.split)

lemma effective_Nil: "effective [] key = None"
  by (simp add: effective_def)

lemma or_else_simps [simp]: "or_else None b = b" "or_else a None = a" "or_else (Some x) b = Some x"
  by (simp_all add: or_else_def split: option.split)

text \<open>A field of a secret counts when it is not empty.\<close>

definition secret_field :: "(rstr \<rightharpoonup> rstr) \<Rightarrow> string \<Rightarrow> rstr option" where
  "secret_field flds f = (case flds (lit f) of Some v \<Rightarrow> if v = [] then None else Some v | None \<Rightarrow> None)"

definition names_path :: "rstr option \<Rightarrow> bool" where
  "names_path style = (case style of Some s \<Rightarrow> eq_ignore_ascii_case s (lit ''path'') | None \<Rightarrow> False)"

lemma style_entry:
  "(case style of Some s \<Rightarrow> if eq_ignore_ascii_case s (lit ''path'') then Some (lit ''false'') else None | None \<Rightarrow> None)
     = (if names_path style then Some (lit ''false'') else None)"
  by (simp add: names_path_def split: option.split)

lemma store_keys_distinct:
  "distinct [lit ''aws_access_key_id'', lit ''aws_secret_access_key'', lit ''aws_session_token'', lit ''aws_region'', lit ''aws_endpoint'',
     lit ''aws_virtual_hosted_style_request'', lit ''aws_allow_http'' :: rstr]"
  by code_simp

section \<open>Properties\<close>

text \<open>
  C40. How the named options of an S3 call combine with its secret: a named endpoint or region wins
  over the secret, and the credentials are those of the secret; but path-style addressing and plain
  HTTP are in force when either of them asks for it, so no named option can turn them off.
\<close>

theorem named_options_override:
  assumes "secrets (u_text u) (lit ''s3'') = Some flds"
  shows "effective (s3_options secrets u @ cloud_overrides args) (lit ''aws_access_key_id'') = secret_field flds ''key_id'' \<and>
    effective (s3_options secrets u @ cloud_overrides args) (lit ''aws_secret_access_key'') = secret_field flds ''secret'' \<and>
    effective (s3_options secrets u @ cloud_overrides args) (lit ''aws_session_token'') = secret_field flds ''session_token'' \<and>
    effective (s3_options secrets u @ cloud_overrides args) (lit ''aws_region'')
      = or_else (named_str args (lit ''region'')) (secret_field flds ''region'') \<and>
    effective (s3_options secrets u @ cloud_overrides args) (lit ''aws_endpoint'')
      = or_else (map_option (\<lambda>ep. normalize_endpoint ep (use_ssl_option args)) (named_str args (lit ''endpoint'')))
          (map_option (\<lambda>ep. normalize_endpoint ep (Option.bind (flds (lit ''use_ssl'')) parse_bool)) (secret_field flds ''endpoint'')) \<and>
    effective (s3_options secrets u @ cloud_overrides args) (lit ''aws_virtual_hosted_style_request'')
      = (if names_path (named_str args (lit ''url_style'')) \<or> names_path (secret_field flds ''url_style'')
         then Some (lit ''false'') else None) \<and>
    effective (s3_options secrets u @ cloud_overrides args) (lit ''aws_allow_http'')
      = (if use_ssl_option args = Some False \<or> Option.bind (flds (lit ''use_ssl'')) parse_bool = Some False
         then Some (lit ''true'') else None)"
  using assms store_keys_distinct
  unfolding s3_options_def cloud_overrides_def Let_def secret_field_def [symmetric] style_entry effective_append effective_entry
  by (auto simp: effective_append effective_entry style_entry)

theorem named_options_override_witness:
  "let u = \<lparr> u_scheme = lit ''s3'', u_host = None, u_path = [], u_text = [] \<rparr>;
       secrets = (\<lambda>_ _. Some [lit ''url_style'' \<mapsto> lit ''path'', lit ''region'' \<mapsto> lit ''eu'']);
       args = \<lparr> const_str = (\<lambda>_. None), arg_at = (\<lambda>_. None),
                named_str = [lit ''url_style'' \<mapsto> lit ''vhost'', lit ''region'' \<mapsto> lit ''us''],
                named_i64 = (\<lambda>_. None), named_bool = (\<lambda>_. None) \<rparr>
   in effective (s3_options secrets u @ cloud_overrides args) (lit ''aws_region'') = Some (lit ''us'') \<and>
      effective (s3_options secrets u @ cloud_overrides args) (lit ''aws_virtual_hosted_style_request'') = Some (lit ''false'')"
proof -
  let ?u = "\<lparr> u_scheme = lit ''s3'', u_host = None, u_path = [], u_text = [] \<rparr>"
  let ?flds = "[lit ''url_style'' \<mapsto> lit ''path'', lit ''region'' \<mapsto> lit ''eu''] :: rstr \<rightharpoonup> rstr"
  let ?args = "\<lparr> const_str = (\<lambda>_. None), arg_at = (\<lambda>_. None),
      named_str = [lit ''url_style'' \<mapsto> lit ''vhost'', lit ''region'' \<mapsto> lit ''us''],
      named_i64 = (\<lambda>_. None), named_bool = (\<lambda>_. None) \<rparr>"
  have "names_path (secret_field ?flds ''url_style'')" "named_str ?args (lit ''region'') = Some (lit ''us'')"
    by code_simp+
  then show ?thesis
    using named_options_override [of "\<lambda>_ _. Some ?flds" ?u ?flds ?args] by simp
qed

end
