(* ===== verification/Handlers.thy ===== *)
theory Handlers
  imports Options Scan Describe
begin

text \<open>
  The table functions and the \<open>COPY ... FROM\<close> reader of the worker (\<open>table/read_fixed.rs\<close>,
  \<open>table/read_multi.rs\<close>, \<open>table/describe_fixed.rs\<close>, \<open>table/describe_multi.rs\<close>, \<open>copy_from.rs\<close>, and
  \<open>resolve_sources\<close> of \<open>reader.rs\<close>): from the arguments of a call to its schema and its batches.
\<close>

section \<open>The environment of a call\<close>

datatype (plugins only: code size) 'store source_ref = SLocal rstr | SRemote 'store url

text \<open>
  What the handlers rely on: the crates for JSON, time, compression, URLs, globs, casts and object
  stores, the secrets of the call, the file system, and what opening a source gives (a file, or
  the range reader over an object, behind a buffered reader).
\<close>

record 'store env =
  ev_chrono :: chrono
  ev_serde :: serde
  ev_codecs :: codecs
  ev_streams :: stream_codecs
  ev_urls :: url_lib
  ev_host :: host_env
  ev_secrets :: "rstr \<Rightarrow> rstr \<Rightarrow> (rstr \<rightharpoonup> rstr) option"
  ev_matcher :: "rstr \<Rightarrow> (rstr \<Rightarrow> bool) option"
  ev_init :: "url \<Rightarrow> options \<Rightarrow> cloud_error + 'store"
  ev_list :: "'store \<Rightarrow> rstr option \<Rightarrow> cloud_error + rstr list"
  ev_put :: "'store \<Rightarrow> bytes \<Rightarrow> cloud_error + unit"
  ev_fs :: file_system
  ev_open :: "'store source_ref \<Rightarrow> io_error + source"
  ev_write :: "rstr \<Rightarrow> bytes \<Rightarrow> io_error + unit"
  ev_arrow :: arrow_lib
  ev_cast :: "arr \<Rightarrow> data_type \<Rightarrow> arr option"

datatype (plugins only: code size) rpc_error =
    BadOption option_error
  | Worker worker_error
  | Cloud cloud_error
  | SpecMissing
  | ColumnCount nat nat
  | CannotCast nat rstr data_type
  | WriteFailed rstr io_error
  | InputRequired
  | InputColumns nat
  | InputNotUnion data_type
  | InputVariant rstr
  | RecordType data_type

abbreviation option_step :: "option_error + 'a \<Rightarrow> rpc_error + 'a" where
  "option_step \<equiv> map_err BadOption"

abbreviation worker_step :: "worker_error + 'a \<Rightarrow> rpc_error + 'a" where
  "worker_step \<equiv> map_err Worker"

abbreviation cloud_step :: "cloud_error + 'a \<Rightarrow> rpc_error + 'a" where
  "cloud_step \<equiv> map_err Cloud"

abbreviation arrow_step :: "arrow_error + 'a \<Rightarrow> rpc_error + 'a" where
  "arrow_step r \<equiv> map_err (\<lambda>e. Worker (ArrowFailed e)) r"

section \<open>From paths to sources\<close>

definition open_store :: "'store env \<Rightarrow> options \<Rightarrow> url \<Rightarrow> cloud_error + 'store" where
  "open_store env overrides u = build_store (ev_host env) (ev_secrets env) (ev_init env) u overrides"

definition resolve_path :: "'store env \<Rightarrow> options \<Rightarrow> rstr \<Rightarrow> cloud_error + location list" where
  "resolve_path env overrides =
     resolve_locations (ev_urls env) (ev_fs env)
       (list_glob (ev_urls env) (ev_matcher env) (open_store env overrides) (ev_list env))"

definition source_label :: "'store source_ref \<Rightarrow> rstr" where
  "source_label s = (case s of SLocal p \<Rightarrow> p | SRemote store u \<Rightarrow> u_text u)"

definition resolve_sources :: "'store env \<Rightarrow> options \<Rightarrow> location list \<Rightarrow> cloud_error + 'store source_ref list" where
  "resolve_sources env overrides locations =
     rmap (\<lambda>loc. case loc of
         Local p \<Rightarrow> Inr (SLocal p)
       | Remote u \<Rightarrow> rmap_value (\<lambda>store. SRemote store u) (open_store env overrides u)) locations"

text \<open>Sources are opened when the reader reaches them.\<close>

definition opened :: "'store env \<Rightarrow> 'store source_ref list \<Rightarrow> (rstr \<times> (io_error + source)) list" where
  "opened env sources = map (\<lambda>s. (source_label s, ev_open env s)) sources"

definition path_sources :: "'store env \<Rightarrow> arguments \<Rightarrow> rpc_error + (rstr \<times> (io_error + source)) list" where
  "path_sources env args =
     rbind (option_step (paths args 0)) (\<lambda>ps.
     let overrides = cloud_overrides args in
     rbind (cloud_step (rmap (resolve_path env overrides) ps)) (\<lambda>locss.
     rbind (cloud_step (resolve_sources env overrides (concat locss))) (\<lambda>sources.
     Inr (opened env sources))))"

text \<open>Binding checks local paths only.\<close>

definition check_paths :: "'store env \<Rightarrow> arguments \<Rightarrow> rpc_error + unit" where
  "check_paths env args =
     rbind (option_step (paths args 0)) (\<lambda>ps.
     rbind (cloud_step (rmap (\<lambda>p. if is_remote p then Inr [] else resolve_local (ev_fs env) p) ps)) (\<lambda>_.
     Inr ()))"

definition read_secret_lookups :: "'store env \<Rightarrow> arguments \<Rightarrow> secret_lookup list" where
  "read_secret_lookups env args =
     (case paths args 0 of Inr ps \<Rightarrow> secret_lookups (ev_urls env) ps | Inl _ \<Rightarrow> [])"

section \<open>read_fixed\<close>

record scan =
  sc_layout :: layout
  sc_encoding :: encoding
  sc_schema :: "afield list"
  sc_projection :: "nat list"
  sc_config :: read_config

definition read_fixed_bind :: "'store env \<Rightarrow> arguments \<Rightarrow> rpc_error + afield list" where
  "read_fixed_bind env args =
     rbind (option_step (options_layout (ev_serde env) args 1)) (\<lambda>l.
     rbind (check_paths env args) (\<lambda>_.
     arrow_step (layout_fields l)))"

text \<open>\<open>schema\<close> is the output schema, narrowed and reordered when columns are projected.\<close>

definition read_fixed_producer :: "'store env \<Rightarrow> arguments \<Rightarrow> afield list \<Rightarrow> rpc_error + scan" where
  "read_fixed_producer env args schema =
     rbind (option_step (options_layout (ev_serde env) args 1)) (\<lambda>l.
     rbind (option_step (encoding_option args)) (\<lambda>enc.
     rbind (option_step (framing_option args)) (\<lambda>framing.
     let rec_len = record_length args l in
     rbind (option_step (compression_option args)) (\<lambda>codec.
     rbind (option_step (read_limits args)) (\<lambda>lims.
     rbind (worker_step (check_variable_framing l framing)) (\<lambda>_.
     rbind (path_sources env args) (\<lambda>sources.
     rbind (arrow_step (layout_fields l)) (\<lambda>full.
     rbind (worker_step (projection_of (map af_name schema) (map af_name full))) (\<lambda>projection.
     Inr \<lparr> sc_layout = l, sc_encoding = enc, sc_schema = schema, sc_projection = projection,
           sc_config = \<lparr> rc_framing = framing, rc_rec_len = rec_len, rc_compression = codec, rc_limits = lims,
                         rc_codecs = ev_streams env, rc_sources = sources \<rparr> \<rparr>)))))))))"

definition read_fixed_next :: "'store env \<Rightarrow> scan \<Rightarrow> producer \<Rightarrow> (worker_error + arr list option) \<times> producer" where
  "read_fixed_next env sc =
     scan_next (ev_arrow env) (ev_chrono env) (sc_layout sc) (sc_encoding sc) (sc_schema sc) (sc_projection sc) (sc_config sc)"

section \<open>read_multi\<close>

definition options_multi :: "serde \<Rightarrow> arguments \<Rightarrow> nat \<Rightarrow> option_error + multi_layout" where
  "options_multi sd args spec_pos =
     rbind (ok_or (const_str args spec_pos) SpecRequired) (\<lambda>spec. opt (multi_parse sd spec))"

definition read_multi_bind :: "'store env \<Rightarrow> arguments \<Rightarrow> rpc_error + union_fields" where
  "read_multi_bind env args =
     rbind (option_step (options_multi (ev_serde env) args 1)) (\<lambda>m.
     rbind (check_paths env args) (\<lambda>_.
     worker_step (union_fields_of m)))"

record multi_scan =
  ms_layout :: multi_layout
  ms_encoding :: encoding
  ms_fields :: union_fields
  ms_config :: read_config

definition read_multi_producer :: "'store env \<Rightarrow> arguments \<Rightarrow> rpc_error + multi_scan" where
  "read_multi_producer env args =
     rbind (option_step (options_multi (ev_serde env) args 1)) (\<lambda>m.
     rbind (option_step (encoding_option args)) (\<lambda>enc.
     rbind (option_step (framing_option args)) (\<lambda>framing.
     let rec_len = multi_record_length (named_i64 args (lit ''record_length'')) m in
     rbind (option_step (compression_option args)) (\<lambda>codec.
     rbind (option_step (read_limits args)) (\<lambda>lims.
     rbind (worker_step (check_framing m framing)) (\<lambda>_.
     rbind (path_sources env args) (\<lambda>sources.
     rbind (worker_step (union_fields_of m)) (\<lambda>uf.
     Inr \<lparr> ms_layout = m, ms_encoding = enc, ms_fields = uf,
           ms_config = \<lparr> rc_framing = framing, rc_rec_len = rec_len, rc_compression = codec, rc_limits = lims,
                         rc_codecs = ev_streams env, rc_sources = sources \<rparr> \<rparr>))))))))"

definition read_multi_next :: "'store env \<Rightarrow> multi_scan \<Rightarrow> producer \<Rightarrow> (worker_error + union_array option) \<times> producer" where
  "read_multi_next env ms p =
     (case next_batch (multi_row (ev_chrono env) (ms_layout ms) (ms_encoding ms)) (ms_config ms) p of
        (Inl e, p) \<Rightarrow> (Inl e, p)
      | (Inr None, p) \<Rightarrow> (Inr None, p)
      | (Inr (Some rows), p) \<Rightarrow>
          (map_err ArrowFailed (rmap_value Some (build_union_array (ev_arrow env) (ms_fields ms) rows)), p))"

section \<open>Describing a spec\<close>

definition as_i64_cell :: "nat \<Rightarrow> cell option" where
  "as_i64_cell n = Some (CInt (wrap_i64 (int n)))"

definition text_column :: "rstr option list \<Rightarrow> arr" where
  "text_column vs = APrim TUtf8 (map (map_option CText) vs)"

definition describe_columns :: "field_desc list \<Rightarrow> arr list" where
  "describe_columns rows =
     [text_column (map (\<lambda>r. Some (d_path r)) rows),
      APrim (TInt 64) (map (\<lambda>r. as_i64_cell (d_depth r)) rows),
      text_column (map (\<lambda>r. Some (d_kind r)) rows),
      text_column (map (\<lambda>r. Some (d_sql_type r)) rows),
      APrim (TInt 64) (map (\<lambda>r. as_i64_cell (d_offset r)) rows),
      APrim (TInt 64) (map (\<lambda>r. as_i64_cell (d_width r)) rows),
      APrim (TInt 64) (map (\<lambda>r. Option.bind (d_occurs r) as_i64_cell) rows),
      text_column (map d_depending_on rows)]"

definition describe_fixed_producer :: "'store env \<Rightarrow> arguments \<Rightarrow> rpc_error + field_desc list option" where
  "describe_fixed_producer env args =
     rbind (option_step (options_layout (ev_serde env) args 0)) (\<lambda>l. Inr (Some (describe l)))"

definition describe_multi_producer :: "'store env \<Rightarrow> arguments \<Rightarrow> rpc_error + (rstr \<times> field_desc) list option" where
  "describe_multi_producer env args =
     rbind (option_step (options_multi (ev_serde env) args 0)) (\<lambda>m.
     Inr (Some (concat (map (\<lambda>(tag, l). map (\<lambda>fd. (tag, fd)) (describe l)) (m_variants m)))))"

text \<open>The rows are taken by the first call; the second one ends the scan.\<close>

definition describe_next :: "('row list \<Rightarrow> arr list) \<Rightarrow> 'row list option \<Rightarrow> arr list option \<times> 'row list option" where
  "describe_next columns rows = (map_option columns rows, None)"

definition describe_multi_columns :: "(rstr \<times> field_desc) list \<Rightarrow> arr list" where
  "describe_multi_columns rows =
     text_column (map (\<lambda>r. Some (fst r)) rows) # describe_columns (map snd rows)"

section \<open>COPY FROM\<close>

text \<open>\<open>rows.chunks(n)\<close> for a positive \<open>n\<close>\<close>

function row_chunks :: "nat \<Rightarrow> 'a list \<Rightarrow> 'a list list" where
  "row_chunks n xs = (if n = 0 \<or> xs = [] then [] else take n xs # row_chunks n (drop n xs))"
  by pat_completeness auto
termination
  by (relation "measure (\<lambda>(n, xs). length xs)") auto

declare row_chunks.simps [simp del]

definition copy_layout :: "serde \<Rightarrow> arguments \<Rightarrow> rpc_error + layout" where
  "copy_layout sd options =
     rbind (ok_or (named_str options (lit ''spec'')) SpecMissing) (\<lambda>spec.
     option_step (opt (parse_spec sd spec (named_str options (lit ''format'')))))"

text \<open>The rows of the file, with the layout.\<close>

definition copy_from_rows :: "'store env \<Rightarrow> arguments \<Rightarrow> rstr \<Rightarrow> rpc_error + (layout \<times> fval list list)" where
  "copy_from_rows env options path =
     rbind (copy_layout (ev_serde env) options) (\<lambda>l.
     rbind (option_step (encoding_option options)) (\<lambda>enc.
     rbind (option_step (framing_option options)) (\<lambda>framing.
     let rec_len = record_length options l in
     rbind (option_step (compression_option options)) (\<lambda>codec.
     rbind (option_step (read_limits options)) (\<lambda>lims.
     let overrides = cloud_overrides options in
     rbind (cloud_step (resolve_path env overrides path)) (\<lambda>locations.
     rbind (worker_step (check_variable_framing l framing)) (\<lambda>_.
     rbind (cloud_step (resolve_sources env overrides locations)) (\<lambda>sources.
     rbind (worker_step (read_all (ev_chrono env) l enc
         \<lparr> rc_framing = framing, rc_rec_len = rec_len, rc_compression = codec, rc_limits = lims,
           rc_codecs = ev_streams env, rc_sources = opened env sources \<rparr>)) (\<lambda>rows.
     Inr (l, rows))))))))))"

definition copy_column :: "'store env \<Rightarrow> afield list \<Rightarrow> afield list \<Rightarrow> fval list list \<Rightarrow> nat \<Rightarrow> rpc_error + arr" where
  "copy_column env natural expected chunk j =
     (let col = map (\<lambda>r. if j < length r then r ! j else VNull) chunk;
          from = af_type (natural ! j); to = af_type (expected ! j)
      in rbind (arrow_step (build_array (ev_arrow env) from col)) (\<lambda>a.
         if from = to then Inr a
         else ok_or (ev_cast env a to) (CannotCast j (af_name (expected ! j)) to)))"

definition copy_from_read :: "'store env \<Rightarrow> arguments \<Rightarrow> rstr \<Rightarrow> afield list \<Rightarrow> rpc_error + arr list list" where
  "copy_from_read env options path expected =
     rbind (copy_from_rows env options path) (\<lambda>(l, rows).
     rbind (arrow_step (layout_fields l)) (\<lambda>natural.
     if length natural \<noteq> length expected then Inl (ColumnCount (length natural) (length expected))
     else
       rmap (\<lambda>chunk.
         rbind (rmap (copy_column env natural expected chunk) [0..<length expected]) (\<lambda>columns. arrow_step (record_batch (ev_arrow env) expected columns)))
         (row_chunks BATCH_ROWS rows)))"

definition copy_secret_lookups :: "'store env \<Rightarrow> rstr option \<Rightarrow> secret_lookup list" where
  "copy_secret_lookups env file_path =
     (case Option.bind file_path (secret_lookup (ev_urls env)) of Some l \<Rightarrow> [l] | None \<Rightarrow> [])"

end
