(* ===== verification/Sinks.thy ===== *)
theory Sinks
  imports Writer Handlers
begin

text \<open>
  The writing functions of the worker and the scalar functions as handlers of calls
  (\<open>buffering/write_fixed.rs\<close>, \<open>buffering/write_multi.rs\<close>, \<open>copy_to.rs\<close>, \<open>scalar/\<close>): binding,
  buffering a batch, writing the file at the end, and decoding and encoding columns of records.
\<close>

section \<open>Delivering the body\<close>

text \<open>What a sink leaves behind.\<close>

datatype (plugins only: code size) effect = FileWritten rstr bytes | ObjectPut rstr bytes

definition deliver :: "'store env \<Rightarrow> arguments \<Rightarrow> rstr \<Rightarrow> bytes \<Rightarrow> rpc_error + effect" where
  "deliver env args path body =
     rbind (cloud_step (classify (ev_urls env) path)) (\<lambda>loc.
       case loc of
         Local p \<Rightarrow> rbind (map_err (WriteFailed p) (ev_write env p body)) (\<lambda>_. Inr (FileWritten p body))
       | Remote u \<Rightarrow>
           rbind (cloud_step (write_object (ev_host env) (ev_secrets env) (ev_init env) (ev_put env) u (cloud_overrides args) body))
             (\<lambda>_. Inr (ObjectPut (u_text u) body)))"

section \<open>Buffering\<close>

text \<open>
  \<open>process\<close> of the buffering functions: \<open>write_blob\<close> serializes a batch, \<open>push\<close> adds it to the
  storage of the execution. At the end \<open>scan\<close> reads the storage; \<open>append_log\<close> is its contract.
\<close>

definition sink_process ::
  "('batch \<Rightarrow> rpc_error + 'b) \<Rightarrow> ('log \<Rightarrow> 'b \<Rightarrow> 'log) \<Rightarrow> 'log \<Rightarrow> 'batch \<Rightarrow> rpc_error + 'log" where
  "sink_process write_blob push log b = rbind (write_blob b) (\<lambda>blob. Inr (push log blob))"

section \<open>write_fixed\<close>

definition write_secret_lookups :: "'store env \<Rightarrow> arguments \<Rightarrow> secret_lookup list" where
  "write_secret_lookups env args = copy_secret_lookups env (const_str args 1)"

definition write_fixed_bind :: "'store env \<Rightarrow> arguments \<Rightarrow> afield list option \<Rightarrow> rpc_error + afield list" where
  "write_fixed_bind env args input =
     rbind (ok_or input InputRequired) (\<lambda>_.
     rbind (option_step (options_layout (ev_serde env) args 2)) (\<lambda>_.
     Inr [AField (lit ''rows_written'') (TInt 64) False, AField (lit ''bytes_written'') (TInt 64) False]))"

definition summary_batch :: "summary \<Rightarrow> arr list" where
  "summary_batch s = [APrim (TInt 64) [Some (CInt (rows_written s))], APrim (TInt 64) [Some (CInt (bytes_written s))]]"

text \<open>\<open>OneShot\<close>\<close>

definition one_shot_next :: "'a option \<Rightarrow> 'a option \<times> 'a option" where
  "one_shot_next b = (b, None)"

text \<open>The part shared by \<open>write_fixed\<close> and \<open>write_multi\<close>: drain, assemble, compress, deliver.\<close>

definition finish_sink ::
  "'store env \<Rightarrow> arguments \<Rightarrow> rstr \<Rightarrow> framing \<Rightarrow> compression \<Rightarrow> worker_error + bytes list \<Rightarrow> rpc_error + (summary \<times> effect)" where
  "finish_sink env args path framing codec drained =
     rbind (worker_step drained) (\<lambda>recs.
     rbind (worker_step (finish_write (ev_codecs env) framing codec recs)) (\<lambda>s.
     rbind (deliver env args path (file_body s)) (\<lambda>eff.
     Inr (s, eff))))"

definition write_fixed_finalize ::
  "'store env \<Rightarrow> ('b \<Rightarrow> worker_error + batch) \<Rightarrow> arguments \<Rightarrow> nat \<Rightarrow> (int \<Rightarrow> nat \<Rightarrow> (int \<times> 'b) list) \<Rightarrow> (rpc_error + (summary \<times> effect)) option" where
  "write_fixed_finalize env read_blob args fuel scan =
     (case rbind (option_step (options_layout (ev_serde env) args 2)) (\<lambda>l.
           rbind (option_step (encoding_option args)) (\<lambda>enc.
           rbind (option_step (framing_option args)) (\<lambda>framing.
           rbind (option_step (ok_or (const_str args 1) PathRequired)) (\<lambda>path.
           rbind (option_step (write_compression args path)) (\<lambda>codec.
           Inr (l, enc, framing, path, codec)))))) of
        Inl e \<Rightarrow> Some (Inl e)
      | Inr (l, enc, framing, path, codec) \<Rightarrow>
          map_option (finish_sink env args path framing codec)
            (drain_shards scan (\<lambda>blob. rbind (read_blob blob) (encode_batch (ev_chrono env) l enc)) fuel 0 []))"

section \<open>write_multi\<close>

definition write_multi_bind :: "'store env \<Rightarrow> arguments \<Rightarrow> (afield \<times> union_fields option) list option \<Rightarrow> rpc_error + afield list" where
  "write_multi_bind env args input =
     rbind (ok_or input InputRequired) (\<lambda>schema.
     rbind (option_step (options_multi (ev_serde env) args 2)) (\<lambda>m.
     rbind (if length schema \<noteq> 1 then Inl (InputColumns (length schema)) else Inr ()) (\<lambda>_.
     rbind (case hd schema of
              (f, None) \<Rightarrow> Inl (InputNotUnion (af_type f))
            | (f, Some uf) \<Rightarrow>
                (case find (\<lambda>u. variant m (af_name (snd u)) = None) uf of
                   Some u \<Rightarrow> Inl (InputVariant (af_name (snd u)))
                 | None \<Rightarrow> Inr ())) (\<lambda>_.
     Inr [AField (lit ''rows_written'') (TInt 64) False, AField (lit ''bytes_written'') (TInt 64) False]))))"

definition write_multi_finalize ::
  "'store env \<Rightarrow> ('b \<Rightarrow> worker_error + (union_array \<times> nat)) \<Rightarrow> arguments \<Rightarrow> nat \<Rightarrow> (int \<Rightarrow> nat \<Rightarrow> (int \<times> 'b) list)
     \<Rightarrow> (rpc_error + (summary \<times> effect)) option" where
  "write_multi_finalize env read_blob args fuel scan =
     (case rbind (option_step (options_multi (ev_serde env) args 2)) (\<lambda>m.
           rbind (option_step (encoding_option args)) (\<lambda>enc.
           rbind (option_step (framing_option args)) (\<lambda>framing.
           rbind (option_step (ok_or (const_str args 1) PathRequired)) (\<lambda>path.
           rbind (option_step (write_compression args path)) (\<lambda>codec.
           Inr (m, enc, framing, path, codec)))))) of
        Inl e \<Rightarrow> Some (Inl e)
      | Inr (m, enc, framing, path, codec) \<Rightarrow>
          map_option (finish_sink env args path framing codec)
            (drain_shards scan (\<lambda>blob. rbind (read_blob blob) (encode_multi_batch (ev_chrono env) m enc)) fuel 0 []))"

section \<open>COPY TO\<close>

definition copy_to_write ::
  "'store env \<Rightarrow> ('batch \<Rightarrow> rpc_error + 'b) \<Rightarrow> ('log \<Rightarrow> 'b \<Rightarrow> 'log) \<Rightarrow> arguments \<Rightarrow> 'log \<Rightarrow> 'batch \<Rightarrow> rpc_error + 'log" where
  "copy_to_write env write_blob push options log b =
     rbind (copy_layout (ev_serde env) options) (\<lambda>_. sink_process write_blob push log b)"

definition copy_to_close ::
  "'store env \<Rightarrow> ('b \<Rightarrow> worker_error + batch) \<Rightarrow> arguments \<Rightarrow> rstr \<Rightarrow> (int \<Rightarrow> nat \<Rightarrow> (int \<times> 'b) list) \<Rightarrow> rpc_error + (int \<times> effect)" where
  "copy_to_close env read_blob options path scan =
     rbind (copy_layout (ev_serde env) options) (\<lambda>l.
     rbind (option_step (encoding_option options)) (\<lambda>enc.
     rbind (option_step (framing_option options)) (\<lambda>framing.
     rbind (worker_step (copy_shards scan (\<lambda>blob. rbind (read_blob blob) (encode_batch (ev_chrono env) l enc)))) (\<lambda>recs.
     rbind (option_step (write_compression options path)) (\<lambda>codec.
     rbind (finish_sink env options path framing codec (Inr recs)) (\<lambda>(s, eff).
     Inr (rows_written s, eff)))))))"

section \<open>Scalar functions\<close>

text \<open>
  The column of records: texts, blobs, or values of another type, of which only the NULLs matter.
\<close>

datatype (plugins only: code size) record_column =
  TextColumn "rstr option list" | BlobColumn "bytes option list" | OtherColumn data_type "bool list"

text \<open>\<open>record_bytes\<close> of every row that is not NULL\<close>

definition record_bytes :: "record_column \<Rightarrow> rpc_error + bytes option list" where
  "record_bytes col =
     (case col of
        TextColumn vs \<Rightarrow> Inr (map (map_option utf8) vs)
      | BlobColumn vs \<Rightarrow> Inr vs
      | OtherColumn dt nulls \<Rightarrow>
          if list_all id nulls then Inr (map (\<lambda>_. None) nulls) else Inl (RecordType dt))"

definition unpack_bind :: "'store env \<Rightarrow> arguments \<Rightarrow> rpc_error + data_type" where
  "unpack_bind env args =
     rbind (option_step (options_layout (ev_serde env) args 1)) (\<lambda>l. arrow_step (layout_struct_type l))"

definition unpack_process :: "'store env \<Rightarrow> arguments \<Rightarrow> data_type \<Rightarrow> record_column \<Rightarrow> rpc_error + arr" where
  "unpack_process env args struct_ty col =
     rbind (option_step (options_layout (ev_serde env) args 1)) (\<lambda>l.
     rbind (option_step (encoding_at args 2)) (\<lambda>enc.
     rbind (record_bytes col) (\<lambda>recs.
     rbind (worker_step (unpack_rows (ev_chrono env) l enc recs)) (\<lambda>vs.
     arrow_step (build_array (ev_arrow env) struct_ty vs)))))"

definition pack_process :: "'store env \<Rightarrow> arguments \<Rightarrow> arr \<Rightarrow> nat \<Rightarrow> rpc_error + bytes option list" where
  "pack_process env args data nrows =
     rbind (option_step (options_layout (ev_serde env) args 1)) (\<lambda>l.
     rbind (option_step (encoding_at args 2)) (\<lambda>enc.
     worker_step (pack_rows (ev_chrono env) l enc data nrows)))"

definition unpack_multi_bind :: "'store env \<Rightarrow> arguments \<Rightarrow> rpc_error + union_fields" where
  "unpack_multi_bind env args =
     rbind (option_step (options_multi (ev_serde env) args 1)) (\<lambda>m. worker_step (union_fields_of m))"

definition unpack_multi_process :: "'store env \<Rightarrow> arguments \<Rightarrow> record_column \<Rightarrow> rpc_error + union_array" where
  "unpack_multi_process env args col =
     rbind (option_step (options_multi (ev_serde env) args 1)) (\<lambda>m.
     rbind (option_step (encoding_at args 2)) (\<lambda>enc.
     rbind (worker_step (union_fields_of m)) (\<lambda>uf.
     rbind (record_bytes col) (\<lambda>recs.
     rbind (worker_step (unpack_multi_rows (ev_chrono env) m enc recs)) (\<lambda>rows.
     arrow_step (build_union_array (ev_arrow env) uf rows))))))"

section \<open>Facts\<close>

text \<open>The options under which \<open>COPY ... FROM\<close> can read the records that \<open>COPY ... TO\<close> writes.\<close>

definition copy_readable :: "arguments \<Rightarrow> layout \<Rightarrow> rstr \<Rightarrow> source \<Rightarrow> bytes list \<Rightarrow> bool" where
  "copy_readable options l path raw recs \<longleftrightarrow>
     (\<exists>m codec lims. framing_option options = Inr m \<and> compression_option options = Inr codec \<and> read_limits options = Inr lims \<and>
        \<not> (l_variable l \<and> m = Fixed) \<and> 0 < record_length options l \<and> max_decompressed_bytes lims < U64_MAX \<and>
        framing_fits m (record_length options l) recs \<and>
        within_cap m (record_length options l) (max_record_bytes lims) (assemble recs m) \<and>
        length (assemble recs m) \<le> max_decompressed_bytes lims \<and>
        (codec = None \<longrightarrow>
           (case raw of Piece b bs # _ \<Rightarrow> 3 \<le> length bs | _ \<Rightarrow> False) \<and>
           (from_path path = NoCompression \<longrightarrow> detect (assemble recs m) = NoCompression)))"

lemma map_err_Inr [simp]: "map_err f r = Inr x \<longleftrightarrow> r = Inr x"
  by (auto simp: map_err_def split: sum.splits)

lemma map_err_value [simp]: "map_err f (Inr x) = Inr x"
  by simp

lemma rbind_Inr_iff: "rbind r f = Inr y \<longleftrightarrow> (\<exists>x. r = Inr x \<and> f x = Inr y)"
  by (cases r) auto

lemma classify_Local: "classify ul path = Inr (Local p) \<Longrightarrow> p = path"
  by (auto simp: classify_def Let_def rmap_value_def rbind_Inr_iff split: option.splits if_splits)

lemma deliver_file:
  assumes "deliver env args path body = Inr (FileWritten p body')"
  shows "classify (ev_urls env) path = Inr (Local path) \<and> p = path \<and> body' = body"
proof -
  obtain loc where "classify (ev_urls env) path = Inr loc"
    using assms by (auto simp: deliver_def rbind_Inr_iff)
  then show ?thesis
    using assms by (cases loc) (auto simp: deliver_def rbind_Inr_iff dest: classify_Local)
qed

text \<open>The options of a \<open>COPY\<close> are those of a scan, with the spec as a named one.\<close>

definition as_copy_options :: "arguments \<Rightarrow> arguments" where
  "as_copy_options args = args\<lparr> named_str := (named_str args)(lit ''spec'' := const_str args 1) \<rparr>"

lemma as_copy_options_simps:
  "encoding_option (as_copy_options args) = encoding_option args"
  "framing_option (as_copy_options args) = framing_option args"
  "compression_option (as_copy_options args) = compression_option args"
  "read_limits (as_copy_options args) = read_limits args"
  "record_length (as_copy_options args) l = record_length args l"
  "cloud_overrides (as_copy_options args) = cloud_overrides args"
  by (simp_all add: as_copy_options_def encoding_option_def framing_option_def compression_option_def read_limits_def
      record_length_def cloud_overrides_def use_ssl_option_def)

lemma copy_layout_scan:
  "copy_layout sd (as_copy_options args) = Inr l \<longleftrightarrow> options_layout sd args 1 = Inr l"
  by (auto simp: copy_layout_def options_layout_def as_copy_options_def rbind_Inr_iff opt_def)

lemma drained_batches:
  assumes "append_log scan log" "length log \<le> USIZE_MAX" "rmap (\<lambda>(_, blob). read_blob blob) log = Inr bs" "rmap encode bs = Inr recss"
  shows "copy_shards scan (\<lambda>blob. rbind (read_blob blob) encode) = Inr (concat recss)"
proof -
  have "filter (\<lambda>e. - 1 < fst e) log = log"
    using assms(1) by (force simp: append_log_def filter_id_conv)
  then have "scan (- 1) USIZE_MAX = log"
    using append_log_scan [OF assms(1), of "- 1" USIZE_MAX] assms(2) by simp
  moreover have "rmap (\<lambda>(_, blob). rbind (read_blob blob) encode) log = Inr recss"
  proof (rule rmap_eqI)
    show "length recss = length log"
      using rmap_length [OF assms(3)] rmap_length [OF assms(4)] by simp
    fix i
    assume "i < length log"
    then show "(\<lambda>(_, blob). rbind (read_blob blob) encode) (log ! i) = Inr (recss ! i)"
      using rmap_nth [OF assms(3), of i] rmap_nth [OF assms(4), of i] rmap_length [OF assms(3)]
      by (auto simp: case_prod_beta)
  qed
  ultimately show ?thesis
    by (simp add: copy_shards_def)
qed

lemma batches_lengths:
  assumes "rmap (encode_batch c l enc) bs = Inr recss" "rmap (\<lambda>b. rmap (row_pairs b) [0..<bt_rows b]) bs = Inr rowss"
  shows "length (concat recss) = length (concat rowss)"
proof -
  have "map length recss = map length rowss"
  proof (rule nth_equalityI)
    show "length (map length recss) = length (map length rowss)"
      using rmap_length [OF assms(1)] rmap_length [OF assms(2)] by simp
    fix i
    assume "i < length (map length recss)"
    then show "map length recss ! i = map length rowss ! i"
      using rmap_nth [OF assms(1), of i] rmap_nth [OF assms(2), of i] rmap_length [OF assms(1)] rmap_length [OF assms(2)]
      by (auto simp: encode_batch_def dest!: rmap_length)
  qed
  then show ?thesis
    by (simp add: length_concat)
qed

section \<open>A sample call\<close>

definition sample_args :: arguments where
  "sample_args =
     \<lparr> const_str = (\<lambda>pos. if pos = 0 then Some (lit ''a'') else if pos = 1 then Some (lit ''T:A1'') else None),
       arg_at = (\<lambda>_. None), named_str = (\<lambda>_. None), named_i64 = (\<lambda>_. None), named_bool = (\<lambda>_. None) \<rparr>"

definition sample_source :: source where
  "sample_source = [Piece 65 [10, 66, 10]]"

definition sample_env :: "chrono \<Rightarrow> unit env" where
  "sample_env c =
     \<lparr> ev_chrono = c, ev_serde = \<lparr> sd_spec = (\<lambda>_. None), sd_multi = (\<lambda>_. None) \<rparr>,
       ev_codecs = sample_codecs, ev_streams = sample_stream_codecs,
       ev_urls = \<lparr> ul_parse = (\<lambda>_. None), ul_encode = id, ul_decode = id \<rparr>,
       ev_host = \<lparr> he_allow = False, he_resolve = (\<lambda>_. None) \<rparr>,
       ev_secrets = (\<lambda>_ _. None), ev_matcher = (\<lambda>_. None), ev_init = (\<lambda>_ _. Inr ()), ev_list = (\<lambda>_ _. Inr []),
       ev_put = (\<lambda>_ _. Inr ()), ev_fs = \<lparr> fs_glob = (\<lambda>_. None), fs_exists = (\<lambda>p. p = lit ''a'') \<rparr>,
       ev_open = (\<lambda>_. Inr sample_source), ev_write = (\<lambda>_ _. Inr ()), ev_arrow = accepting_arrow, ev_cast = (\<lambda>_ _. None) \<rparr>"

section \<open>Properties\<close>

text \<open>
  C10. \<open>COPY ... FROM\<close> reads a file as \<open>read_fixed\<close> does: when a scan with one path starts, the
  batches of the scan, put together, are the rows that \<open>COPY ... FROM\<close> loads from the same path
  under the same options, and both fail with the same error.
\<close>

theorem copy_reads_like_scan:
  assumes "read_fixed_producer env args schema = Inr sc" "paths args 0 = Inr [path]"
  shows "\<exists>k. \<forall>fuel > k. \<exists>r.
    run_batches (next_batch (decode_row (ev_chrono env) (sc_layout sc) (sc_encoding sc)) (sc_config sc)) fuel start_producer = Some r \<and>
    copy_from_rows env (as_copy_options args) path = rmap_value (Pair (sc_layout sc)) (worker_step r)"
proof -
  obtain l enc m codec lims sources where parts: "options_layout (ev_serde env) args 1 = Inr l"
      "encoding_option args = Inr enc" "framing_option args = Inr m" "compression_option args = Inr codec"
      "read_limits args = Inr lims" "check_variable_framing l m = Inr ()" "path_sources env args = Inr sources"
      "sc_layout sc = l" "sc_encoding sc = enc"
      "sc_config sc = \<lparr> rc_framing = m, rc_rec_len = record_length args l, rc_compression = codec, rc_limits = lims,
        rc_codecs = ev_streams env, rc_sources = sources \<rparr>"
    using assms(1) by (auto simp: read_fixed_producer_def Let_def rbind_Inr_iff)
  obtain locations srcs where srcs: "resolve_path env (cloud_overrides args) path = Inr locations"
      "resolve_sources env (cloud_overrides args) locations = Inr srcs" "sources = opened env srcs"
    using parts(7) assms(2) by (auto simp: path_sources_def Let_def rbind_Inr_iff)
  have rows: "copy_from_rows env (as_copy_options args) path
      = rmap_value (Pair l) (worker_step (read_all (ev_chrono env) l enc (sc_config sc)))"
    using parts srcs copy_layout_scan [of "ev_serde env" args l]
    by (simp add: copy_from_rows_def Let_def as_copy_options_simps rmap_value_def)
  show ?thesis
    using batches_read_sources [of "decode_row (ev_chrono env) l enc" "sc_config sc"] parts(6,8-10) rows
    by (fastforce simp: read_all_def)
qed

theorem copy_reads_like_scan_witness:
  "\<exists>c sc k. read_fixed_producer (sample_env c) sample_args [AField [84] TUtf8 True] = Inr sc \<and>
     (\<forall>fuel > k. run_batches (next_batch (decode_row c (sc_layout sc) (sc_encoding sc)) (sc_config sc)) fuel start_producer
       = Some (Inr [[VText [65]], [VText [66]]]))"
proof -
  fix c
  let ?sc = "\<lparr> sc_layout = sample_text_layout, sc_encoding = Ascii, sc_schema = [AField [84] TUtf8 True], sc_projection = [0],
      sc_config = \<lparr> rc_framing = Newline, rc_rec_len = 1, rc_compression = None, rc_limits = default_limits,
        rc_codecs = sample_stream_codecs, rc_sources = [(lit ''a'', Inr sample_source)] \<rparr> \<rparr>"
  have "options_layout (ev_serde (sample_env c)) sample_args 1 = Inr sample_text_layout" "encoding_option sample_args = Inr Ascii"
      "framing_option sample_args = Inr Newline" "compression_option sample_args = Inr None"
      "read_limits sample_args = Inr default_limits" "record_length sample_args sample_text_layout = 1"
      "check_variable_framing sample_text_layout Newline = Inr ()"
      "path_sources (sample_env c) sample_args = Inr [(lit ''a'', Inr sample_source)]"
      "layout_fields sample_text_layout = Inr [AField [84] TUtf8 True]" "projection_of [[84]] [[84]] = Inr [0]"
    by code_simp+
  then have scan: "read_fixed_producer (sample_env c) sample_args [AField [84] TUtf8 True] = Inr ?sc"
    by (simp add: read_fixed_producer_def) (simp add: sample_env_def)
  have "paths sample_args 0 = Inr [lit ''a'']"
    by code_simp
  from copy_reads_like_scan [OF scan this]
  obtain k where k: "\<forall>fuel > k. \<exists>r.
      run_batches (next_batch (decode_row c sample_text_layout Ascii) (sc_config ?sc)) fuel start_producer = Some r \<and>
      copy_from_rows (sample_env c) (as_copy_options sample_args) (lit ''a'') = rmap_value (Pair sample_text_layout) (worker_step r)"
    by (auto simp: sample_env_def)
  have "copy_from_rows (sample_env c) (as_copy_options sample_args) (lit ''a'') = Inr (sample_text_layout, [[VText [65]], [VText [66]]])"
    by code_simp
  then have "r = Inr [[VText [65]], [VText [66]]]"
    if "copy_from_rows (sample_env c) (as_copy_options sample_args) (lit ''a'') = rmap_value (Pair sample_text_layout) (worker_step r)" for r
    using that by (cases r) (auto simp: map_err_def)
  then show ?thesis
    using k scan by fastforce
qed

text \<open>
  C3. A table that is copied to a file and copied back is the same, under the same options: when
  \<open>COPY ... TO\<close> succeeds on a local path, the rows that \<open>COPY ... FROM\<close> then reads from it are the
  rows of all buffered batches, in order, and \<open>COPY ... TO\<close> reports their number. The codec chosen
  by the extension of the path is the one that is detected from the file.
\<close>

theorem copy_roundtrip:
  assumes "codec_laws (ev_codecs env)" "stream_laws (ev_codecs env) (ev_streams env)"
    "append_log scan log" "length log \<le> USIZE_MAX" "rmap (\<lambda>(_, blob). read_blob blob) log = Inr bs"
    "copy_layout (ev_serde env) options = Inr l" "encoding_option options = Inr enc"
    "rmap (encode_batch (ev_chrono env) l enc) bs = Inr recss"
    "rmap (\<lambda>b. rmap (row_pairs b) [0..<bt_rows b]) bs = Inr rowss"
    "list_all (list_all (conforms_record (ev_chrono env) l)) rowss"
    "copy_to_close env read_blob options path scan = Inr (n, FileWritten path body)"
    "resolve_local (ev_fs env) path = Inr [path]"
    "ev_open env (SLocal path) = Inr raw" "sound raw" "source_data raw = body"
    "copy_readable options l path raw (concat recss)"
  shows "copy_from_rows env options path = Inr (l, map (map snd) (concat rowss)) \<and>
    n = wrap_i64 (int (length (concat rowss)))"
proof -
  obtain m codec lims where opts: "framing_option options = Inr m" "compression_option options = Inr codec" "read_limits options = Inr lims"
    and fits: "\<not> (l_variable l \<and> m = Fixed)" "0 < record_length options l" "max_decompressed_bytes lims < U64_MAX"
      "framing_fits m (record_length options l) (concat recss)"
      "within_cap m (record_length options l) (max_record_bytes lims) (assemble (concat recss) m)"
      "length (assemble (concat recss) m) \<le> max_decompressed_bytes lims"
    and det: "codec = None \<Longrightarrow> (case raw of Piece b bs # _ \<Rightarrow> 3 \<le> length bs | _ \<Rightarrow> False) \<and>
        (from_path path = NoCompression \<longrightarrow> detect (assemble (concat recss) m) = NoCompression)"
    using assms(16) unfolding copy_readable_def by blast
  let ?k = "case codec of Some c \<Rightarrow> c | None \<Rightarrow> from_path path"
  let ?rc = "\<lparr> rc_framing = m, rc_rec_len = record_length options l, rc_compression = codec, rc_limits = lims,
      rc_codecs = ev_streams env, rc_sources = [(path, Inr raw)] \<rparr>"
  have shards: "copy_shards scan (\<lambda>blob. rbind (read_blob blob) (encode_batch (ev_chrono env) l enc)) = Inr (concat recss)"
    using drained_batches [OF assms(3-5,8)] .
  obtain s where s: "finish_write (ev_codecs env) m ?k (concat recss) = Inr s" "file_body s = body" "n = rows_written s"
    and cls: "classify (ev_urls env) path = Inr (Local path)"
    using assms(6,7,11) opts shards
    by (auto simp: copy_to_close_def finish_sink_def write_compression_def rbind_Inr_iff dest!: deliver_file)
  have "holds_records (ev_codecs env) ?rc (path, Inr raw) (concat recss)"
    using fits assms(14,15) s(1,2) det by (auto simp: holds_records_def split: option.splits)
  then have w: "list_all2 (written (ev_chrono env) l enc (ev_codecs env) ?rc) (rc_sources ?rc) [concat rowss]"
    using writtenI [OF assms(8,9)] by simp
  have "read_all (ev_chrono env) l enc ?rc = Inr (map (map snd) (concat rowss))"
    using read_written [OF assms(1) _ _ _ w] assms(2,10) fits
    by (simp add: read_all_def check_variable_framing_def list_all_iff)
  moreover have "resolve_path env (cloud_overrides options) path = Inr [Local path]"
    using cls assms(12) by (simp add: resolve_path_def resolve_locations_def)
  moreover have "n = wrap_i64 (int (length (concat recss)))"
    using s(1,3) by (auto simp: finish_write_def rbind_Inr_iff)
  moreover have "length (concat recss) = length (concat rowss)"
    using batches_lengths [OF assms(8,9)] .
  ultimately show ?thesis
    using assms(6,7,13) opts fits(1)
    by (auto simp: copy_from_rows_def Let_def resolve_sources_def opened_def source_label_def check_variable_framing_def)
qed

theorem copy_roundtrip_witness:
  "\<exists>c. copy_from_rows (sample_env c) (as_copy_options sample_args) (lit ''a'') = Inr (sample_text_layout, [[VText [65]], [VText [66]]])"
proof -
  fix c
  let ?scan = "\<lambda>after_id limit. take limit (filter (\<lambda>e. after_id < fst e) [(1 :: int, sample_batch)])"
  have log: "append_log ?scan [(1, sample_batch)]" "length [(1 :: int, sample_batch)] \<le> USIZE_MAX"
    by (simp_all add: append_log_def USIZE_MAX_def)
  have blobs: "rmap (\<lambda>(_, blob). Inr blob) [(1 :: int, sample_batch)] = Inr [sample_batch]"
    by simp
  have opts: "copy_layout (ev_serde (sample_env c)) (as_copy_options sample_args) = Inr sample_text_layout"
      "encoding_option (as_copy_options sample_args) = Inr Ascii"
    by code_simp+
  have recs: "rmap (encode_batch (ev_chrono (sample_env c)) sample_text_layout Ascii) [sample_batch] = Inr [[[65], [66]]]"
    by code_simp
  have rows: "rmap (\<lambda>b. rmap (row_pairs b) [0..<bt_rows b]) [sample_batch] = Inr [[[([84], VText [65])], [([84], VText [66])]]]"
    by code_simp
  have conf: "list_all (list_all (conforms_record (ev_chrono (sample_env c)) sample_text_layout)) [[[([84], VText [65])], [([84], VText [66])]]]"
    by code_simp
  have close: "copy_to_close (sample_env c) Inr (as_copy_options sample_args) (lit ''a'') ?scan
      = Inr (2, FileWritten (lit ''a'') [65, 10, 66, 10])"
    by code_simp
  have target: "resolve_local (ev_fs (sample_env c)) (lit ''a'') = Inr [lit ''a'']"
      "ev_open (sample_env c) (SLocal (lit ''a'')) = Inr sample_source" "sound sample_source" "source_data sample_source = [65, 10, 66, 10]"
    by code_simp (simp_all add: sample_env_def sample_source_def sound_def)
  have "framing_option (as_copy_options sample_args) = Inr Newline" "compression_option (as_copy_options sample_args) = Inr None"
      "read_limits (as_copy_options sample_args) = Inr default_limits" "record_length (as_copy_options sample_args) sample_text_layout = 1"
    by code_simp+
  moreover have "framing_fits Newline 1 [[65], [66]]"
      "within_cap Newline 1 (max_record_bytes default_limits) (assemble [[65], [66]] Newline)"
      "length (assemble [[65], [66]] Newline) \<le> max_decompressed_bytes default_limits"
      "max_decompressed_bytes default_limits < U64_MAX" "detect (assemble [[65], [66]] Newline) = NoCompression"
    by (simp_all add: framing_fits_def newline_fits_def within_cap_def assemble_def default_limits_def U64_MAX_def detect_def)
  ultimately have "copy_readable (as_copy_options sample_args) sample_text_layout (lit ''a'') sample_source (concat [[[65], [66]]])"
    unfolding copy_readable_def by (intro exI [of _ Newline] exI [of _ None] exI [of _ default_limits]) (simp add: sample_source_def)
  moreover have "codec_laws (ev_codecs (sample_env c))" "stream_laws (ev_codecs (sample_env c)) (ev_streams (sample_env c))"
    by (simp_all add: sample_env_def sample_codecs_laws sample_stream_laws)
  ultimately have "copy_from_rows (sample_env c) (as_copy_options sample_args) (lit ''a'')
      = Inr (sample_text_layout, [[VText [65]], [VText [66]]])"
    using copy_roundtrip [OF _ _ log blobs opts recs rows conf close target] by simp
  then show ?thesis ..
qed

text \<open>
  \<open>write_multi\<close> does not pad the records of shorter record types, which \<open>read_multi\<close> expects under
  \<open>fixed\<close> framing: a file of two record types of different lengths cannot be read back.
\<close>

lemma multi_fixed_not_padded:
  "rmap (encode_multi_row c sample_multi Ascii) [([68], [([98], VInt 7)]), ([72], [([97], VBool True)])] = Inr [[68, 0, 7], [72, 1]] \<and>
   check_framing sample_multi Fixed = Inr () \<and>
   (\<exists>e. streamed [Piece 68 [0, 7, 72, 1]] Fixed (multi_record_length None sample_multi) 512 = Inl e) \<and>
   assemble [[68, 0, 7], [72, 1]] Fixed = [68, 0, 7, 72, 1]"
proof (intro conjI)
  show "rmap (encode_multi_row c sample_multi Ascii) [([68], [([98], VInt 7)]), ([72], [([97], VBool True)])] = Inr [[68, 0, 7], [72, 1]]"
    by code_simp
  show "check_framing sample_multi Fixed = Inr ()"
    by code_simp
  have "streamed [Piece 68 [0, 7, 72, 1]] Fixed (multi_record_length None sample_multi) 512 = Inl (StreamErr (FixedPartial 3 2))"
    by code_simp
  then show "\<exists>e. streamed [Piece 68 [0, 7, 72, 1]] Fixed (multi_record_length None sample_multi) 512 = Inl e"
    by blast
  show "assemble [[68, 0, 7], [72, 1]] Fixed = [68, 0, 7, 72, 1]"
    by code_simp
qed

end
