(* ===== verification/Declared.thy ===== *)
theory Declared
  imports Sinks
begin

text \<open>
  What the functions of the worker declare (\<open>argument_specs\<close> of \<open>table/\<close>, \<open>copy_from.rs\<close>, \<open>copy_to.rs\<close>,
  \<open>buffering/\<close> and \<open>scalar/\<close>, \<open>cloud_arg_specs\<close> and the choices of \<open>options.rs\<close>, and the view
  \<open>spec_reference\<close> of \<open>lib.rs\<close>), against what their handlers read. The binder of the database hands over
  declared arguments only (\<open>bound\<close>), and tells its users the choices and defaults. The texts that
  describe an argument are left out.
\<close>

section \<open>Argument specs\<close>

datatype (plugins only: code size) arg_kind = Column | AnyColumn | ConstArg

record arg_spec =
  as_kind :: arg_kind
  as_name :: rstr
  as_pos :: int
  as_type :: rstr
  as_choices :: "rstr list"
  as_default :: "rstr option"

definition column_arg :: "string \<Rightarrow> int \<Rightarrow> string \<Rightarrow> arg_spec" where
  "column_arg nm pos ty =
     \<lparr> as_kind = Column, as_name = lit nm, as_pos = pos, as_type = lit ty, as_choices = [], as_default = None \<rparr>"

definition any_column_arg :: "string \<Rightarrow> int \<Rightarrow> arg_spec" where
  "any_column_arg nm pos =
     \<lparr> as_kind = AnyColumn, as_name = lit nm, as_pos = pos, as_type = lit ''any'', as_choices = [], as_default = None \<rparr>"

definition const_arg :: "string \<Rightarrow> int \<Rightarrow> string \<Rightarrow> arg_spec" where
  "const_arg nm pos ty =
     \<lparr> as_kind = ConstArg, as_name = lit nm, as_pos = pos, as_type = lit ty, as_choices = [], as_default = None \<rparr>"

definition with_choices :: "arg_spec \<Rightarrow> rstr list \<Rightarrow> arg_spec" where
  "with_choices s cs = s\<lparr> as_choices := cs \<rparr>"

definition with_default :: "arg_spec \<Rightarrow> string \<Rightarrow> arg_spec" where
  "with_default s d = s\<lparr> as_default := Some (lit d) \<rparr>"

section \<open>Choices\<close>

definition FORMAT_CHOICES :: "rstr list" where
  "FORMAT_CHOICES = [lit ''template'', lit ''json'', lit ''copybook'']"

definition ENCODING_CHOICES :: "rstr list" where
  "ENCODING_CHOICES = [lit ''ascii'', lit ''ebcdic'']"

definition FRAMING_CHOICES :: "rstr list" where
  "FRAMING_CHOICES = [lit ''newline'', lit ''fixed'', lit ''rdw'', lit ''rdw_blocked'']"

definition COMPRESSION_CHOICES :: "rstr list" where
  "COMPRESSION_CHOICES = [lit ''auto'', lit ''none'', lit ''gzip'', lit ''zstd'']"

definition URL_STYLE_CHOICES :: "rstr list" where
  "URL_STYLE_CHOICES = [lit ''path'', lit ''vhost'']"

section \<open>The functions\<close>

definition cloud_arg_specs :: "arg_spec list" where
  "cloud_arg_specs =
     [const_arg ''endpoint'' (- 1) ''varchar'',
      const_arg ''region'' (- 1) ''varchar'',
      with_default (with_choices (const_arg ''url_style'' (- 1) ''varchar'') URL_STYLE_CHOICES) ''vhost'',
      const_arg ''use_ssl'' (- 1) ''boolean'']"

definition read_fixed_args :: "arg_spec list" where
  "read_fixed_args =
     [const_arg ''path'' 0 ''any'',
      const_arg ''spec'' 1 ''varchar'',
      with_choices (const_arg ''format'' (- 1) ''varchar'') FORMAT_CHOICES,
      with_default (with_choices (const_arg ''encoding'' (- 1) ''varchar'') ENCODING_CHOICES) ''ascii'',
      with_default (with_choices (const_arg ''framing'' (- 1) ''varchar'') FRAMING_CHOICES) ''newline'',
      const_arg ''record_length'' (- 1) ''int64'',
      with_default (with_choices (const_arg ''compression'' (- 1) ''varchar'') COMPRESSION_CHOICES) ''auto'',
      const_arg ''max_decompressed_bytes'' (- 1) ''int64'']
    @ cloud_arg_specs"

definition read_multi_args :: "arg_spec list" where
  "read_multi_args =
     [const_arg ''path'' 0 ''any'',
      const_arg ''spec'' 1 ''varchar'',
      with_default (with_choices (const_arg ''encoding'' (- 1) ''varchar'') ENCODING_CHOICES) ''ascii'',
      with_default (with_choices (const_arg ''framing'' (- 1) ''varchar'') FRAMING_CHOICES) ''newline'',
      const_arg ''record_length'' (- 1) ''int64'',
      with_default (with_choices (const_arg ''compression'' (- 1) ''varchar'') COMPRESSION_CHOICES) ''auto'',
      const_arg ''max_decompressed_bytes'' (- 1) ''int64'']
    @ cloud_arg_specs"

definition describe_fixed_args :: "arg_spec list" where
  "describe_fixed_args =
     [const_arg ''spec'' 0 ''varchar'',
      with_choices (const_arg ''format'' (- 1) ''varchar'') FORMAT_CHOICES]"

definition describe_multi_args :: "arg_spec list" where
  "describe_multi_args = [const_arg ''spec'' 0 ''varchar'']"

definition copy_from_args :: "arg_spec list" where
  "copy_from_args =
     [column_arg ''spec'' (- 1) ''varchar'',
      with_choices (column_arg ''format'' (- 1) ''varchar'') FORMAT_CHOICES,
      with_default (with_choices (column_arg ''encoding'' (- 1) ''varchar'') ENCODING_CHOICES) ''ascii'',
      with_default (with_choices (column_arg ''framing'' (- 1) ''varchar'') FRAMING_CHOICES) ''newline'',
      column_arg ''record_length'' (- 1) ''int64'',
      with_default (with_choices (column_arg ''compression'' (- 1) ''varchar'') COMPRESSION_CHOICES) ''auto'',
      column_arg ''max_decompressed_bytes'' (- 1) ''int64'',
      column_arg ''endpoint'' (- 1) ''varchar'',
      column_arg ''region'' (- 1) ''varchar'',
      with_default (with_choices (column_arg ''url_style'' (- 1) ''varchar'') URL_STYLE_CHOICES) ''vhost'',
      column_arg ''use_ssl'' (- 1) ''boolean'']"

definition copy_to_args :: "arg_spec list" where
  "copy_to_args =
     [column_arg ''spec'' (- 1) ''varchar'',
      with_choices (column_arg ''format'' (- 1) ''varchar'') FORMAT_CHOICES,
      with_default (with_choices (column_arg ''encoding'' (- 1) ''varchar'') ENCODING_CHOICES) ''ascii'',
      with_default (with_choices (column_arg ''framing'' (- 1) ''varchar'') FRAMING_CHOICES) ''newline'',
      with_default (with_choices (column_arg ''compression'' (- 1) ''varchar'') COMPRESSION_CHOICES) ''auto'',
      column_arg ''endpoint'' (- 1) ''varchar'',
      column_arg ''region'' (- 1) ''varchar'',
      with_default (with_choices (column_arg ''url_style'' (- 1) ''varchar'') URL_STYLE_CHOICES) ''vhost'',
      column_arg ''use_ssl'' (- 1) ''boolean'']"

definition write_fixed_args :: "arg_spec list" where
  "write_fixed_args =
     [column_arg ''data'' 0 ''table'',
      const_arg ''path'' 1 ''varchar'',
      const_arg ''spec'' 2 ''varchar'',
      with_choices (const_arg ''format'' (- 1) ''varchar'') FORMAT_CHOICES,
      with_default (with_choices (const_arg ''encoding'' (- 1) ''varchar'') ENCODING_CHOICES) ''ascii'',
      with_default (with_choices (const_arg ''framing'' (- 1) ''varchar'') FRAMING_CHOICES) ''newline'',
      with_default (with_choices (const_arg ''compression'' (- 1) ''varchar'') COMPRESSION_CHOICES) ''auto'']
    @ cloud_arg_specs"

definition write_multi_args :: "arg_spec list" where
  "write_multi_args =
     [column_arg ''data'' 0 ''table'',
      const_arg ''path'' 1 ''varchar'',
      const_arg ''spec'' 2 ''varchar'',
      with_default (with_choices (const_arg ''encoding'' (- 1) ''varchar'') ENCODING_CHOICES) ''ascii'',
      with_default (with_choices (const_arg ''framing'' (- 1) ''varchar'') FRAMING_CHOICES) ''newline'',
      with_default (with_choices (const_arg ''compression'' (- 1) ''varchar'') COMPRESSION_CHOICES) ''auto'']
    @ cloud_arg_specs"

text \<open>The scalar functions come in two arities, without and with the encoding.\<close>

definition unpack_args :: "bool \<Rightarrow> arg_spec list" where
  "unpack_args with_encoding =
     [any_column_arg ''rec'' 0, const_arg ''spec'' 1 ''varchar'']
    @ (if with_encoding then [const_arg ''encoding'' 2 ''varchar''] else [])"

definition pack_args :: "bool \<Rightarrow> arg_spec list" where
  "pack_args with_encoding =
     [any_column_arg ''data'' 0, const_arg ''spec'' 1 ''varchar'']
    @ (if with_encoding then [const_arg ''encoding'' 2 ''varchar''] else [])"

definition unpack_multi_args :: "bool \<Rightarrow> arg_spec list" where
  "unpack_multi_args with_encoding =
     [any_column_arg ''rec'' 0, const_arg ''spec'' 1 ''varchar'']
    @ (if with_encoding then [const_arg ''encoding'' 2 ''varchar''] else [])"

section \<open>The reference view\<close>

text \<open>The rows of the view: topic, token, and the type a kind of field maps to.\<close>

definition SPEC_REFERENCE :: "(rstr \<times> rstr \<times> rstr) list" where
  "SPEC_REFERENCE =
     [(lit ''spec_format'', lit ''template'', []),
      (lit ''spec_format'', lit ''json'', []),
      (lit ''spec_format'', lit ''copybook'', []),
      (lit ''encoding'', lit ''ascii'', []),
      (lit ''encoding'', lit ''ebcdic'', []),
      (lit ''framing'', lit ''newline'', []),
      (lit ''framing'', lit ''fixed'', []),
      (lit ''framing'', lit ''rdw'', []),
      (lit ''framing'', lit ''rdw_blocked'', []),
      (lit ''compression'', lit ''auto'', []),
      (lit ''compression'', lit ''none'', []),
      (lit ''compression'', lit ''gzip'', []),
      (lit ''compression'', lit ''zstd'', []),
      (lit ''field_kind'', lit ''text / hex'', lit ''VARCHAR''),
      (lit ''field_kind'', lit ''integer'', lit ''BIGINT''),
      (lit ''field_kind'', lit ''float / double'', lit ''DOUBLE''),
      (lit ''field_kind'', lit ''packed / zoned / implied-point'', lit ''DECIMAL(p,s)''),
      (lit ''field_kind'', lit ''boolean'', lit ''BOOLEAN''),
      (lit ''field_kind'', lit ''occurs / repeat'', lit ''LIST''),
      (lit ''field_kind'', lit ''group / redefines'', lit ''STRUCT'')]"

text \<open>\<open>SELECT token FROM spec_reference WHERE topic = ...\<close>\<close>

definition reference_tokens :: "string \<Rightarrow> rstr list" where
  "reference_tokens topic = map (\<lambda>(_, t, _). t) (filter (\<lambda>(tp, _). tp = lit topic) SPEC_REFERENCE)"

section \<open>What the binder hands over\<close>

definition named_in :: "arg_spec list \<Rightarrow> rstr \<Rightarrow> bool" where
  "named_in specs k = list_ex (\<lambda>s. as_name s = k \<and> as_pos s = - 1) specs"

definition positional_in :: "arg_spec list \<Rightarrow> nat \<Rightarrow> bool" where
  "positional_in specs i = list_ex (\<lambda>s. as_pos s = int i) specs"

text \<open>The arguments of a call without those that the function does not declare.\<close>

definition bound :: "arg_spec list \<Rightarrow> arguments \<Rightarrow> arguments" where
  "bound specs args =
     \<lparr> const_str = (\<lambda>i. if positional_in specs i then const_str args i else None),
       arg_at = (\<lambda>i. if positional_in specs i then arg_at args i else None),
       named_str = (\<lambda>k. if named_in specs k then named_str args k else None),
       named_i64 = (\<lambda>k. if named_in specs k then named_i64 args k else None),
       named_bool = (\<lambda>k. if named_in specs k then named_bool args k else None) \<rparr>"

text \<open>The alias of the encoding that no function declares.\<close>

definition without_codepage :: "arguments \<Rightarrow> arguments" where
  "without_codepage args = args\<lparr> named_str := (named_str args)(lit ''codepage'' := None) \<rparr>"

definition default_of :: "arg_spec list \<Rightarrow> rstr \<Rightarrow> rstr option" where
  "default_of specs k = Option.bind (find (\<lambda>s. as_name s = k \<and> as_pos s = - 1) specs) as_default"

text \<open>The call with every declared default spelled out.\<close>

definition defaulted :: "arg_spec list \<Rightarrow> arguments \<Rightarrow> arguments" where
  "defaulted specs args = args\<lparr> named_str := (\<lambda>k. or_else (named_str args k) (default_of specs k)) \<rparr>"


section \<open>Declared options\<close>

lemma defaults_parse: "encoding_parse (lit ''ascii'') = Inr Ascii" "framing_parse (lit ''newline'') = Inr Newline"
  by code_simp+

lemma auto_is: "eq_ignore_ascii_case (trim (lit ''auto'')) (lit ''auto'')"
  by code_simp

lemma vhost_is_not_path: "\<not> eq_ignore_ascii_case (lit ''vhost'') (lit ''path'')"
  by code_simp

lemma bound_spec: "positional_in specs i \<Longrightarrow> const_str (bound specs args) i = const_str args i"
  by (simp add: bound_def)

lemma bound_layout:
  "positional_in specs i \<Longrightarrow> named_in specs (lit ''format'') \<Longrightarrow> options_layout sd (bound specs args) i = options_layout sd args i"
  by (simp add: options_layout_def bound_def)

lemma bound_multi: "positional_in specs i \<Longrightarrow> options_multi sd (bound specs args) i = options_multi sd args i"
  by (simp add: options_multi_def bound_def)

lemma bound_paths: "positional_in specs i \<Longrightarrow> paths (bound specs args) i = paths args i"
  by (simp add: paths_def bound_def split: option.split)

lemma bound_encoding_at: "positional_in specs i \<Longrightarrow> encoding_at (bound specs args) i = encoding_at args i"
  by (simp add: encoding_at_def bound_def)

lemma defaulted_reads:
  "const_str (defaulted specs args) = const_str args"
  "named_i64 (defaulted specs args) = named_i64 args"
  "read_limits (defaulted specs args) = read_limits args"
  "record_length (defaulted specs args) l = record_length args l"
  "options_multi sd (defaulted specs args) i = options_multi sd args i"
  by (simp_all add: defaulted_def read_limits_def record_length_def options_multi_def)

lemma defaulted_paths: "paths (defaulted specs args) i = paths args i"
  by (simp add: defaulted_def paths_def split: option.split)

text \<open>What the handlers of scans and sinks rely on in the declaration of their function.\<close>

locale declared_options =
  fixes specs :: "arg_spec list"
  assumes encoding_in: "named_in specs (lit ''encoding'')"
    and framing_in: "named_in specs (lit ''framing'')"
    and compression_in: "named_in specs (lit ''compression'')"
    and endpoint_in: "named_in specs (lit ''endpoint'')"
    and region_in: "named_in specs (lit ''region'')"
    and url_style_in: "named_in specs (lit ''url_style'')"
    and use_ssl_in: "named_in specs (lit ''use_ssl'')"
    and codepage_out: "\<not> named_in specs (lit ''codepage'')"
    and encoding_default: "default_of specs (lit ''encoding'') = Some (lit ''ascii'')"
    and framing_default: "default_of specs (lit ''framing'') = Some (lit ''newline'')"
    and compression_default: "default_of specs (lit ''compression'') = Some (lit ''auto'')"
    and url_style_default: "default_of specs (lit ''url_style'') = Some (lit ''vhost'')"
    and no_default: "default_of specs (lit ''endpoint'') = None" "default_of specs (lit ''region'') = None"
      "default_of specs (lit ''use_ssl'') = None" "default_of specs (lit ''format'') = None"
      "default_of specs (lit ''spec'') = None"
begin

lemma encoding_bound: "encoding_option (bound specs args) = encoding_option (without_codepage args)"
  using encoding_in codepage_out by (simp add: encoding_option_def bound_def without_codepage_def)

lemma framing_bound: "framing_option (bound specs args) = framing_option args"
  using framing_in by (simp add: framing_option_def bound_def)

lemma compression_bound: "compression_option (bound specs args) = compression_option args"
  using compression_in by (simp add: compression_option_def bound_def)

lemma write_compression_bound: "write_compression (bound specs args) path = write_compression args path"
  by (simp add: write_compression_def compression_bound)

lemma cloud_bound: "cloud_overrides (bound specs args) = cloud_overrides args"
  using endpoint_in region_in url_style_in use_ssl_in by (simp add: cloud_overrides_def use_ssl_option_def bound_def)

lemma deliver_bound: "deliver env (bound specs args) = deliver env args"
  unfolding deliver_def cloud_bound ..

lemma finish_bound: "finish_sink env (bound specs args) = finish_sink env args"
  unfolding finish_sink_def deliver_bound ..

lemma encoding_default_is: "encoding_option (defaulted specs (bound specs args)) = encoding_option (bound specs args)"
  using encoding_default codepage_out defaults_parse
  by (simp add: encoding_option_def defaulted_def bound_def or_else_def opt_def split: option.split)

lemma framing_default_is: "framing_option (defaulted specs args) = framing_option args"
  using framing_default defaults_parse
  by (simp add: framing_option_def defaulted_def or_else_def opt_def split: option.split)

lemma compression_default_is: "compression_option (defaulted specs args) = compression_option args"
  using compression_default auto_is
  by (simp add: compression_option_def defaulted_def or_else_def split: option.split)

lemma undefaulted: "default_of specs k = None \<Longrightarrow> named_str (defaulted specs args) k = named_str args k"
  by (simp add: defaulted_def or_else_def split: option.split)

lemma url_style_default_is:
  "(case named_str (defaulted specs args) (lit ''url_style'') of
      Some s \<Rightarrow> if eq_ignore_ascii_case s (lit ''path'') then Some (lit ''false'') else None
    | None \<Rightarrow> None)
   = (case named_str args (lit ''url_style'') of
      Some s \<Rightarrow> if eq_ignore_ascii_case s (lit ''path'') then Some (lit ''false'') else None
    | None \<Rightarrow> None)"
  using url_style_default vhost_is_not_path by (simp add: defaulted_def or_else_def split: option.split)

lemma use_ssl_default_is: "use_ssl_option (defaulted specs args) = use_ssl_option args"
  unfolding use_ssl_option_def undefaulted [OF no_default(3)] by (simp add: defaulted_def)

lemma layout_default_is: "options_layout sd (defaulted specs args) i = options_layout sd args i"
  unfolding options_layout_def undefaulted [OF no_default(4)] by (simp add: defaulted_def)

lemma copy_layout_default_is: "copy_layout sd (defaulted specs args) = copy_layout sd args"
  unfolding copy_layout_def undefaulted [OF no_default(4)] undefaulted [OF no_default(5)] ..

lemma cloud_default_is: "cloud_overrides (defaulted specs args) = cloud_overrides args"
  unfolding cloud_overrides_def use_ssl_default_is undefaulted [OF no_default(1)] undefaulted [OF no_default(2)] url_style_default_is ..

lemma write_compression_default_is: "write_compression (defaulted specs args) p = write_compression args p"
  unfolding write_compression_def compression_default_is ..

lemma finish_default_is: "finish_sink env (defaulted specs args) = finish_sink env args"
  unfolding finish_sink_def deliver_def cloud_default_is ..

lemma path_sources_default_is: "path_sources env (defaulted specs args) = path_sources env args"
  unfolding path_sources_def cloud_default_is defaulted_paths ..

lemmas defaults_are = layout_default_is copy_layout_default_is encoding_default_is framing_default_is compression_default_is
  cloud_default_is write_compression_default_is finish_default_is path_sources_default_is defaulted_paths defaulted_reads

end

text \<open>The scans also take the length of records and the limit of decompression.\<close>

locale declared_scan = declared_options +
  assumes record_length_in: "named_in specs (lit ''record_length'')"
    and limit_in: "named_in specs (lit ''max_decompressed_bytes'')"
begin

lemma record_length_bound: "record_length (bound specs args) l = record_length args l"
  using record_length_in by (simp add: record_length_def bound_def)

lemma length_option_bound: "named_i64 (bound specs args) (lit ''record_length'') = named_i64 args (lit ''record_length'')"
  using record_length_in by (simp add: bound_def)

lemma limits_bound: "read_limits (bound specs args) = read_limits args"
  using limit_in by (simp add: read_limits_def bound_def)

lemma path_sources_bound: "positional_in specs 0 \<Longrightarrow> path_sources env (bound specs args) = path_sources env args"
  by (simp add: path_sources_def bound_paths cloud_bound)

end

interpretation read_fixed: declared_scan read_fixed_args
  by unfold_locales code_simp+

interpretation read_multi: declared_scan read_multi_args
  by unfold_locales code_simp+

interpretation copy_from: declared_scan copy_from_args
  by unfold_locales code_simp+

interpretation copy_to: declared_options copy_to_args
  by unfold_locales code_simp+

interpretation write_fixed: declared_options write_fixed_args
  by unfold_locales code_simp+

interpretation write_multi: declared_options write_multi_args
  by unfold_locales code_simp+

section \<open>The handlers read what is declared\<close>

lemma codepage_is_not: "named_str (without_codepage args) (lit ''spec'') = named_str args (lit ''spec'')"
    "named_str (without_codepage args) (lit ''format'') = named_str args (lit ''format'')"
    "named_i64 (without_codepage args) = named_i64 args"
  by (simp_all add: without_codepage_def)

lemma codepage_unread:
  "options_layout sd (without_codepage args) i = options_layout sd args i"
  "options_multi sd (without_codepage args) i = options_multi sd args i"
  "framing_option (without_codepage args) = framing_option args"
  "compression_option (without_codepage args) = compression_option args"
  "write_compression (without_codepage args) p = write_compression args p"
  "read_limits (without_codepage args) = read_limits args"
  "record_length (without_codepage args) l = record_length args l"
  "cloud_overrides (without_codepage args) = cloud_overrides args"
  "const_str (without_codepage args) = const_str args"
  by (simp_all add: without_codepage_def options_layout_def options_multi_def framing_option_def compression_option_def
      write_compression_def read_limits_def record_length_def cloud_overrides_def use_ssl_option_def)

lemma codepage_unread_paths: "paths (without_codepage args) i = paths args i"
  by (simp add: without_codepage_def paths_def split: option.split)

lemma codepage_unread_steps:
  "path_sources env (without_codepage args) = path_sources env args"
  "finish_sink env (without_codepage args) = finish_sink env args"
  "copy_layout sd (without_codepage args) = copy_layout sd args"
  unfolding path_sources_def finish_sink_def deliver_def copy_layout_def codepage_unread codepage_unread_paths codepage_is_not by (rule refl)+

lemma scan_positions: "positional_in read_fixed_args 0" "positional_in read_fixed_args 1"
    "positional_in read_multi_args 0" "positional_in read_multi_args 1"
    "positional_in describe_fixed_args 0" "positional_in describe_multi_args 0"
  by code_simp+

lemma sink_positions: "positional_in write_fixed_args 1" "positional_in write_fixed_args 2"
    "positional_in write_multi_args 1" "positional_in write_multi_args 2"
  by code_simp+

lemma scalar_positions: "positional_in (unpack_args True) 1" "positional_in (unpack_args True) 2"
    "positional_in (pack_args True) 1" "positional_in (pack_args True) 2"
    "positional_in (unpack_multi_args True) 1" "positional_in (unpack_multi_args True) 2"
  by code_simp+

lemma format_declared: "named_in read_fixed_args (lit ''format'')" "named_in describe_fixed_args (lit ''format'')"
    "named_in write_fixed_args (lit ''format'')" "named_in copy_from_args (lit ''format'')" "named_in copy_to_args (lit ''format'')"
    "named_in copy_from_args (lit ''spec'')" "named_in copy_to_args (lit ''spec'')"
  by code_simp+

lemma read_fixed_bound:
  "read_fixed_bind env (bound read_fixed_args args) = read_fixed_bind env args"
  "read_secret_lookups env (bound read_fixed_args args) = read_secret_lookups env args"
  "read_fixed_producer env (bound read_fixed_args args) schema = read_fixed_producer env (without_codepage args) schema"
  unfolding read_fixed_bind_def check_paths_def read_secret_lookups_def read_fixed_producer_def
    bound_layout [OF scan_positions(2) format_declared(1)] bound_paths [OF scan_positions(1)]
    read_fixed.encoding_bound read_fixed.framing_bound read_fixed.compression_bound read_fixed.limits_bound
    read_fixed.record_length_bound read_fixed.path_sources_bound [OF scan_positions(1)]
    codepage_unread codepage_unread_steps by (rule refl)+

lemma read_multi_bound:
  "read_multi_bind env (bound read_multi_args args) = read_multi_bind env args"
  "read_secret_lookups env (bound read_multi_args args) = read_secret_lookups env args"
  "read_multi_producer env (bound read_multi_args args) = read_multi_producer env (without_codepage args)"
  unfolding read_multi_bind_def check_paths_def read_secret_lookups_def read_multi_producer_def
    bound_multi [OF scan_positions(4)] bound_paths [OF scan_positions(3)]
    read_multi.encoding_bound read_multi.framing_bound read_multi.compression_bound read_multi.limits_bound
    read_multi.length_option_bound read_multi.path_sources_bound [OF scan_positions(3)]
    codepage_unread codepage_unread_steps codepage_is_not by (rule refl)+

lemma describe_bound:
  "describe_fixed_producer env (bound describe_fixed_args args) = describe_fixed_producer env args"
  "describe_multi_producer env (bound describe_multi_args args) = describe_multi_producer env args"
  unfolding describe_fixed_producer_def describe_multi_producer_def
    bound_layout [OF scan_positions(5) format_declared(2)] bound_multi [OF scan_positions(6)] by (rule refl)+

lemma copy_layout_bound:
  assumes "named_in specs (lit ''spec'')" "named_in specs (lit ''format'')"
  shows "copy_layout sd (bound specs args) = copy_layout sd args"
  using assms by (simp add: copy_layout_def bound_def)

lemma copy_from_bound:
  "copy_from_read env (bound copy_from_args args) path expected = copy_from_read env (without_codepage args) path expected"
  unfolding copy_from_read_def copy_from_rows_def Let_def copy_layout_bound [OF format_declared(6) format_declared(4)]
    copy_from.encoding_bound copy_from.framing_bound copy_from.compression_bound copy_from.limits_bound
    copy_from.record_length_bound copy_from.cloud_bound codepage_unread codepage_unread_steps ..

lemma copy_to_bound:
  "copy_to_write env write_blob push (bound copy_to_args args) = copy_to_write env write_blob push args"
  "copy_to_close env read_blob (bound copy_to_args args) path scan = copy_to_close env read_blob (without_codepage args) path scan"
  unfolding copy_to_write_def copy_to_close_def copy_layout_bound [OF format_declared(7) format_declared(5)]
    copy_to.encoding_bound copy_to.framing_bound copy_to.write_compression_bound copy_to.finish_bound
    codepage_unread codepage_unread_steps by (rule refl)+

lemma write_fixed_bound:
  "write_fixed_bind env (bound write_fixed_args args) = write_fixed_bind env args"
  "write_secret_lookups env (bound write_fixed_args args) = write_secret_lookups env args"
  "write_fixed_finalize env read_blob (bound write_fixed_args args) fuel scan
   = write_fixed_finalize env read_blob (without_codepage args) fuel scan"
  unfolding write_fixed_bind_def write_secret_lookups_def write_fixed_finalize_def
    bound_layout [OF sink_positions(2) format_declared(3)] bound_spec [OF sink_positions(1)]
    write_fixed.encoding_bound write_fixed.framing_bound write_fixed.write_compression_bound write_fixed.finish_bound
    codepage_unread codepage_unread_steps by (rule refl)+

lemma write_multi_bound:
  "write_multi_bind env (bound write_multi_args args) = write_multi_bind env args"
  "write_secret_lookups env (bound write_multi_args args) = write_secret_lookups env args"
  "write_multi_finalize env read_union (bound write_multi_args args) fuel scan
   = write_multi_finalize env read_union (without_codepage args) fuel scan"
  unfolding write_multi_bind_def write_secret_lookups_def write_multi_finalize_def
    bound_multi [OF sink_positions(4)] bound_spec [OF sink_positions(3)]
    write_multi.encoding_bound write_multi.framing_bound write_multi.write_compression_bound write_multi.finish_bound
    codepage_unread codepage_unread_steps by (rule refl)+

text \<open>The scalar functions declare positional arguments only: the format cannot be given.\<close>

definition without_format :: "arguments \<Rightarrow> arguments" where
  "without_format args = args\<lparr> named_str := (named_str args)(lit ''format'' := None) \<rparr>"

lemma scalar_layout:
  "positional_in specs 1 \<Longrightarrow> \<not> named_in specs (lit ''format'') \<Longrightarrow>
   options_layout sd (bound specs args) 1 = options_layout sd (without_format args) 1"
  by (simp add: options_layout_def bound_def without_format_def)

lemma without_format_reads: "encoding_at (without_format args) i = encoding_at args i" "options_multi sd (without_format args) i = options_multi sd args i"
  by (simp_all add: encoding_at_def options_multi_def without_format_def)

lemma scalar_no_format: "\<not> named_in (unpack_args True) (lit ''format'')" "\<not> named_in (pack_args True) (lit ''format'')"
  by code_simp+

lemma scalars_bound:
  "unpack_bind env (bound (unpack_args True) args) = unpack_bind env (without_format args)"
  "unpack_multi_bind env (bound (unpack_multi_args True) args) = unpack_multi_bind env args"
  "unpack_process env (bound (unpack_args True) args) = unpack_process env (without_format args)"
  "pack_process env (bound (pack_args True) args) = pack_process env (without_format args)"
  "unpack_multi_process env (bound (unpack_multi_args True) args) = unpack_multi_process env args"
  unfolding unpack_bind_def unpack_multi_bind_def unpack_process_def pack_process_def unpack_multi_process_def
    scalar_layout [OF scalar_positions(1) scalar_no_format(1)] scalar_layout [OF scalar_positions(3) scalar_no_format(2)]
    bound_multi [OF scalar_positions(5)] bound_encoding_at [OF scalar_positions(2)] bound_encoding_at [OF scalar_positions(4)]
    bound_encoding_at [OF scalar_positions(6)] without_format_reads by (rule refl)+

section \<open>Properties\<close>

text \<open>
  C12. Every argument that a handler reads is declared by its function: the handlers of the scans,
  the sinks, \<open>COPY\<close> and the description functions work on what the binder hands over as on the full
  arguments of the call. Lost are the names \<open>codepage\<close>, which the scans, the sinks and \<open>COPY\<close> read as a
  synonym of \<open>encoding\<close>, and \<open>format\<close> of \<open>unpack\<close> and \<open>pack\<close>, which read it as the other functions do but
  declare positional arguments only; nothing else is.
\<close>

theorem declared_arguments_suffice:
  "read_fixed_bind env (bound read_fixed_args args) = read_fixed_bind env args
   \<and> read_fixed_producer env (bound read_fixed_args args) schema = read_fixed_producer env (without_codepage args) schema
   \<and> read_multi_bind env (bound read_multi_args args) = read_multi_bind env args
   \<and> read_multi_producer env (bound read_multi_args args) = read_multi_producer env (without_codepage args)
   \<and> describe_fixed_producer env (bound describe_fixed_args args) = describe_fixed_producer env args
   \<and> describe_multi_producer env (bound describe_multi_args args) = describe_multi_producer env args
   \<and> copy_from_read env (bound copy_from_args args) path expected = copy_from_read env (without_codepage args) path expected
   \<and> copy_to_close env read_blob (bound copy_to_args args) path scan = copy_to_close env read_blob (without_codepage args) path scan
   \<and> write_fixed_finalize env read_blob (bound write_fixed_args args) fuel scan
     = write_fixed_finalize env read_blob (without_codepage args) fuel scan
   \<and> write_multi_finalize env read_union (bound write_multi_args args) fuel scan
     = write_multi_finalize env read_union (without_codepage args) fuel scan
   \<and> unpack_bind env (bound (unpack_args True) args) = unpack_bind env (without_format args)
   \<and> unpack_multi_bind env (bound (unpack_multi_args True) args) = unpack_multi_bind env args
   \<and> unpack_process env (bound (unpack_args True) args) = unpack_process env (without_format args)
   \<and> pack_process env (bound (pack_args True) args) = pack_process env (without_format args)
   \<and> unpack_multi_process env (bound (unpack_multi_args True) args) = unpack_multi_process env args"
  by (intro conjI read_fixed_bound read_multi_bound describe_bound copy_from_bound copy_to_bound write_fixed_bound
      write_multi_bound scalars_bound)

text \<open>A format given to \<open>unpack\<close> or \<open>pack\<close> does not arrive: the result is the one without it.\<close>

theorem scalar_format_lost:
  "unpack_process env (bound (unpack_args True) (args\<lparr> named_str := (named_str args)(lit ''format'' := Some fmt) \<rparr>))
     = unpack_process env (bound (unpack_args True) args)
   \<and> pack_process env (bound (pack_args True) (args\<lparr> named_str := (named_str args)(lit ''format'' := Some fmt) \<rparr>))
     = pack_process env (bound (pack_args True) args)"
  by (simp add: scalars_bound without_format_def)

text \<open>
  C22. The declared defaults are what the handlers do without the option: spelling out every default
  that a call leaves out changes nothing, for the scans, the sinks and \<open>COPY\<close>.
\<close>

theorem defaults_are_absence:
  "read_fixed_producer env (defaulted read_fixed_args (bound read_fixed_args args)) schema
     = read_fixed_producer env (bound read_fixed_args args) schema
   \<and> read_multi_producer env (defaulted read_multi_args (bound read_multi_args args))
     = read_multi_producer env (bound read_multi_args args)
   \<and> copy_from_read env (defaulted copy_from_args (bound copy_from_args args)) path expected
     = copy_from_read env (bound copy_from_args args) path expected
   \<and> copy_to_close env read_blob (defaulted copy_to_args (bound copy_to_args args)) path scan
     = copy_to_close env read_blob (bound copy_to_args args) path scan
   \<and> write_fixed_finalize env read_blob (defaulted write_fixed_args (bound write_fixed_args args)) fuel scan
     = write_fixed_finalize env read_blob (bound write_fixed_args args) fuel scan
   \<and> write_multi_finalize env read_union (defaulted write_multi_args (bound write_multi_args args)) fuel scan
     = write_multi_finalize env read_union (bound write_multi_args args) fuel scan"
  unfolding read_fixed_producer_def read_multi_producer_def copy_from_read_def copy_from_rows_def copy_to_close_def
    write_fixed_finalize_def write_multi_finalize_def Let_def read_fixed.defaults_are read_multi.defaults_are
    copy_from.defaults_are copy_to.defaults_are write_fixed.defaults_are write_multi.defaults_are
  by (intro conjI refl)

lemma reference_lists:
  "reference_tokens ''spec_format'' = FORMAT_CHOICES" "reference_tokens ''encoding'' = ENCODING_CHOICES"
  "reference_tokens ''framing'' = FRAMING_CHOICES" "reference_tokens ''compression'' = COMPRESSION_CHOICES"
  by code_simp+

lemma parsed_choices:
  "map encoding_parse ENCODING_CHOICES = [Inr Ascii, Inr Ebcdic]"
  "map framing_parse FRAMING_CHOICES = [Inr Newline, Inr Fixed, Inr Rdw, Inr RdwBlocked]"
  by code_simp+

lemma format_choices:
  "map to_ascii_lowercase FORMAT_CHOICES = FORMAT_CHOICES"
  "lit ''json'' \<noteq> (lit ''template'' :: rstr)" "lit ''copybook'' \<noteq> (lit ''template'' :: rstr)" "lit ''copybook'' \<noteq> (lit ''json'' :: rstr)"
  by code_simp+

lemma format_fronts:
  "map (\<lambda>t. parse_spec sd spec (Some t)) FORMAT_CHOICES = [template_parse spec, json_parse (sd_spec sd) spec, copybook_parse spec]"
  using format_choices by (simp add: parse_spec_def FORMAT_CHOICES_def)

definition compression_of :: "rstr \<Rightarrow> option_error + compression option" where
  "compression_of s =
     (if eq_ignore_ascii_case (trim s) (lit ''auto'') then Inr None else rmap_value Some (opt (compression_parse s)))"

lemma compression_of_option:
  "compression_option (args\<lparr> named_str := f(lit ''compression'' := Some t) \<rparr>) = compression_of t"
  by (simp add: compression_option_def compression_of_def)

lemma compression_choices: "map compression_of COMPRESSION_CHOICES = [Inr None, Inr (Some NoCompression), Inr (Some Gzip), Inr (Some Zstd)]"
  by code_simp

lemma url_styles: "eq_ignore_ascii_case (lit ''path'') (lit ''path'')" "\<not> eq_ignore_ascii_case (lit ''vhost'') (lit ''path'')"
  by code_simp+

text \<open>
  C23. The vocabulary is the language: the tokens of the reference view and the choices of the
  arguments are the same, every one of them is accepted, and each means the mode, the codec or
  the front end that it names.
\<close>

theorem vocabulary_is_accepted:
  "reference_tokens ''spec_format'' = FORMAT_CHOICES
   \<and> reference_tokens ''encoding'' = ENCODING_CHOICES
   \<and> reference_tokens ''framing'' = FRAMING_CHOICES
   \<and> reference_tokens ''compression'' = COMPRESSION_CHOICES
   \<and> map (\<lambda>t. parse_spec sd spec (Some t)) FORMAT_CHOICES = [template_parse spec, json_parse (sd_spec sd) spec, copybook_parse spec]
   \<and> map encoding_parse ENCODING_CHOICES = [Inr Ascii, Inr Ebcdic]
   \<and> map framing_parse FRAMING_CHOICES = [Inr Newline, Inr Fixed, Inr Rdw, Inr RdwBlocked]
   \<and> map (\<lambda>t. compression_option (args\<lparr> named_str := (named_str args)(lit ''compression'' := Some t) \<rparr>)) COMPRESSION_CHOICES
     = [Inr None, Inr (Some NoCompression), Inr (Some Gzip), Inr (Some Zstd)]
   \<and> map (\<lambda>t. effective (cloud_overrides (args\<lparr> named_str := (named_str args)(lit ''url_style'' := Some t) \<rparr>))
       (lit ''aws_virtual_hosted_style_request'')) URL_STYLE_CHOICES = [Some (lit ''false''), None]"
  unfolding compression_of_option
  by (intro conjI reference_lists parsed_choices format_fronts compression_choices)
    (use url_styles in \<open>simp add: URL_STYLE_CHOICES_def cloud_overrides_def Let_def effective_append effective_entry or_else_def\<close>)

lemma ebcdic_parses: "encoding_parse (lit ''ebcdic'') = Inr Ebcdic"
  by code_simp

text \<open>
  The alias \<open>codepage\<close> that \<open>options.rs\<close> reads is declared by no function: a call that names it is
  decoded as ASCII.
\<close>

theorem codepage_is_lost:
  "encoding_option (bound read_fixed_args (args\<lparr> named_str := [lit ''codepage'' \<mapsto> lit ''ebcdic''] \<rparr>)) = Inr Ascii
   \<and> encoding_option (args\<lparr> named_str := [lit ''codepage'' \<mapsto> lit ''ebcdic''] \<rparr>) = Inr Ebcdic"
  using ebcdic_parses read_fixed.codepage_out by (simp add: encoding_option_def bound_def or_else_def opt_def)

text \<open>The reference view gives \<open>DOUBLE\<close> as the type of every float; a float of 32 bits is a \<open>REAL\<close>.\<close>

theorem reference_float_type:
  "(lit ''field_kind'', lit ''float / double'', lit ''DOUBLE'') \<in> set SPEC_REFERENCE
   \<and> base_sql_type (Field nm off 4 (KFloat 32 e) None None None) = lit ''REAL''"
  by (simp add: SPEC_REFERENCE_def base_sql_type_def)

end
