(* ===== verification/Harness.thy ===== *)
theory Harness
  imports Handlers
begin

text \<open>
  The two harnesses over the production read path: counting the rows and batches of a scan
  (\<open>bench_scan_opts\<close> of \<open>lib.rs\<close>) and the self-test of the browser transport
  (\<open>fixedformat_wasm_selftest_http\<close> of the wasm crate).
\<close>

section \<open>Counting rows and batches\<close>

record bench =
  bn_pending :: "fval list list"
  bn_total :: nat
  bn_batches :: nat

text \<open>One record: a full batch is built and dropped.\<close>

definition bench_push :: "nat \<Rightarrow> (fval list list \<Rightarrow> worker_error + arr list) \<Rightarrow> fval list \<Rightarrow> bench \<Rightarrow> worker_error + bench" where
  "bench_push batch_rows build row b =
     (let pending = bn_pending b @ [row]; b = b\<lparr> bn_pending := pending, bn_total := bn_total b + 1 \<rparr> in
      if length pending = batch_rows then
        rbind (build pending) (\<lambda>_. Inr (b\<lparr> bn_pending := [], bn_batches := bn_batches b + 1 \<rparr>))
      else Inr b)"

function (sequential) bench_source ::
  "nat \<Rightarrow> (fval list list \<Rightarrow> worker_error + arr list) \<Rightarrow> (bytes \<Rightarrow> error + fval list) \<Rightarrow> rstr \<Rightarrow> nat \<Rightarrow> stream_state \<Rightarrow> bench
     \<Rightarrow> worker_error + bench" where
  "bench_source batch_rows build dec label i st b =
     (case stream_next st of
        (None, _) \<Rightarrow> Inr b
      | (Some r, st) \<Rightarrow>
          rbind (map_err (InSource label) r) (\<lambda>rec.
          rbind (map_err (InRecord label (i + 1)) (dec rec)) (\<lambda>row.
          rbind (bench_push batch_rows build row b) (\<lambda>b.
          bench_source batch_rows build dec label (i + 1) st b))))"
  by pat_completeness auto
termination
  by (relation "measure (\<lambda>(_, _, _, _, _, st, _). state_size st)") (auto dest: stream_next_size [OF sym])

declare bench_source.simps [simp del]

fun bench_sources ::
  "nat \<Rightarrow> (fval list list \<Rightarrow> worker_error + arr list) \<Rightarrow> (bytes \<Rightarrow> error + fval list) \<Rightarrow> read_config
     \<Rightarrow> (rstr \<times> (io_error + source)) list \<Rightarrow> bench \<Rightarrow> worker_error + bench" where
  "bench_sources batch_rows build dec rc [] b = Inr b"
| "bench_sources batch_rows build dec rc (src # srcs) b =
     rbind (open_stream rc src) (\<lambda>st.
     rbind (bench_source batch_rows build dec (fst src) 0 st b) (\<lambda>b.
     bench_sources batch_rows build dec rc srcs b))"

text \<open>The last batch may be short.\<close>

definition bench_finish :: "(fval list list \<Rightarrow> worker_error + arr list) \<Rightarrow> bench \<Rightarrow> worker_error + (nat \<times> nat)" where
  "bench_finish build b =
     (if bn_pending b = [] then Inr (bn_total b, bn_batches b)
      else rbind (build (bn_pending b)) (\<lambda>_. Inr (bn_total b, bn_batches b + 1)))"

definition bench_config :: "'store env \<Rightarrow> 'store source_ref list \<Rightarrow> read_config" where
  "bench_config env sources =
     \<lparr> rc_framing = Newline, rc_rec_len = 0, rc_compression = None, rc_limits = default_limits,
       rc_codecs = ev_streams env, rc_sources = opened env sources \<rparr>"

definition bench_scan_opts :: "'store env \<Rightarrow> rstr list \<Rightarrow> rstr \<Rightarrow> nat \<Rightarrow> options \<Rightarrow> rpc_error + (nat \<times> nat)" where
  "bench_scan_opts env ps spec batch_rows overrides =
     rbind (worker_step (ve (parse_spec (ev_serde env) spec None))) (\<lambda>l.
     rbind (arrow_step (layout_fields l)) (\<lambda>schema.
     rbind (cloud_step (rmap (classify (ev_urls env)) ps)) (\<lambda>locations.
     rbind (cloud_step (resolve_sources (env\<lparr> ev_secrets := (\<lambda>_ _. None) \<rparr>) overrides locations)) (\<lambda>sources.
     let build = (\<lambda>rows. map_err ArrowFailed (build_batch (ev_arrow env) schema [0..<length schema] rows));
         dec = decode_row (ev_chrono env) l Ascii;
         rc = bench_config env sources
     in worker_step (rbind (bench_sources (max batch_rows 1) build dec rc (rc_sources rc) \<lparr> bn_pending = [], bn_total = 0, bn_batches = 0 \<rparr>)
          (bench_finish build))))))"

section \<open>Self-test of the transport\<close>

text \<open>\<open>get\<close> gives the ranged access to the objects of a store; the result is a count or a code.\<close>

definition selftest_http :: "'store env \<Rightarrow> ('store \<Rightarrow> object_store) \<Rightarrow> bytes \<Rightarrow> int \<Rightarrow> int" where
  "selftest_http env get raw expect_len =
     (if utf8 (utf8_lossy raw) \<noteq> raw then - 1
      else case classify (ev_urls env) (utf8_lossy raw) of
        Inl _ \<Rightarrow> - 2
      | Inr (Local _) \<Rightarrow> - 3
      | Inr (Remote u) \<Rightarrow>
          (case open_store (env\<lparr> ev_secrets := (\<lambda>_ _. None) \<rparr>) [] u of
             Inl _ \<Rightarrow> - 4
           | Inr store \<Rightarrow>
               (case fst (range_read (get store) (nat (max expect_len 0)) new_range_reader) of
                  Inr bs \<Rightarrow> int (length bs)
                | Inl _ \<Rightarrow> - 6)))"

section \<open>Facts\<close>

text \<open>The rows seen so far fill the batches, except the pending ones.\<close>

definition bench_inv :: "nat \<Rightarrow> bench \<Rightarrow> bool" where
  "bench_inv batch_rows b \<longleftrightarrow>
     length (bn_pending b) < batch_rows \<and> bn_total b = bn_batches b * batch_rows + length (bn_pending b)"

lemma bench_push_inv:
  assumes "bench_inv n b" "bench_push n build row b = Inr b'"
  shows "bench_inv n b' \<and> bn_total b' = bn_total b + 1"
  using assms by (auto simp: bench_inv_def bench_push_def Let_def rbind_def split: if_splits sum.splits)

lemma bench_source_counts:
  "bench_inv n b \<Longrightarrow> bench_source n build dec label i st b = Inr b' \<Longrightarrow>
   \<exists>rows. read_source dec label i st = Inr rows \<and> bench_inv n b' \<and> bn_total b' = bn_total b + length rows"
proof (induction n build dec label i st b arbitrary: b' rule: bench_source.induct)
  case (1 n build dec label i st b)
  obtain r st' where item: "stream_next st = (r, st')"
    by (cases "stream_next st")
  show ?case
  proof (cases r)
    case None
    then show ?thesis
      using 1(2,3) item by (simp add: bench_source.simps [of n] read_source.simps [of dec])
  next
    case (Some result)
    obtain rec row b1 where steps: "result = Inr rec" "dec rec = Inr row" "bench_push n build row b = Inr b1"
      "bench_source n build dec label (i + 1) st' b1 = Inr b'"
      using 1(3) item Some by (auto simp: bench_source.simps [of n _ _ _ i] rbind_def map_err_def split: sum.splits)
    note b1 = bench_push_inv [OF 1(2) steps(3)]
    obtain rows where "read_source dec label (i + 1) st' = Inr rows" "bench_inv n b'" "bn_total b' = bn_total b1 + length rows"
      using 1(1) [OF item [symmetric] Some, of rec row b1 b'] b1 steps by (auto simp: map_err_def)
    then show ?thesis
      using b1 item Some steps(1,2) by (simp add: read_source.simps [of dec _ i] map_err_def)
  qed
qed

lemma bench_sources_counts:
  "bench_inv n b \<Longrightarrow> bench_sources n build dec rc srcs b = Inr b' \<Longrightarrow>
   \<exists>rows. read_sources dec rc srcs = Inr rows \<and> bench_inv n b' \<and> bn_total b' = bn_total b + length rows"
proof (induction srcs arbitrary: b)
  case (Cons src srcs)
  obtain st b1 where steps: "open_stream rc src = Inr st" "bench_source n build dec (fst src) 0 st b = Inr b1"
    "bench_sources n build dec rc srcs b1 = Inr b'"
    using Cons.prems(2) by (auto simp: rbind_def split: sum.splits)
  obtain rows where rows: "read_source dec (fst src) 0 st = Inr rows" "bench_inv n b1" "bn_total b1 = bn_total b + length rows"
    using bench_source_counts [OF Cons.prems(1) steps(2)] by blast
  obtain rest where "read_sources dec rc srcs = Inr rest" "bench_inv n b'" "bn_total b' = bn_total b1 + length rest"
    using Cons.IH [OF rows(2) steps(3)] by blast
  then show ?case
    using steps(1) rows by simp
qed simp

lemma ceiling_parts: "p < m \<Longrightarrow> (k * m + p + m - 1) div m = (if p = 0 then k else k + 1)" for p m k :: nat
  using quotient [of k m "m - 1" "k * m + p + m - 1"] quotient [of "k + 1" m "p - 1" "k * m + p + m - 1"]
  by (cases "p = 0") auto

lemma bench_finish_counts:
  assumes "bench_inv m b" "bench_finish build b = Inr (rows_read, n_batches)"
  shows "rows_read = bn_total b \<and> n_batches = (bn_total b + m - 1) div m"
  using assms ceiling_parts [of "length (bn_pending b)" m "bn_batches b"]
  by (auto simp: bench_finish_def bench_inv_def rbind_def split: if_splits sum.splits)

text \<open>
  A successful run counts the rows that the read path delivers from all sources, and the batches
  they fill, the last one short unless it is full.
\<close>

lemma bench_scan_counts:
  assumes "bench_scan_opts env ps spec batch_rows overrides = Inr (rows_read, n_batches)"
  shows "\<exists>l sources rows. parse_spec (ev_serde env) spec None = Inr l \<and>
    read_sources (decode_row (ev_chrono env) l Ascii) (bench_config env sources) (opened env sources) = Inr rows \<and>
    rows_read = length rows \<and> n_batches = (length rows + max batch_rows 1 - 1) div max batch_rows 1"
proof -
  let ?m = "max batch_rows 1" and ?start = "\<lparr> bn_pending = [], bn_total = 0, bn_batches = 0 \<rparr>"
  obtain l schema sources b build where parts: "parse_spec (ev_serde env) spec None = Inr l"
      "bench_sources ?m build (decode_row (ev_chrono env) l Ascii) (bench_config env sources) (opened env sources) ?start = Inr b"
      "bench_finish build b = Inr (rows_read, n_batches)"
    using assms unfolding bench_scan_opts_def Let_def
    by (auto simp: rbind_def ve_def map_err_def bench_config_def opened_def split: sum.splits)
  have "bench_inv ?m ?start"
    by (simp add: bench_inv_def)
  from bench_sources_counts [OF this parts(2)]
  obtain rows where rows: "read_sources (decode_row (ev_chrono env) l Ascii) (bench_config env sources) (opened env sources) = Inr rows"
    "bench_inv ?m b" "bn_total b = length rows"
    by auto
  have "rows_read = length rows" "n_batches = (length rows + ?m - 1) div ?m"
    using bench_finish_counts [OF rows(2) parts(3)] rows(3) by simp_all
  then show ?thesis
    using parts(1) rows(1) by blast
qed

end
