(* ===== verification/Wire.thy ===== *)
theory Wire
  imports RustStr
begin

text \<open>
  The calls that the worker makes through the browser (\<open>wasm/http.rs\<close>): requests are written,
  responses are read with a cursor. Positions are 32 bits wide on that target, so the addition to a
  position wraps. The peer that reads requests and writes responses is \<open>src/wasm/vgi_http_lib.js\<close>.
\<close>

section \<open>Writing\<close>

definition u32_bytes :: "nat \<Rightarrow> bytes" where
  "u32_bytes n = map (\<lambda>k. byte_of (n div 256 ^ k mod 256)) [0..<4]"

definition wire_put :: "bytes \<Rightarrow> bytes \<Rightarrow> bytes" where
  "wire_put out b = out @ u32_bytes (length b) @ b"

fun put_headers :: "bytes \<Rightarrow> (rstr \<times> bytes) list \<Rightarrow> bytes" where
  "put_headers out [] = out"
| "put_headers out ((k, v) # hs) = put_headers (wire_put (wire_put out (utf8 k)) v) hs"

definition encode_request :: "rstr \<Rightarrow> rstr \<Rightarrow> (rstr \<times> bytes) list \<Rightarrow> bytes \<Rightarrow> bytes" where
  "encode_request m u hs body =
     wire_put (put_headers (wire_put (wire_put [] (utf8 m)) (utf8 u) @ u32_bytes (length hs)) hs) body"

section \<open>Reading\<close>

datatype (plugins only: code size) wire_error = ShortRead | NotUtf8 | CapacityOverflow

definition wrap_add :: "nat \<Rightarrow> nat \<Rightarrow> nat" where
  "wrap_add a b = (a + b) mod 2 ^ 32"

text \<open>\<open>self.0.get(self.1..e)\<close>\<close>

definition cur_get :: "bytes \<Rightarrow> nat \<Rightarrow> nat \<Rightarrow> wire_error + bytes" where
  "cur_get raw pos e = (if pos \<le> e \<and> e \<le> length raw then Inr (take (e - pos) (drop pos raw)) else Inl ShortRead)"

definition cur_u32 :: "bytes \<Rightarrow> nat \<Rightarrow> wire_error + (nat \<times> nat)" where
  "cur_u32 raw pos =
     (let e = wrap_add pos 4 in
      rbind (cur_get raw pos e) (\<lambda>b.
      Inr (foldr (\<lambda>x acc. unat x + 256 * acc) b 0, e)))"

definition cur_bytes :: "bytes \<Rightarrow> nat \<Rightarrow> wire_error + (bytes \<times> nat)" where
  "cur_bytes raw pos =
     rbind (cur_u32 raw pos) (\<lambda>(n, pos).
     let e = wrap_add pos n in
     rbind (cur_get raw pos e) (\<lambda>b. Inr (b, e)))"

text \<open>\<open>String::from_utf8\<close>: the bytes are the encoding of a text.\<close>

definition from_utf8 :: "bytes \<Rightarrow> wire_error + rstr" where
  "from_utf8 b = (if utf8 (utf8_lossy b) = b then Inr (utf8_lossy b) else Inl NotUtf8)"

definition cur_str :: "bytes \<Rightarrow> nat \<Rightarrow> wire_error + (rstr \<times> nat)" where
  "cur_str raw pos =
     rbind (cur_bytes raw pos) (\<lambda>(b, pos). rbind (from_utf8 b) (\<lambda>s. Inr (s, pos)))"

fun cur_headers :: "bytes \<Rightarrow> nat \<Rightarrow> nat \<Rightarrow> wire_error + ((rstr \<times> rstr) list \<times> nat)" where
  "cur_headers raw pos 0 = Inr ([], pos)"
| "cur_headers raw pos (Suc n) =
     rbind (cur_str raw pos) (\<lambda>(k, pos).
     rbind (cur_str raw pos) (\<lambda>(v, pos).
     rbind (cur_headers raw pos n) (\<lambda>(hs, pos).
     Inr ((k, v) # hs, pos))))"

text \<open>
  A vector of \<open>n\<close> pairs of strings, of 24 bytes each, cannot exceed the largest object
  (\<open>isize::MAX\<close>); \<open>status as u16\<close> drops the upper half.
\<close>

definition decode_response :: "bytes \<Rightarrow> wire_error + (nat \<times> (rstr \<times> rstr) list \<times> bytes)" where
  "decode_response raw =
     rbind (cur_u32 raw 0) (\<lambda>(status, pos).
     rbind (cur_u32 raw pos) (\<lambda>(n, pos).
     if 2 ^ 31 - 1 < 24 * n then Inl CapacityOverflow
     else
       rbind (cur_headers raw pos n) (\<lambda>(hs, pos).
       rbind (cur_bytes raw pos) (\<lambda>(body, pos).
       Inr (status mod 65536, hs, body)))))"

section \<open>A call\<close>

datatype (plugins only: code size) http_error = StreamingBody | XhrFailed | BadResponse wire_error | BadParts

text \<open>
  \<open>send\<close> is the foreign function \<open>vgi_http_send\<close> (\<open>None\<close> for a code other than 0 or a null pointer),
  \<open>parts_ok\<close> says whether the http crate accepts a status and headers. A body that is not in
  memory is \<open>None\<close>.
\<close>

definition xhr_call ::
  "(bytes \<Rightarrow> bytes option) \<Rightarrow> (nat \<Rightarrow> (rstr \<times> rstr) list \<Rightarrow> bool) \<Rightarrow> rstr \<Rightarrow> rstr \<Rightarrow> (rstr \<times> bytes) list \<Rightarrow> bytes option
     \<Rightarrow> http_error + (nat \<times> (rstr \<times> rstr) list \<times> bytes)" where
  "xhr_call send parts_ok m u hs body =
     rbind (ok_or body StreamingBody) (\<lambda>body.
     rbind (ok_or (send (encode_request m u hs body)) XhrFailed) (\<lambda>raw.
     rbind (map_err BadResponse (decode_response raw)) (\<lambda>(status, headers, body).
     if parts_ok status headers then Inr (status, headers, body) else Inl BadParts)))"

section \<open>The peer\<close>

text \<open>
  \<open>getUint32\<close> throws behind the end of the buffer (\<open>None\<close>), \<open>subarray\<close> stops there. A
  \<open>TextDecoder\<close> drops a byte order mark and replaces what is not UTF-8.
\<close>

definition js_u32 :: "bytes \<Rightarrow> nat \<Rightarrow> (nat \<times> nat) option" where
  "js_u32 buf off =
     (if off + 4 \<le> length buf then Some (foldr (\<lambda>x acc. unat x + 256 * acc) (take 4 (drop off buf)) 0, off + 4) else None)"

definition js_bytes :: "bytes \<Rightarrow> nat \<Rightarrow> (bytes \<times> nat) option" where
  "js_bytes buf off = map_option (\<lambda>(n, off). (take n (drop off buf), off + n)) (js_u32 buf off)"

definition text_decoder :: "bytes \<Rightarrow> rstr" where
  "text_decoder b = utf8_lossy (if take 3 b = [0xEF, 0xBB, 0xBF] then drop 3 b else b)"

definition js_str :: "bytes \<Rightarrow> nat \<Rightarrow> (rstr \<times> nat) option" where
  "js_str buf off = map_option (\<lambda>(b, off). (text_decoder b, off)) (js_bytes buf off)"

fun js_headers :: "bytes \<Rightarrow> nat \<Rightarrow> nat \<Rightarrow> ((rstr \<times> rstr) list \<times> nat) option" where
  "js_headers buf off 0 = Some ([], off)"
| "js_headers buf off (Suc n) =
     (case js_str buf off of
        None \<Rightarrow> None
      | Some (k, off) \<Rightarrow>
          (case js_str buf off of
             None \<Rightarrow> None
           | Some (v, off) \<Rightarrow> map_option (\<lambda>(hs, off). ((k, v) # hs, off)) (js_headers buf off n)))"

definition js_decode_request :: "bytes \<Rightarrow> (rstr \<times> rstr \<times> (rstr \<times> rstr) list \<times> bytes) option" where
  "js_decode_request buf =
     (case js_str buf 0 of
        None \<Rightarrow> None
      | Some (m, off) \<Rightarrow>
          (case js_str buf off of
             None \<Rightarrow> None
           | Some (u, off) \<Rightarrow>
               (case js_u32 buf off of
                  None \<Rightarrow> None
                | Some (n, off) \<Rightarrow>
                    (case js_headers buf off n of
                       None \<Rightarrow> None
                     | Some (hs, off) \<Rightarrow> map_option (\<lambda>(body, off). (m, u, hs, body)) (js_bytes buf off)))))"

section \<open>Reading what was written\<close>

lemma u32_bytes_length [simp]: "length (u32_bytes n) = 4"
  by (simp add: u32_bytes_def)

lemma u32_bytes_value: "n < 2 ^ 32 \<Longrightarrow> foldr (\<lambda>x acc. unat x + 256 * acc) (u32_bytes n) 0 = n"
proof -
  assume "n < 2 ^ 32"
  have "[0..<4] = [0, 1, 2, 3 :: nat]"
    by (simp add: upt_rec)
  then have "foldr (\<lambda>x acc. unat x + 256 * acc) (u32_bytes n) 0
      = n mod 256 + 256 * (n div 256 mod 256 + 256 * (n div 256 div 256 mod 256 + 256 * (n div 256 div 256 div 256 mod 256)))"
    by (simp add: u32_bytes_def div_mult2_eq [symmetric])
  also have "n div 256 div 256 div 256 mod 256 = n div 256 div 256 div 256"
    using \<open>n < 2 ^ 32\<close> by (simp add: div_mult2_eq [symmetric] less_mult_imp_div_less)
  finally show ?thesis
    by (simp only: mod_mult_div_eq)
qed

lemma cur_u32_put:
  assumes "n < 2 ^ 32" "length pre + 4 < 2 ^ 32"
  shows "cur_u32 (pre @ u32_bytes n @ post) (length pre) = Inr (n, length pre + 4)"
  using assms by (simp add: cur_u32_def cur_get_def wrap_add_def u32_bytes_value)

lemma cur_bytes_put:
  assumes "length pre + 4 + length b < 2 ^ 32"
  shows "cur_bytes (wire_put pre b @ post) (length pre) = Inr (b, length (wire_put pre b))"
  using assms cur_u32_put [of "length b" pre "b @ post"]
  by (simp add: cur_bytes_def wire_put_def cur_get_def wrap_add_def)

lemma cur_str_put:
  assumes "length pre + 4 + length (utf8 s) < 2 ^ 32" "\<forall>c \<in> set s. is_scalar c"
  shows "cur_str (wire_put pre (utf8 s) @ post) (length pre) = Inr (s, length (wire_put pre (utf8 s)))"
  using cur_bytes_put [OF assms(1), of post] assms(2) by (simp add: cur_str_def from_utf8_def utf8_lossy_utf8)

lemma put_headers_append: "put_headers out hs = out @ put_headers [] hs"
proof (induction hs arbitrary: out)
  case (Cons h hs)
  obtain k v where h: "h = (k, v)"
    by (cases h)
  show ?case
    unfolding h put_headers.simps using Cons.IH [of "wire_put (wire_put out (utf8 k)) v"] Cons.IH [of "wire_put (wire_put [] (utf8 k)) v"]
    by (simp add: wire_put_def)
qed simp

definition scalar_headers :: "(rstr \<times> rstr) list \<Rightarrow> bool" where
  "scalar_headers hs = list_all (\<lambda>(k, v). list_all is_scalar k \<and> list_all is_scalar v) hs"

abbreviation header_bytes :: "(rstr \<times> rstr) list \<Rightarrow> (rstr \<times> bytes) list" where
  "header_bytes \<equiv> map (\<lambda>(k, v). (k, utf8 v))"

lemma wire_put_length: "length (wire_put out b) = length out + 4 + length b"
  by (simp add: wire_put_def)

lemma cur_headers_put:
  assumes "length (put_headers pre (header_bytes hs)) < 2 ^ 32" "scalar_headers hs"
  shows "cur_headers (put_headers pre (header_bytes hs) @ post) (length pre) (length hs)
    = Inr (hs, length (put_headers pre (header_bytes hs)))"
  using assms
proof (induction hs arbitrary: pre)
  case (Cons h hs)
  obtain k v where h: "h = (k, v)"
    by (cases h)
  let ?p1 = "wire_put pre (utf8 k)" and ?hs = "header_bytes hs"
  let ?p2 = "wire_put ?p1 (utf8 v)"
  let ?all = "put_headers ?p2 ?hs @ post"
  have all: "?all = ?p2 @ put_headers [] ?hs @ post"
    using put_headers_append [of ?p2 ?hs] by simp
  have small: "length ?p2 < 2 ^ 32"
    using Cons.prems(1) h put_headers_append [of ?p2 ?hs] by simp
  have scalar: "\<forall>c \<in> set k. is_scalar c" "\<forall>c \<in> set v. is_scalar c" "scalar_headers hs"
    using Cons.prems(2) h by (auto simp: scalar_headers_def list_all_iff)
  have "cur_str ?all (length pre) = Inr (k, length ?p1)"
    using cur_str_put [OF _ scalar(1), of pre "u32_bytes (length (utf8 v)) @ utf8 v @ put_headers [] ?hs @ post"] small
    unfolding all by (simp add: wire_put_def)
  moreover have "cur_str ?all (length ?p1) = Inr (v, length ?p2)"
    using cur_str_put [OF _ scalar(2), of ?p1 "put_headers [] ?hs @ post"] small unfolding all by (simp add: wire_put_length)
  moreover have "cur_headers ?all (length ?p2) (length hs) = Inr (hs, length (put_headers ?p2 ?hs))"
    using Cons.IH [of ?p2] Cons.prems(1) scalar(3) h by simp
  ultimately show ?case
    by (simp add: h)
qed simp

text \<open>A response as the browser writes it.\<close>

definition encode_response :: "nat \<Rightarrow> (rstr \<times> rstr) list \<Rightarrow> bytes \<Rightarrow> bytes" where
  "encode_response status hs body =
     wire_put (put_headers (u32_bytes status @ u32_bytes (length hs)) (header_bytes hs)) body"

lemma js_u32_put: "n < 2 ^ 32 \<Longrightarrow> js_u32 (pre @ u32_bytes n @ post) (length pre) = Some (n, length pre + 4)"
  by (simp add: js_u32_def u32_bytes_value)

lemma js_bytes_put:
  "length b < 2 ^ 32 \<Longrightarrow> js_bytes (wire_put pre b @ post) (length pre) = Some (b, length (wire_put pre b))"
  using js_u32_put [of "length b" pre "b @ post"] by (simp add: js_bytes_def wire_put_def)

text \<open>A text that a \<open>TextDecoder\<close> reads back.\<close>

definition plain_text :: "rstr \<Rightarrow> bool" where
  "plain_text s = (list_all is_scalar s \<and> take 3 (utf8 s) \<noteq> [0xEF, 0xBB, 0xBF])"

lemma text_decoder_utf8: "plain_text s \<Longrightarrow> text_decoder (utf8 s) = s"
  by (simp add: text_decoder_def plain_text_def utf8_lossy_utf8 list_all_iff)

lemma js_str_put:
  "length (utf8 s) < 2 ^ 32 \<Longrightarrow> plain_text s \<Longrightarrow>
   js_str (wire_put pre (utf8 s) @ post) (length pre) = Some (s, length (wire_put pre (utf8 s)))"
  using js_bytes_put [of "utf8 s" pre post] by (simp add: js_str_def text_decoder_utf8)

lemma js_headers_put:
  assumes "length (put_headers pre (header_bytes hs)) < 2 ^ 32" "list_all (\<lambda>(k, v). plain_text k \<and> plain_text v) hs"
  shows "js_headers (put_headers pre (header_bytes hs) @ post) (length pre) (length hs)
    = Some (hs, length (put_headers pre (header_bytes hs)))"
  using assms
proof (induction hs arbitrary: pre)
  case (Cons h hs)
  obtain k v where h: "h = (k, v)"
    by (cases h)
  let ?p1 = "wire_put pre (utf8 k)" and ?hs = "header_bytes hs"
  let ?p2 = "wire_put ?p1 (utf8 v)"
  let ?all = "put_headers ?p2 ?hs @ post"
  have all: "?all = ?p2 @ put_headers [] ?hs @ post"
    using put_headers_append [of ?p2 ?hs] by simp
  have small: "length ?p2 < 2 ^ 32"
    using Cons.prems(1) h put_headers_append [of ?p2 ?hs] by simp
  have "js_str ?all (length pre) = Some (k, length ?p1)"
    using js_str_put [of k pre "u32_bytes (length (utf8 v)) @ utf8 v @ put_headers [] ?hs @ post"] small Cons.prems(2) h
    unfolding all by (simp add: wire_put_def)
  moreover have "js_str ?all (length ?p1) = Some (v, length ?p2)"
    using js_str_put [of v ?p1 "put_headers [] ?hs @ post"] small Cons.prems(2) h unfolding all by (simp add: wire_put_length)
  moreover have "js_headers ?all (length ?p2) (length hs) = Some (hs, length (put_headers ?p2 ?hs))"
    using Cons.IH [of ?p2] Cons.prems h by simp
  ultimately show ?case
    by (simp add: h)
qed simp

lemma js_decode_encode:
  assumes "plain_text m" "plain_text u" "list_all (\<lambda>(k, v). plain_text k \<and> plain_text v) hs"
    and "length (encode_request m u (header_bytes hs) body) < 2 ^ 32" "length hs < 2 ^ 32"
  shows "js_decode_request (encode_request m u (header_bytes hs) body) = Some (m, u, hs, body)"
proof -
  let ?p1 = "wire_put [] (utf8 m)"
  let ?p2 = "wire_put ?p1 (utf8 u)" and ?hs = "header_bytes hs"
  let ?p3 = "?p2 @ u32_bytes (length hs)"
  let ?heads = "put_headers ?p3 ?hs"
  let ?raw = "encode_request m u ?hs body"
  have raw: "?raw = ?heads @ u32_bytes (length body) @ body"
    by (simp add: encode_request_def wire_put_def)
  have heads: "?heads = ?p2 @ u32_bytes (length hs) @ put_headers [] ?hs"
    using put_headers_append [of ?p3 ?hs] by simp
  have small: "length ?heads + 4 + length body < 2 ^ 32"
    using assms(4) by (simp add: encode_request_def wire_put_length)
  then have small2: "length ?p2 < 2 ^ 32"
    unfolding heads by simp
  have "js_str ?raw 0 = Some (m, length ?p1)"
    using js_str_put [OF _ assms(1), of "[]"] small2 unfolding raw heads by (simp add: wire_put_def)
  moreover have "js_str ?raw (length ?p1) = Some (u, length ?p2)"
    using js_str_put [OF _ assms(2), of ?p1] small2 unfolding raw heads by (simp add: wire_put_length)
  moreover have "js_u32 ?raw (length ?p2) = Some (length hs, length ?p3)"
    using js_u32_put [OF assms(5), of ?p2] unfolding raw heads by simp
  moreover have "js_headers ?raw (length ?p3) (length hs) = Some (hs, length ?heads)"
    using js_headers_put [of ?p3 hs "u32_bytes (length body) @ body"] small assms(3) unfolding raw by simp
  moreover have "js_bytes ?raw (length ?heads) = Some (body, length (wire_put ?heads body))"
    using js_bytes_put [of body ?heads "[]"] small unfolding raw by (simp add: wire_put_def)
  ultimately show ?thesis
    by (simp add: js_decode_request_def)
qed

text \<open>The other direction.\<close>

lemma response_reads_back:
  assumes "status < 65536" "scalar_headers hs" "24 * length hs \<le> 2 ^ 31 - 1"
    "length (encode_response status hs body) < 2 ^ 32"
  shows "decode_response (encode_response status hs body @ rest) = Inr (status, hs, body)"
proof -
  let ?pre = "u32_bytes status @ u32_bytes (length hs)" and ?hs = "header_bytes hs"
  let ?heads = "put_headers ?pre ?hs"
  let ?raw = "encode_response status hs body @ rest"
  have raw: "?raw = ?heads @ u32_bytes (length body) @ body @ rest"
    by (simp add: encode_response_def wire_put_def)
  have split: "?heads = u32_bytes status @ u32_bytes (length hs) @ put_headers [] ?hs"
    using put_headers_append [of ?pre ?hs] by simp
  have small: "length ?heads + 4 + length body < 2 ^ 32"
    using assms(4) by (simp add: encode_response_def wire_put_length)
  have "cur_u32 ?raw 0 = Inr (status, 4)"
    using cur_u32_put [of status "[]"] assms(1) unfolding raw split by simp
  moreover have "cur_u32 ?raw 4 = Inr (length hs, 8)"
    using cur_u32_put [of "length hs" "u32_bytes status"] assms(3) unfolding raw split by simp
  moreover have "cur_headers ?raw 8 (length hs) = Inr (hs, length ?heads)"
    using cur_headers_put [of ?pre hs "u32_bytes (length body) @ body @ rest"] small assms(2) unfolding raw by simp
  moreover have "cur_bytes ?raw (length ?heads) = Inr (body, length (wire_put ?heads body))"
    using cur_bytes_put [OF small, of rest] unfolding raw by (simp add: wire_put_def)
  ultimately show ?thesis
    using assms(1,3) by (simp add: decode_response_def)
qed

text \<open>
  \<open>vgi_http_send\<close> of the peer; \<open>browser\<close> is the synchronous request, which may fail.
\<close>

definition browser_send ::
  "(rstr \<Rightarrow> rstr \<Rightarrow> (rstr \<times> rstr) list \<Rightarrow> bytes \<Rightarrow> (nat \<times> (rstr \<times> rstr) list \<times> bytes) option) \<Rightarrow> bytes \<Rightarrow> bytes option" where
  "browser_send browser raw =
     (case js_decode_request raw of
        None \<Rightarrow> None
      | Some (m, u, hs, body) \<Rightarrow>
          map_option (\<lambda>(status, headers, body). encode_response status headers body) (browser m u hs body))"

section \<open>Properties\<close>

text \<open>
  C21. A call crosses the boundary to the browser and back unchanged: the browser sees the method,
  the address, the headers and the body of the request, and the worker gets the status, the
  headers and the body of arbitrary bytes that the browser answers, for messages below 4 GiB whose
  header values are text without a byte order mark.
\<close>

theorem call_crosses_boundary:
  assumes "plain_text m" "plain_text u" "list_all (\<lambda>(k, v). plain_text k \<and> plain_text v) hs"
    and "length (encode_request m u (header_bytes hs) body) < 2 ^ 32" "length hs < 2 ^ 32"
    and "browser m u hs body = Some (status, hs', body')"
    and "status < 65536" "scalar_headers hs'" "24 * length hs' \<le> 2 ^ 31 - 1"
    and "length (encode_response status hs' body') < 2 ^ 32"
  shows "xhr_call (browser_send browser) parts_ok m u (header_bytes hs) (Some body)
    = (if parts_ok status hs' then Inr (status, hs', body') else Inl BadParts)"
  using js_decode_encode [OF assms(1-5)] response_reads_back [OF assms(7-10), of "[]"] assms(6)
  by (simp add: xhr_call_def browser_send_def map_err_def)

theorem call_crosses_boundary_witness:
  "xhr_call (browser_send (\<lambda>m u hs body. if m = lit ''GET'' \<and> hs = [(lit ''range'', lit ''bytes=0-3'')]
       then Some (206, [(lit ''content-range'', lit ''bytes 0-3/9'')], [0xC1, 0x00, 0xFF, 0x7F]) else None))
     (\<lambda>status hs. 100 \<le> status \<and> status < 1000) (lit ''GET'') (lit ''https://h/f'')
     (header_bytes [(lit ''range'', lit ''bytes=0-3'')]) (Some [])
   = Inr (206, [(lit ''content-range'', lit ''bytes 0-3/9'')], [0xC1, 0x00, 0xFF, 0x7F])"
proof -
  let ?m = "lit ''GET'' :: rstr" and ?u = "lit ''https://h/f'' :: rstr"
  let ?hs = "[(lit ''range'', lit ''bytes=0-3'')] :: (rstr \<times> rstr) list"
    and ?hs' = "[(lit ''content-range'', lit ''bytes 0-3/9'')] :: (rstr \<times> rstr) list"
  have "plain_text ?m" "plain_text ?u" "list_all (\<lambda>(k, v). plain_text k \<and> plain_text v) ?hs"
    "length (encode_request ?m ?u (header_bytes ?hs) []) < 2 ^ 32"
    "scalar_headers ?hs'" "length (encode_response 206 ?hs' [0xC1, 0x00, 0xFF, 0x7F]) < 2 ^ 32"
    by code_simp+
  then show ?thesis
    using call_crosses_boundary [of ?m ?u ?hs "[]" _ 206 ?hs' "[0xC1, 0x00, 0xFF, 0x7F]" "\<lambda>status hs. 100 \<le> status \<and> status < 1000"]
    by simp
qed

text \<open>
  A header value that is not UTF-8 does not arrive: the peer decodes it as text.
\<close>

theorem binary_header_replaced:
  "js_headers (put_headers [] [(lit ''x'', [0xFF])]) 0 1 = Some ([(lit ''x'', [0xFFFD])], 10)"
  by code_simp

end
