(* ===== verification/Meta.thy ===== *)
theory Meta
  imports RustStr
begin

text \<open>
  The JSON texts in the descriptions of the functions (\<open>meta.rs\<close>): keyword arrays, task arrays and
  the tags of an object, with the escaping of quotes and backslashes.
\<close>

section \<open>Escaping\<close>

abbreviation (input) quote_char :: rchar where
  "quote_char \<equiv> 34"

abbreviation (input) backslash :: rchar where
  "backslash \<equiv> 92"

text \<open>\<open>s.replace(c, r)\<close> for a character \<open>c\<close>\<close>

definition replace_char :: "rchar \<Rightarrow> rstr \<Rightarrow> rstr \<Rightarrow> rstr" where
  "replace_char c r s = concat (map (\<lambda>x. if x = c then r else [x]) s)"

definition escape_keyword :: "rstr \<Rightarrow> rstr" where
  "escape_keyword k = replace_char quote_char [backslash, quote_char] (replace_char backslash [backslash, backslash] k)"

definition esc :: "rstr \<Rightarrow> rstr" where
  "esc s = replace_char 10 [backslash, ch CHR ''n''] (escape_keyword s)"

definition quoted :: "rstr \<Rightarrow> rstr" where
  "quoted s = [quote_char] @ s @ [quote_char]"

fun split_char :: "rchar \<Rightarrow> rstr \<Rightarrow> rstr list" where
  "split_char c [] = [[]]"
| "split_char c (x # xs) =
     (if x = c then [] # split_char c xs
      else case split_char c xs of [] \<Rightarrow> [[x]] | s # ss \<Rightarrow> (x # s) # ss)"

fun join :: "rstr \<Rightarrow> rstr list \<Rightarrow> rstr" where
  "join sep [] = []"
| "join sep [x] = x"
| "join sep (x # y # ys) = x @ sep @ join sep (y # ys)"

section \<open>Descriptions\<close>

definition keywords_json :: "rstr \<Rightarrow> rstr" where
  "keywords_json keywords =
     (let items = map (\<lambda>k. quoted (escape_keyword k)) (filter (\<lambda>k. k \<noteq> []) (map trim (split_char (ch CHR '','') keywords)))
      in lit ''['' @ join (lit '','') items @ lit '']'')"

definition agent_test_tasks_json :: "(rstr \<times> rstr) list \<Rightarrow> rstr" where
  "agent_test_tasks_json tasks =
     (let items = map (\<lambda>(name, prompt).
          lit ''{'' @ quoted (lit ''name'') @ lit '':'' @ quoted (esc name) @ lit '',''
            @ quoted (lit ''prompt'') @ lit '':'' @ quoted (esc prompt) @ lit ''}'') tasks
      in lit ''['' @ join (lit '','') items @ lit '']'')"

definition category :: "rstr \<Rightarrow> rstr \<times> rstr" where
  "category name = (lit ''vgi.category'', name)"

definition object_tags :: "rstr \<Rightarrow> rstr \<Rightarrow> rstr \<Rightarrow> rstr \<Rightarrow> (rstr \<times> rstr) list" where
  "object_tags title description_llm description_md keywords =
     [(lit ''vgi.title'', title), (lit ''vgi.doc_llm'', description_llm), (lit ''vgi.doc_md'', description_md),
      (lit ''vgi.keywords'', keywords_json keywords)]"

section \<open>Reading JSON strings\<close>

text \<open>
  The specification: a reader of JSON strings after the opening quote, which refuses control
  characters, and of arrays of strings.
\<close>

fun unquote :: "rstr \<Rightarrow> (rstr \<times> rstr) option" where
  "unquote [] = None"
| "unquote (c # cs) =
     (if c = quote_char then Some ([], cs)
      else if c = backslash then
        (case cs of
           [] \<Rightarrow> None
         | e # es \<Rightarrow>
             if e = quote_char \<or> e = backslash then map_option (map_prod ((#) e) id) (unquote es)
             else if e = ch CHR ''n'' then map_option (map_prod ((#) 10) id) (unquote es)
             else None)
      else if c < 32 then None
      else map_option (map_prod ((#) c) id) (unquote cs))"

fun read_items :: "nat \<Rightarrow> rstr \<Rightarrow> rstr list option" where
  "read_items 0 s = None"
| "read_items (Suc n) s =
     (case s of
        [] \<Rightarrow> None
      | c # cs \<Rightarrow>
          if c \<noteq> quote_char then None
          else case unquote cs of
            None \<Rightarrow> None
          | Some (x, rest) \<Rightarrow>
              if rest = lit '']'' then Some [x]
              else case rest of
                [] \<Rightarrow> None
              | d # ds \<Rightarrow> if d = ch CHR '','' then map_option ((#) x) (read_items n ds) else None)"

definition read_array :: "rstr \<Rightarrow> rstr list option" where
  "read_array s =
     (if s = lit ''[]'' then Some []
      else case s of [] \<Rightarrow> None | c # cs \<Rightarrow> if c = ch CHR ''['' then read_items (length cs) cs else None)"

lemma replace_char_simps:
  "replace_char c r [] = []" "replace_char c r (x # xs) = (if x = c then r else [x]) @ replace_char c r xs"
  "replace_char c r (xs @ ys) = replace_char c r xs @ replace_char c r ys"
  by (simp_all add: replace_char_def)

lemma escape_simps:
  "escape_keyword [] = []"
  "escape_keyword (x # xs) =
     (if x = backslash then [backslash, backslash] else if x = quote_char then [backslash, quote_char] else [x]) @ escape_keyword xs"
  by (simp_all add: escape_keyword_def replace_char_simps)

lemma unquote_keyword: "\<forall>c \<in> set s. 32 \<le> c \<Longrightarrow> unquote (escape_keyword s @ quote_char # rest) = Some (s, rest)"
  by (induction s) (auto simp: escape_simps)

text \<open>The escapes of a task keep line breaks; other control characters would not be readable.\<close>

lemma unquote_esc: "\<forall>c \<in> set s. 32 \<le> c \<or> c = 10 \<Longrightarrow> unquote (esc s @ quote_char # rest) = Some (s, rest)"
proof (induction s)
  case (Cons c s)
  then show ?case
    by (auto simp: esc_def escape_simps replace_char_simps)
qed (simp add: esc_def escape_simps replace_char_simps)

lemma read_items_joined:
  "ks \<noteq> [] \<Longrightarrow> \<forall>k \<in> set ks. \<forall>c \<in> set k. 32 \<le> c \<Longrightarrow> length ks \<le> n \<Longrightarrow>
   read_items n (join (lit '','') (map (\<lambda>k. quoted (escape_keyword k)) ks) @ lit '']'') = Some ks"
proof (induction n arbitrary: ks)
  case (Suc n)
  obtain k rest where ks: "ks = k # rest"
    using Suc.prems(1) by (cases ks) auto
  show ?case
  proof (cases rest)
    case Nil
    then show ?thesis
      using Suc.prems(2) ks unquote_keyword [of k "lit '']''"] by (simp add: quoted_def)
  next
    case (Cons k2 more)
    let ?tail = "join (lit '','') (map (\<lambda>k. quoted (escape_keyword k)) rest) @ lit '']''"
    have "unquote (escape_keyword k @ quote_char # lit '','' @ ?tail) = Some (k, lit '','' @ ?tail)"
      using Suc.prems(2) ks by (intro unquote_keyword) simp
    moreover have "read_items n ?tail = Some rest"
      using Suc.IH [of rest] Suc.prems ks Cons by auto
    ultimately show ?thesis
      using ks Cons by (simp add: quoted_def)
  qed
qed simp

lemma split_char_set: "s \<in> set (split_char c xs) \<Longrightarrow> set s \<subseteq> set xs"
  by (induction c xs arbitrary: s rule: split_char.induct) (fastforce split: if_splits list.splits)+

text \<open>The keyword array is JSON for the trimmed keywords that are not empty.\<close>

lemma keywords_read_back:
  assumes "\<forall>c \<in> set keywords. 32 \<le> c"
  shows "read_array (keywords_json keywords) = Some (filter (\<lambda>k. k \<noteq> []) (map trim (split_char (ch CHR '','') keywords)))"
proof -
  let ?ks = "filter (\<lambda>k. k \<noteq> []) (map trim (split_char (ch CHR '','') keywords))"
  let ?items = "join (lit '','') (map (\<lambda>k. quoted (escape_keyword k)) ?ks) @ lit '']''"
  have json: "keywords_json keywords = ch CHR ''['' # ?items"
    by (simp add: keywords_json_def)
  show ?thesis
  proof (cases "?ks = []")
    case True
    then show ?thesis
      unfolding json by (simp add: read_array_def)
  next
    case False
    have chars: "\<forall>k \<in> set ?ks. \<forall>c \<in> set k. 32 \<le> c"
      using assms trim_set split_char_set by fastforce
    have len: "length xs \<le> length (join (lit '','') (map (\<lambda>k. quoted (escape_keyword k)) xs))" for xs
      by (induction xs rule: induct_list012) (simp_all add: quoted_def)
    have "read_items (length ?items) ?items = Some ?ks"
      using read_items_joined [OF False chars, of "length ?items"] len [of ?ks] by simp
    moreover have "?items \<noteq> lit '']''"
      using False by (cases ?ks rule: remdups_adj.cases) (auto simp: quoted_def)
    ultimately show ?thesis
      unfolding json by (simp add: read_array_def)
  qed
qed

end
