(* ===== verification/Session.thy ===== *)
theory Session
  imports Reader
begin

text \<open>
  Scans that are interrupted: between two batches the worker may drop the open stream and continue
  later, perhaps in another process, from the index of the source and the number of records seen
  (\<open>resume_fields!(idx, seen)\<close> of \<open>reader.rs\<close> and \<open>table/read_multi.rs\<close>). A session is any sequence of
  batches and interruptions.
\<close>

section \<open>Sessions\<close>

definition interrupt :: "producer \<Rightarrow> producer" where
  "interrupt p = p\<lparr> pr_current := None \<rparr>"

text \<open>The state of the producer and the rows that were delivered so far.\<close>

inductive session :: "nat \<Rightarrow> (bytes \<Rightarrow> error + 'row) \<Rightarrow> read_config \<Rightarrow> producer \<Rightarrow> 'row list \<Rightarrow> bool"
  for limit dec rc where
  session_start: "session limit dec rc start_producer []"
| session_batch: "session limit dec rc p out \<Longrightarrow> next_rows limit dec rc p = (Inr (Some rows), p') \<Longrightarrow>
    session limit dec rc p' (out @ rows)"
| session_interrupt: "session limit dec rc p out \<Longrightarrow> session limit dec rc (interrupt p) out"

section \<open>What a session has delivered\<close>

text \<open>A producer that continues as a consistent one, interrupted or not.\<close>

definition continues :: "read_config \<Rightarrow> producer \<Rightarrow> producer \<Rightarrow> bool" where
  "continues rc p q \<longleftrightarrow> consistent rc q \<and> (p = q \<or> p = interrupt q)"

lemma continues_next: "continues rc p q \<Longrightarrow> 0 < limit \<Longrightarrow> next_rows limit dec rc p = next_rows limit dec rc q"
  using fill_batch_resume [of rc q "[]" limit dec] by (auto simp: continues_def interrupt_def next_rows_def)

lemma continues_interrupt: "continues rc p q \<Longrightarrow> continues rc (interrupt p) q"
  by (auto simp: continues_def interrupt_def)

lemma continues_refl: "consistent rc p \<Longrightarrow> continues rc p p"
  by (simp add: continues_def)

lemma session_progress:
  assumes "session limit dec rc p out" "0 < limit" "source_items dec rc (rc_sources rc) = (all_rows, e)"
  shows "\<exists>q xs. continues rc p q \<and> remaining dec rc q = (xs, e) \<and> all_rows = out @ xs"
  using assms(1)
proof (induction rule: session.induct)
  case session_start
  then show ?case
    using continues_refl [OF consistent_start] remaining_start [of dec rc] assms(3) by force
next
  case (session_batch p out rows p')
  then obtain q xs where q: "continues rc p q" "remaining dec rc q = (xs, e)" "all_rows = out @ xs"
    by blast
  have "next_rows limit dec rc q = (Inr (Some rows), p')"
    using continues_next [OF q(1) assms(2), of dec] session_batch(2) by simp
  then have "rows = take limit xs" "remaining dec rc p' = (drop limit xs, e)" "consistent rc p'"
    using next_rows_contract [OF assms(2) _ q(2)] q(1) by (auto simp: continues_def)
  then show ?case
    using continues_refl [of rc p'] q(3) by fastforce
next
  case (session_interrupt p out)
  then show ?case
    using continues_interrupt by blast
qed

section \<open>Properties\<close>

text \<open>
  C9. However often a scan is interrupted between batches, every row is delivered exactly once and
  in order: at any time the rows delivered are the first rows of the file, the next batch continues
  after them, and when the scan ends, or fails, what was delivered is what reading everything at
  once gives, or its error is the error of that.
\<close>

theorem sessions_deliver_once:
  assumes "session limit dec rc p out" "0 < limit"
  shows "case next_rows limit dec rc p of
      (Inr None, _) \<Rightarrow> read_sources dec rc (rc_sources rc) = Inr out
    | (Inl err, _) \<Rightarrow> read_sources dec rc (rc_sources rc) = Inl err
    | (Inr (Some rows), p') \<Rightarrow> rows \<noteq> [] \<and> (\<exists>rest. fst (source_items dec rc (rc_sources rc)) = out @ rows @ rest)"
proof -
  obtain all_rows e where all: "source_items dec rc (rc_sources rc) = (all_rows, e)"
    by (cases "source_items dec rc (rc_sources rc)")
  obtain q xs where q: "continues rc p q" "remaining dec rc q = (xs, e)" "all_rows = out @ xs"
    using session_progress [OF assms all] by blast
  have "case next_rows limit dec rc p of
      (Inr None, p') \<Rightarrow> xs = [] \<and> e = None
    | (Inr (Some rows), p') \<Rightarrow> rows = take limit xs \<and> rows \<noteq> []
        \<and> remaining dec rc p' = (drop limit xs, e) \<and> consistent rc p'
    | (Inl err, p') \<Rightarrow> e = Some err \<and> length xs < limit"
    using next_rows_contract [OF assms(2) _ q(2)] q(1) continues_next [OF q(1) assms(2), of dec] by (simp add: continues_def)
  then show ?thesis
    using all q(3)
    by (auto simp: read_sources_items items_result_def intro!: exI [of _ "drop limit xs"] split: prod.splits sum.splits option.splits)
qed

theorem sessions_deliver_once_witness:
  "\<exists>c p. session 2 (decode_row c sample_text_layout Ascii) sample_config p [[VText [65]], [VText [66]]] \<and> pr_current p = None \<and>
     (\<exists>rows p'. next_rows 2 (decode_row c sample_text_layout Ascii) sample_config p = (Inr (Some rows), p') \<and>
       (\<exists>rest. fst (source_items (decode_row c sample_text_layout Ascii) sample_config (rc_sources sample_config))
          = [[VText [65]], [VText [66]]] @ rows @ rest))"
proof -
  fix c
  let ?dec = "decode_row c sample_text_layout Ascii"
  obtain r p where first: "next_rows 2 ?dec sample_config start_producer = (r, p)"
    by (cases "next_rows 2 ?dec sample_config start_producer")
  have "fst (next_rows 2 ?dec sample_config start_producer) = Inr (Some [[VText [65]], [VText [66]]])"
    by code_simp
  then have "session 2 ?dec sample_config p ([] @ [[VText [65]], [VText [66]]])"
    using session_batch [OF session_start] first by fastforce
  then have s: "session 2 ?dec sample_config (interrupt p) [[VText [65]], [VText [66]]]"
    using session_interrupt by fastforce
  have "fst (next_rows 2 ?dec sample_config (interrupt (snd (next_rows 2 ?dec sample_config start_producer)))) = Inr (Some [[VText [67]]])"
    by code_simp
  then obtain p' where "next_rows 2 ?dec sample_config (interrupt p) = (Inr (Some [[VText [67]]]), p')"
    using first by (metis prod.collapse snd_conv)
  then have "\<exists>rest. fst (source_items ?dec sample_config (rc_sources sample_config)) = [[VText [65]], [VText [66]]] @ [[VText [67]]] @ rest"
    using sessions_deliver_once [OF s] by simp
  moreover have "pr_current (interrupt p) = None"
    by (simp add: interrupt_def)
  ultimately show ?thesis
    using s \<open>next_rows 2 ?dec sample_config (interrupt p) = (Inr (Some [[VText [67]]]), p')\<close> by blast
qed

end
