(* ===== verification/NoPanic.thy ===== *)
theory NoPanic
  imports Scan RoundTrip
begin

text \<open>
  Panics: which operations cannot reach one. Records come from files that nobody checked, so the
  decoder must refuse them with an error; the encoder gets values from the database.
\<close>

section \<open>Results without a panic\<close>

text \<open>The error of a record type wraps the error of its spec.\<close>

fun panic_error :: "error \<Rightarrow> bool" where
  "panic_error (Panic m) = True"
| "panic_error (RecordType tag e) = panic_error e"
| "panic_error e = False"

definition panics :: "error + 'a \<Rightarrow> bool" where
  "panics r = (case r of Inl e \<Rightarrow> panic_error e | Inr x \<Rightarrow> False)"

lemma panics_simps [simp]: "\<not> panics (Inr x)"
  by (simp add: panics_def)

lemma panics_Inl: "panics (Inl e) = panic_error e"
  by (simp add: panics_def)

lemma panics_map_err: "panics (map_err (RecordType tag) r) = panics r"
  by (cases r) (simp_all add: map_err_def panics_Inl)

lemma panics_rbind: "panics (rbind r f) \<longleftrightarrow> panics r \<or> (\<exists>x. r = Inr x \<and> panics (f x))"
  by (cases r) (simp_all add: panics_def)

lemma calm_rbind [intro]: "\<not> panics r \<Longrightarrow> (\<And>x. r = Inr x \<Longrightarrow> \<not> panics (f x)) \<Longrightarrow> \<not> panics (rbind r f)"
  by (simp add: panics_rbind)

lemma panics_rmap_value [simp]: "panics (rmap_value f r) = panics r"
  by (cases r) (simp_all add: panics_def rmap_value_def)

lemma panics_ok_or [simp]: "panics (ok_or x e) \<longleftrightarrow> x = None \<and> panic_error e"
  by (cases x) (simp_all add: panics_def)

section \<open>Decoding\<close>

lemma packed_calm: "\<not> panics (packed_digit_loop bs is v)" "\<not> panics (packed_decode bs)"
proof -
  show loop: "\<not> panics (packed_digit_loop bs is v)" for bs "is" v
    by (induction bs "is" v rule: packed_digit_loop.induct)
      (auto simp: panics_rbind panics_Inl push_digit_def Let_def)
  show "\<not> panics (packed_decode bs)"
    by (auto simp: packed_decode_def panics_rbind panics_Inl loop Let_def)
qed

lemma zoned_calm: "\<not> panics (zoned_digit_loop bs v)" "\<not> panics (zoned_decode bs)"
proof -
  have push: "\<not> panics (push_digit ZonedOverflow v d)" for v d
    by (auto simp: push_digit_def panics_Inl panics_rbind)
  show loop: "\<not> panics (zoned_digit_loop bs v)" for bs v
    by (induction bs v rule: zoned_digit_loop.induct) (auto simp: panics_rbind panics_Inl push zoned_digit_def)
  show "\<not> panics (zoned_decode bs)"
    by (auto simp: zoned_decode_def panics_rbind panics_Inl loop push decode_overpunch_def Let_def)
qed

lemma leaf_calm:
  assumes "\<nexists>cs. f_kind f = KGroup cs"
  shows "\<not> panics (decode_leaf c f s enc)"
  using assms packed_calm zoned_calm
  by (auto simp: decode_leaf_def parse_display_int_def parse_display_decimal_def parse_binary_int_def parse_float_def
      edited_decode_def datetime_parse_def panics_rbind panics_Inl Let_def split: field_kind.split num_repr.split date_time_kind.split prod.split)

lemma slice_calm: "\<not> panics (slice bs pos w)"
  by (auto simp: slice_def panics_Inl)

lemma count_calm: "\<not> panics (decode_count f sc)"
  by (auto simp: decode_count_def panics_rbind panics_Inl split: option.split)

lemma walk_calm:
  "\<not> panics (decode_fields c bs enc fs base shift fin sc)"
  "\<not> panics (decode_field c bs enc f pos sc)"
  "\<not> panics (decode_items c bs enc f n k cursor sc)"
  "\<not> panics (decode_one c bs enc f pos sc)"
proof (induction c bs enc fs base shift fin sc and c bs enc f pos sc and c bs enc f n k cursor sc and c bs enc f pos sc
    rule: decode_fields_decode_field_decode_items_decode_one.induct)
  case (2 c bs enc f fs base shift fin sc)
  then show ?case
    by (auto simp: panics_rbind Let_def)
next
  case (3 c bs enc f pos sc)
  then show ?case
    using count_calm [of f sc] by (auto simp: panics_rbind split: option.split)
next
  case (5 c bs enc f n k cursor sc)
  then show ?case
    by (auto simp: panics_rbind panics_Inl)
next
  case (6 c bs enc f pos sc)
  show ?case
  proof (cases "\<exists>cs. f_kind f = KGroup cs")
    case True
    then show ?thesis
      using 6 by (auto simp: panics_rbind)
  next
    case False
    then have "decode_one c bs enc f pos sc
        = rbind (slice bs pos (f_width f)) (\<lambda>s. rbind (decode_leaf c f s enc) (\<lambda>v. Ok (v, f_width f, sc)))"
      by (auto split: field_kind.split)
    then show ?thesis
      using leaf_calm [OF False] slice_calm by (auto simp: panics_rbind)
  qed
qed simp_all

lemma decode_calm: "\<not> panics (decode_record c l bs enc)"
  using walk_calm(1)
  by (auto simp: decode_record_def decode_seq_def check_record_len_def panics_rbind panics_Inl)

lemma select_calm: "\<not> panics (select m bs enc)"
  by (auto simp: select_def panics_rbind panics_Inl Let_def split: option.split)

section \<open>Encoding\<close>

text \<open>The scalar values inside a value.\<close>

fun leaves :: "fval \<Rightarrow> fval list" where
  "leaves (VList vs) = concat (map leaves vs)"
| "leaves (VStruct ps) = concat (map (\<lambda>p. leaves (snd p)) ps)"
| "leaves v = [v]"

fun date_formats :: "field \<Rightarrow> rstr list" where
  "date_formats (Field nm off w k occ dep red) =
     (case k of KGroup fs \<Rightarrow> concat (map date_formats fs) | KDateTime kind fmt \<Rightarrow> [fmt] | _ \<Rightarrow> [])"

text \<open>
  What an encoder can be given: chrono renders the value in every format of the layout, and a
  decimal has fewer than 128 decimals.
\<close>

definition renders :: "chrono \<Rightarrow> rstr \<Rightarrow> fval \<Rightarrow> bool" where
  "renders c fmt v =
     (case v of
        VDate d \<Rightarrow> c_format_date c d fmt \<noteq> None
      | VTime t \<Rightarrow> (case time_from_micros c t [] of Inr p \<Rightarrow> c_format_time c p fmt \<noteq> None | Inl e \<Rightarrow> True)
      | VTimestamp t \<Rightarrow> c_format_timestamp c t fmt \<noteq> None
      | _ \<Rightarrow> True)"

definition writable :: "chrono \<Rightarrow> rstr list \<Rightarrow> fval \<Rightarrow> bool" where
  "writable c fmts v = ((case v of VDecimal u s \<Rightarrow> s < 128 | _ \<Rightarrow> True) \<and> (\<forall>fmt \<in> set fmts. renders c fmt v))"

definition writable_tree :: "chrono \<Rightarrow> rstr list \<Rightarrow> fval \<Rightarrow> bool" where
  "writable_tree c fmts v = list_all (writable c fmts) (leaves v)"

lemma ten_power_wraps: "k < 128 \<Longrightarrow> wrap_i128 (10 ^ k) \<noteq> 0"
proof
  assume k: "k < 128" and w: "wrap_i128 (10 ^ k) = 0"
  then have "(10 ^ k + 2 ^ 127) mod 2 ^ 128 = (2 ^ 127 :: int) mod 2 ^ 128"
    by (simp add: wrap_i128_def)
  then have "(2 :: int) ^ 128 dvd 10 ^ k"
    unfolding mod_eq_dvd_iff by simp
  then have "int (2 ^ 128) dvd int (10 ^ k)"
    by simp
  then have "(2 :: nat) ^ 128 dvd 10 ^ k"
    unfolding int_dvd_int_iff .
  also have "(10 :: nat) ^ k = 2 ^ k * 5 ^ k"
    unfolding power_mult_distrib [symmetric] by simp
  finally have "(2 :: nat) ^ 128 dvd 2 ^ k * 5 ^ k" .
  moreover have "coprime (2 :: nat) 5"
    by simp
  then have "coprime ((2 :: nat) ^ 128) (5 ^ k)"
    by (simp only: coprime_power_left_iff coprime_power_right_iff) simp
  ultimately have "(2 :: nat) ^ 128 dvd 2 ^ k"
    using coprime_dvd_mult_left_iff by blast
  then show False
    using k power_dvd_imp_le [of "2 :: nat" 128 k] by simp
qed

lemma rescale_calm: "src < 128 \<Longrightarrow> \<not> panics (rescale u src dst)"
  using ten_power_wraps [of "src - dst"] by (simp add: rescale_def panics_Inl Let_def)

lemma hex_calm: "even (length cs) \<or> (\<exists>c \<in> set cs. to_digit_16 c = None) \<Longrightarrow> \<not> panics (hex_pairs order cs)"
proof (induction order cs rule: hex_pairs.induct)
  case (3 order c d cs)
  then show ?case
    by (auto simp: panics_rbind panics_Inl)
qed (auto simp: panics_rbind panics_Inl)

text \<open>A digit is one byte long, so an even number of bytes is an even number of digits.\<close>

lemma hex_digit_ascii: "to_digit_16 c \<noteq> None \<Longrightarrow> c < 128"
  by (auto simp: to_digit_16_def is_ascii_digit_def split: if_splits)

lemma encode_hex_calm: "\<not> panics (encode_hex s width order)"
proof -
  let ?clean = "filter (\<lambda>c. \<not> is_white c) s"
  have "\<not> panics (hex_pairs order ?clean)" if "even (length (utf8 ?clean))"
  proof (cases "\<exists>c \<in> set ?clean. to_digit_16 c = None")
    case False
    then have "is_ascii ?clean"
      using hex_digit_ascii by (auto simp: is_ascii_def list_all_iff)
    then show ?thesis
      using that hex_calm by (simp add: length_utf8_ascii)
  qed (rule hex_calm, simp)
  then show ?thesis
    by (auto simp: encode_hex_def panics_rbind panics_Inl Let_def)
qed

lemma edited_char_calm: "ds \<noteq> [] \<or> \<not> is_digit_pos c \<Longrightarrow> \<not> panics (edited_char msk neg pad c ds supp)"
  by (auto simp: edited_char_def is_digit_pos_def panics_Inl split: list.splits)

lemma edited_char_left:
  assumes "edited_char m neg pad c ds supp = Inr (out, ds', supp', skip)"
  shows "length ds \<le> length ds' + (if is_digit_pos c then 1 else 0)"
  using edited_char_Ok(3,4) [OF assms] by auto

lemma edited_loop_calm:
  "length (filter is_digit_pos cs) \<le> length ds \<Longrightarrow> \<not> panics (edited_loop msk neg pad cs ds supp)"
proof (induction msk neg pad cs ds supp rule: edited_loop.induct)
  case (2 msk neg pad c cs ds supp)
  have "\<not> panics (edited_char msk neg pad c ds supp)"
    using 2(2) by (intro edited_char_calm) (auto split: if_splits)
  moreover have "\<not> panics (edited_loop msk neg pad (if skip then tl cs else cs) ds' supp')"
    if r: "edited_char msk neg pad c ds supp = Inr (out, ds', supp', skip)" for out ds' supp' skip
  proof -
    have "length (filter is_digit_pos (if skip then tl cs else cs)) \<le> length (filter is_digit_pos cs)"
      by (cases cs) auto
    then have "length (filter is_digit_pos (if skip then tl cs else cs)) \<le> length ds'"
      using 2(2) edited_char_left [OF r] by (auto split: if_splits)
    then show ?thesis
      using 2(1) [OF r] by simp
  qed
  ultimately show ?case
    by (auto simp: panics_rbind)
qed simp

lemma edited_calm: "\<not> panics (edited_encode u msk)"
  by (auto simp: edited_encode_def panics_Inl panics_rbind Let_def edited_loop_calm)

lemma as_decimal_calm: "(case v of VDecimal u s \<Rightarrow> s < 128 | _ \<Rightarrow> True) \<Longrightarrow> \<not> panics (as_decimal v scale)"
  using rescale_calm by (auto simp: as_decimal_def panics_Inl split: fval.splits)

lemma datetime_calm: "renders c fmt v \<Longrightarrow> \<not> panics (datetime_format c v fmt w fld)"
  by (auto simp: renders_def datetime_format_def rendered_def panics_rbind panics_Inl time_from_micros_def Let_def
      split: fval.splits sum.splits option.splits)

lemma write_calm:
  "\<not> panics (encode_display_int n w sgnd sign)" "\<not> panics (encode_display_decimal u precision w sign)"
  "\<not> panics (encode_binary_int n w endian)" "\<not> panics (encode_float x bits endian)"
  "\<not> panics (packed_encode u w sgnd)" "\<not> panics (zoned_encode u w sgnd)" "\<not> panics (justify_pad bs w just pad)"
  "\<not> panics (as_i128 v)" "\<not> panics (as_f64 v)"
proof -
  show int: "\<not> panics (encode_display_int n w sgnd sign)" for n w sgnd sign
    by (auto simp: encode_display_int_def zero_pad_def panics_Inl Let_def split: sign_kind.split)
  show "\<not> panics (encode_display_decimal u precision w sign)"
    using int by (auto simp: encode_display_decimal_def panics_rbind panics_Inl)
  show "\<not> panics (packed_encode u w sgnd)" "\<not> panics (zoned_encode u w sgnd)"
    by (auto simp: packed_encode_def zoned_encode_def panics_Inl Let_def split: prod.split)
qed (auto simp: encode_binary_int_def encode_float_def justify_pad_def as_i128_def as_f64_def panics_Inl split: fval.split)

lemma encode_leaf_calm:
  assumes "\<nexists>cs. f_kind f = KGroup cs" "writable c (date_formats f) v"
  shows "\<not> panics (encode_leaf c f pos buf v enc)"
proof -
  have dec: "\<not> panics (as_decimal v scale)" for scale
    using assms(2) as_decimal_calm by (simp add: writable_def)
  have "renders c fmt v" if "f_kind f = KDateTime kind fmt" for kind fmt
    using assms(2) that by (cases f) (auto simp: writable_def)
  then show ?thesis
    using assms(1) write_calm dec datetime_calm edited_calm encode_hex_calm
    by (auto simp: encode_leaf_def panics_rbind panics_Inl Let_def split: field_kind.split num_repr.split fval.split)
qed

lemma writable_tree_simps [simp]:
  "writable_tree c fmts (VList vs) = list_all (writable_tree c fmts) vs"
  "writable_tree c fmts (VStruct ps) = list_all (\<lambda>p. writable_tree c fmts (snd p)) ps"
  "writable_tree c fmts VNull"
  by (auto simp: writable_tree_def list_all_iff writable_def renders_def)

lemma writable_tree_root: "writable_tree c fmts v \<Longrightarrow> writable c fmts v"
  by (cases v) (auto simp: writable_tree_def writable_def renders_def)

lemma writable_subset: "writable c fmts v \<Longrightarrow> set fmts' \<subseteq> set fmts \<Longrightarrow> writable c fmts' v"
  by (auto simp: writable_def)

lemma lookup_writable: "list_all (\<lambda>p. writable_tree c fmts (snd p)) ps \<Longrightarrow> writable_tree c fmts (lookup_value ps nm)"
  by (induction ps nm rule: lookup_value.induct) auto

lemma nth_writable: "list_all (writable_tree c fmts) vs \<Longrightarrow> writable_tree c fmts (nth_or_null vs i)"
  by (auto simp: nth_or_null_def list_all_length)

lemma formats_children: "f_kind f = KGroup cs \<Longrightarrow> date_formats f = concat (map date_formats cs)"
  by (cases f) simp

lemma encode_walk_calm:
  "set (concat (map date_formats fs)) \<subseteq> set fmts \<Longrightarrow> list_all (\<lambda>p. writable_tree c fmts (snd p)) vs \<Longrightarrow>
   \<not> panics (encode_fields c enc fs base shift fin buf vs)"
  "set (date_formats f) \<subseteq> set fmts \<Longrightarrow> writable_tree c fmts v \<Longrightarrow> \<not> panics (encode_field c enc f pos buf v)"
  "set (date_formats f) \<subseteq> set fmts \<Longrightarrow> list_all (writable_tree c fmts) items \<Longrightarrow> \<not> panics (encode_items c enc f items i k cursor buf)"
  "set (date_formats f) \<subseteq> set fmts \<Longrightarrow> writable_tree c fmts v \<Longrightarrow> \<not> panics (encode_one c enc f pos buf v)"
proof (induction c enc fs base shift fin buf vs and c enc f pos buf v and c enc f items i k cursor buf and c enc f pos buf v
    rule: encode_fields_encode_field_encode_items_encode_one.induct)
  case (2 c enc f fs base shift fin buf vs)
  then show ?case
    using lookup_writable by (auto simp: panics_rbind Let_def)
next
  case (3 c enc f pos buf v)
  have "\<not> panics (encode_count f v)" "\<not> panics (encode_list f v n)" for n
    by (auto simp: encode_count_def encode_list_def panics_Inl split: fval.split)
  moreover have "list_all (writable_tree c fmts) items" if "encode_list f v n = Inr items" for items n
    using that 3(4) by (auto simp: encode_list_def list_all_iff split: fval.splits)
  ultimately show ?case
    using 3 by (auto simp: panics_rbind split: option.split)
next
  case (5 c enc f items i k cursor buf)
  then show ?case
    using nth_writable by (auto simp: panics_rbind)
next
  case (6 c enc f pos buf v)
  show ?case
  proof (cases "\<exists>cs. f_kind f = KGroup cs")
    case True
    then obtain cs where cs: "f_kind f = KGroup cs"
      by blast
    have "\<not> panics (struct_fields f v)"
      by (auto simp: struct_fields_def panics_Inl split: fval.split)
    moreover have "list_all (\<lambda>p. writable_tree c fmts (snd p)) vs" if "struct_fields f v = Inr vs" for vs
      using that 6(3) by (auto simp: struct_fields_def split: fval.splits)
    ultimately show ?thesis
      using 6(1) [OF cs] 6(2) cs by (auto simp: panics_rbind formats_children)
  next
    case False
    then have "encode_one c enc f pos buf v = rmap_value (\<lambda>buf. (buf, f_width f)) (encode_leaf c f pos buf v enc)"
      by (auto split: field_kind.split)
    then show ?thesis
      using encode_leaf_calm [OF False writable_subset [OF writable_tree_root [OF 6(3)] 6(2)]] by simp
  qed
qed simp_all

lemma encode_calm:
  "list_all (\<lambda>p. writable_tree c (concat (map date_formats (l_fields l))) (snd p)) vs \<Longrightarrow> \<not> panics (encode_record c l vs enc)"
  using encode_walk_calm(1) [of "l_fields l" "concat (map date_formats (l_fields l))" c vs enc 0 0 0]
  by (auto simp: encode_record_def encode_seq_def panics_rbind panics_Inl)

section \<open>Reading files\<close>

lemma framing_calm:
  "\<not> panics (rdw_loop data pos)" "\<not> panics (block_loop data pos fin)" "\<not> panics (blocked_loop data pos)"
  "\<not> panics (records data m n)"
proof -
  have len: "\<not> panics (descriptor_len data pos)" for data pos
    by (auto simp: descriptor_len_def panics_Inl Let_def)
  show rdw: "\<not> panics (rdw_loop data pos)" for data pos
    by (induction data pos rule: rdw_loop.induct)
      (subst rdw_loop.simps, auto simp: panics_rbind panics_Inl len Let_def)
  show block: "\<not> panics (block_loop data pos fin)" for data pos fin
    by (induction data pos fin rule: block_loop.induct)
      (subst block_loop.simps, auto simp: panics_rbind panics_Inl len Let_def)
  show blocked: "\<not> panics (blocked_loop data pos)" for data pos
    by (induction data pos rule: blocked_loop.induct)
      (subst blocked_loop.simps, auto simp: panics_rbind panics_Inl len block Let_def)
  show "\<not> panics (records data m n)"
    using rdw blocked by (auto simp: records_def fixed_def rdw_def rdw_blocked_def panics_rbind panics_Inl split: framing.split)
qed

lemma stream_next_calm: "stream_next st = (Some r, st') \<Longrightarrow> \<not> panics r"
  by (induction st rule: stream_next.induct) (auto simp: panics_Inl split: if_splits prod.splits sum.splits)

lemma stream_new_calm: "\<not> panics (stream_new src m n cap)" "\<not> panics (decompress_reader sc src k limit)"
  using framing_calm(4)
  by (auto simp: stream_new_def decompress_reader_def read_error_def panics_rbind panics_Inl
      split: framing.split option.split sum.split compression.split)

text \<open>An error of the worker that wraps a panic of the core.\<close>

definition worker_panic :: "worker_error \<Rightarrow> bool" where
  "worker_panic w =
     (case w of Core e \<Rightarrow> panic_error e | InSource l e \<Rightarrow> panic_error e | InRecord l n e \<Rightarrow> panic_error e
      | Resuming l n e \<Rightarrow> panic_error e | _ \<Rightarrow> False)"

lemma worker_panic_simps [simp]:
  "worker_panic (Core e) = panic_error e"
  "worker_panic (InSource l e) = panic_error e"
  "worker_panic (InRecord l n e) = panic_error e"
  "worker_panic (Resuming l n e) = panic_error e"
  "\<not> worker_panic (ResumeBeyond l n)" "\<not> worker_panic (OpenFailed l ioe)"
  by (simp_all add: worker_panic_def)

lemma calm_error: "\<not> panics r \<Longrightarrow> r = Inl e \<Longrightarrow> \<not> panic_error e"
  by (simp add: panics_Inl)

lemma skip_calm: "skip_records label seen i k st = Inl e \<Longrightarrow> \<not> worker_panic e"
proof (induction label seen i k st rule: skip_records.induct)
  case (2 label seen i k st)
  then show ?case
    using calm_error [OF stream_next_calm [of st]]
    by (auto split: prod.splits option.splits sum.splits)
qed simp

lemma open_calm: "open_stream rc src = Inl e \<Longrightarrow> \<not> worker_panic e"
  using calm_error [OF stream_new_calm(1)] calm_error [OF stream_new_calm(2)]
  by (auto simp: open_stream_def ve_def map_err_def rbind_def split: sum.splits)

lemma current_calm: "current_stream rc p = Inl e \<Longrightarrow> \<not> worker_panic e"
  using open_calm skip_calm by (auto simp: current_stream_def rbind_def split: option.splits sum.splits)

lemma fill_calm:
  "(\<And>bs. \<not> panics (dec bs)) \<Longrightarrow> fill_batch dec rc limit p rows = (Inl e, p') \<Longrightarrow> \<not> worker_panic e"
proof (induction dec rc limit p rows rule: fill_batch.induct)
  case (1 dec rc limit p rows)
  note calm = current_calm stream_next_calm calm_error [OF "1.prems"(1)] calm_error [OF stream_next_calm]
  show ?case
    using "1.prems"(2) "1.IH" [OF _ _ _ refl _ refl] "1.prems"(1) calm
    by (subst (asm) fill_batch.simps) (auto simp: Let_def split: if_splits sum.splits prod.splits option.splits)
qed

lemma multi_row_calm: "\<not> panics (multi_row c m enc bs)"
  using select_calm decode_calm by (auto simp: multi_row_def panics_rbind split: prod.split)

lemma decode_row_calm: "\<not> panics (decode_row c l enc bs)"
  using decode_calm by (simp add: decode_row_def)

lemma next_rows_calm:
  assumes "\<And>bs. \<not> panics (dec bs)"
  shows "case fst (next_rows limit dec rc p) of Inl e \<Rightarrow> \<not> worker_panic e | Inr rows \<Rightarrow> True"
  using fill_calm [OF assms, where limit = limit and rc = rc and p = p and rows = "[]"]
  by (cases "fill_batch dec rc limit p []") (auto simp: next_rows_def split: sum.split)

text \<open>
  Reading never panics: the arm of \<open>decode_one\<close> that is marked unreachable is, and every other step
  of \<open>read_fixed\<close> and \<open>read_multi\<close> refuses what it cannot read with an error, whatever bytes the
  sources hold and whatever the layout.
\<close>

theorem reading_never_panics:
  "(case fst (next_rows limit (decode_row c l enc) rc p) of Inl e \<Rightarrow> \<not> worker_panic e | Inr rows \<Rightarrow> True)
   \<and> (case fst (next_rows limit (multi_row c m enc) rc p) of Inl e \<Rightarrow> \<not> worker_panic e | Inr rows \<Rightarrow> True)"
  by (intro conjI next_rows_calm decode_row_calm multi_row_calm)

text \<open>
  As far as the model goes, which bounds no allocation, encoding a record panics in two situations
  only: chrono cannot render a date, time or timestamp of the values in a format of the layout, or a
  decimal has 128 decimals or more. For all other values, of the type of their field or not, encoding
  gives bytes or an error: the odd digit of a hexadecimal text and the digits that an edit mask asks
  for are never out of bounds. (A layout of more bytes than \<open>isize::MAX\<close>, as that of \<open>a:A9223372036854775808\<close>,
  makes the code panic when it allocates the record.)
\<close>

theorem encoding_panics_only_if:
  assumes "list_all (\<lambda>(n, v). writable_tree c (concat (map date_formats (l_fields l))) v) vs"
  shows "\<not> panics (encode_record c l vs enc)"
  using assms encode_calm by (simp add: case_prod_unfold)

definition mixed_layout :: layout where
  "mixed_layout =
     \<lparr> l_record_len = 14,
       l_fields =
         [Field (lit ''D'') 0 8 (KDateTime DDate (lit ''%F'')) None None None,
          Field (lit ''X'') 8 2 (KHex Big) None None None,
          Field (lit ''N'') 10 4 (KDecimal 6 2 RComp3 SEmbedded) None None None],
       l_variable = False \<rparr>"

lemma encoding_panics_only_if_witness:
  "\<exists>c. \<not> panics (encode_record c mixed_layout
     [(lit ''D'', VDate 0), (lit ''X'', VText (lit ''0ag'')), (lit ''N'', VDecimal 12345 4)] Ascii)"
proof -
  obtain c :: chrono where c: "c_format_date c 0 (lit ''%F'') = Some (lit ''19700101'')"
    using that [of "undefined\<lparr>c_format_date := \<lambda>_ _. Some (lit ''19700101'')\<rparr>"] by simp
  show ?thesis
    by (intro exI [of _ c] encoding_panics_only_if)
      (use c in \<open>simp add: mixed_layout_def writable_tree_def writable_def renders_def\<close>)
qed

text \<open>
  The first situation is reachable: the format of a field is any text, and the formatter refuses,
  for one, the hour of a date.
\<close>

theorem date_panics_iff:
  "panics (encode_record c (Layout.layout.make 8 [Field nm 0 w (KDateTime kind fmt) None None None] False) [(nm, VDate d)] enc)
   \<longleftrightarrow> c_date_in_range c d \<and> c_format_date c d fmt = None"
  by (simp add: encode_record_def Layout.layout.make_def encode_seq_def encode_count_def encode_leaf_def datetime_format_def rendered_def
      eq_ignore_ascii_case_def panics_rbind panics_Inl Let_def split: option.split)

text \<open>
  A decimal that is moved to more decimals is multiplied without a check: 10 to the 37th, which
  has no place in 36 digits before the point, is written to such a field as another number.
\<close>

theorem rescaled_decimal_wraps:
  "(let l = Layout.layout.make 20 [Field [78] 0 20 (KDecimal 38 2 RComp3 SEmbedded) None None None] False in
    rbind (encode_record c l [([78], VDecimal (10 ^ 37) 0)] Ascii) (\<lambda>bs. decode_record c l bs Ascii)
    = Ok [([78], VDecimal (- 20847100762815390390123822295304634368) 2)])"
proof -
  let ?l = "Layout.layout.make 20 [Field [78] 0 20 (KDecimal 38 2 RComp3 SEmbedded) None None None] False"
  let ?w = "VDecimal (- 20847100762815390390123822295304634368) 2"
  have "as_decimal (VDecimal (10 ^ 37) 0) 2 = as_decimal ?w 2"
    by (simp add: as_decimal_def rescale_def wrap_i128_def)
  then have "encode_record c ?l [([78], VDecimal (10 ^ 37) 0)] Ascii = encode_record c ?l [([78], ?w)] Ascii"
    by (simp add: encode_record_def Layout.layout.make_def encode_seq_def encode_count_def encode_leaf_def)
  moreover have "conforms_record c ?l [([78], ?w)]"
    by code_simp
  ultimately show ?thesis
    using encode_decode_record [of c ?l "[([78], ?w)]" Ascii] by (auto simp: Let_def)
qed

end
