(* ===== verification/SpecPanic.thy ===== *)
theory SpecPanic
  imports NoPanic
begin

text \<open>
  Panics of the spec front ends: PICTURE clauses, copybooks and JSON specs never reach one, and
  the template parser reaches the one it has only for a count prefix without a code.
\<close>

section \<open>Copybooks and JSON\<close>

lemma pic_calm: "\<not> panics (parse_pic pic usage sign)"
proof -
  have "\<not> panics (pic_expand pic cs)" for pic cs
    by (induction pic cs rule: pic_expand.induct) (auto simp: panics_rbind panics_Inl Let_def)
  moreover have "\<not> panics (pic_scan pic cs s)" for pic cs s
    by (induction pic cs s rule: pic_scan.induct)
      (auto simp: panics_rbind panics_Inl pic_symbol_def Let_def split: list.split)
  ultimately show ?thesis
    by (auto simp: parse_pic_def pic_shape_parse_def panics_rbind panics_Inl Let_def split: usage.split)
qed

lemma clauses_calm: "\<not> panics (parse_clauses ts cl)"
proof (induction ts cl rule: parse_clauses.induct)
  case (2 t ts cl)
  have calm: "\<not> panics (parse_occurs ts cl)" for ts cl
    by (auto simp: parse_occurs_def panics_rbind panics_Inl Let_def)
  then have "\<not> panics (case parse_occurs ts cl of Inl e \<Rightarrow> Inl e | Inr (cl, ts) \<Rightarrow> parse_clauses ts cl)"
    if "\<And>cl' ts'. parse_occurs ts cl = Inr (cl', ts') \<Longrightarrow> \<not> panics (parse_clauses ts' cl')"
    using that calm [of ts cl] by (cases "parse_occurs ts cl") (auto simp: panics_Inl)
  then show ?case
    using 2 by (subst parse_clauses.simps) (auto simp: Let_def)
qed simp

lemma stmts_calm: "\<not> panics (parse_stmts toks)"
  using clauses_calm by (induction toks) (auto simp: parse_stmt_def panics_rbind panics_Inl Let_def)

lemma nodes_calm: "\<not> panics (layout_nodes nodes depth)" "\<not> panics (layout_loop nodes depth name_off cursor max_end)"
proof (induction nodes depth and nodes depth name_off cursor max_end rule: layout_nodes_layout_loop.induct)
  case (1 nodes depth)
  then show ?case
    by (subst layout_nodes.simps) (auto simp: panics_rbind panics_Inl)
next
  case (3 node nodes depth name_off cursor max_end)
  then show ?case
    using pic_calm
    by (subst layout_loop.simps) (auto simp: panics_rbind panics_Inl elementary_def Let_def
        simp del: layout_nodes.simps layout_loop.simps fun_upd_apply split: option.split)
qed simp

lemma copybook_calm: "\<not> panics (copybook_parse src)"
  using stmts_calm nodes_calm(1)
  by (auto simp: copybook_parse_def copybook_tokenize_def from_fields_def panics_rbind Let_def simp del: layout_nodes.simps)

lemma json_kind_calm: "\<not> panics (json_kind jf)"
proof -
  have "\<not> panics (req_width jf)" "\<not> panics (req_digits jf)" "\<not> panics (req_format jf)" "\<not> panics (parse_justify s)"
    "\<not> panics (parse_pad s p)" "\<not> panics (parse_sign s b)" "\<not> panics (parse_endian s)" for s p b
    by (auto simp: req_width_def req_digits_def req_format_def parse_justify_def parse_pad_def parse_sign_def parse_endian_def
        panics_Inl split: option.split list.split)
  then show ?thesis
    by (auto simp: json_kind_def kind_of_type_def temporal_def panics_rbind panics_Inl Let_def)
qed

lemma json_fields_calm: "\<not> panics (json_fields raw auto depth)" "\<not> panics (json_loop raw auto depth offset)"
proof (induction raw auto depth and raw auto depth offset rule: json_fields_json_loop.induct)
  case (1 raw auto depth)
  then show ?case
    by (subst json_fields.simps) (auto simp: panics_Inl)
next
  case (3 jf raw auto depth offset)
  then show ?case
    using json_kind_calm
    by (subst json_loop.simps) (auto simp: panics_rbind panics_Inl Let_def split: option.split)
qed simp

lemma json_calm: "\<not> panics (json_parse from_str src)"
  using json_fields_calm(1) by (auto simp: json_parse_def from_fields_def panics_rbind panics_Inl Let_def simp del: json_fields.simps)

section \<open>Templates\<close>

text \<open>
  A count prefix needs a code: in \<open>coded\<close> text no \<open>/(\<close> stands where a token body starts, that is at
  the start of the text or after a blank, a colon or an opening parenthesis.
\<close>

definition starts_body :: "rchar \<Rightarrow> bool" where
  "starts_body c \<longleftrightarrow> is_white c \<or> c = ch CHR '':'' \<or> c = ch CHR ''(''"

fun coded_from :: "bool \<Rightarrow> rstr \<Rightarrow> bool" where
  "coded_from fresh (c # d # cs) =
     (\<not> (fresh \<and> c = ch CHR ''/'' \<and> d = ch CHR ''('') \<and> coded_from (starts_body c) (d # cs))"
| "coded_from fresh cs = True"

abbreviation coded :: "rstr \<Rightarrow> bool" where
  "coded s \<equiv> coded_from True s"

lemma coded_from_append:
  "coded_from f (xs @ ys) \<Longrightarrow> coded_from f xs \<and> coded_from (if xs = [] then f else starts_body (last xs)) ys"
proof (induction xs arbitrary: f)
  case (Cons x xs)
  show ?case
  proof (cases "xs @ ys")
    case (Cons y zs)
    then have "coded_from (starts_body x) (xs @ ys)" "\<not> (f \<and> x = ch CHR ''/'' \<and> y = ch CHR ''('')"
      using Cons.prems by simp_all
    then show ?thesis
      using Cons.IH [of "starts_body x"] Cons by (cases xs) auto
  qed simp
qed simp

lemma coded_take: "coded s \<Longrightarrow> coded (take k s)"
  using coded_from_append [of True "take k s" "drop k s"] by simp

lemma coded_drop: "coded s \<Longrightarrow> k = 0 \<or> k \<le> length s \<and> starts_body (s ! (k - 1)) \<Longrightarrow> coded (drop k s)"
  using coded_from_append [of True "take k s" "drop k s"] by (cases k) (auto simp: take_Suc_conv_app_nth id_take_nth_drop [symmetric])

lemma tokenize_coded: "tokenize_loop cs cur depth = Ok ts \<Longrightarrow> coded (cur @ cs) \<Longrightarrow> list_all coded ts"
proof (induction cs cur depth arbitrary: ts rule: tokenize_loop.induct)
  case (2 c cs cur depth)
  show ?case
  proof (cases "is_white c \<and> depth = 0")
    case True
    then have "c \<noteq> ch CHR ''(''" "c \<noteq> ch CHR '')''"
      by (auto simp: is_white_def)
    moreover have "coded cur" "coded cs"
      using 2(7) coded_from_append [of True cur "c # cs"] coded_from_append [of True "cur @ [c]" cs] True
      by (auto simp: starts_body_def)
    ultimately show ?thesis
      using 2 True by (auto split: if_splits)
  qed (use 2 in \<open>auto split: if_splits\<close>)
qed (auto split: if_splits)

lemma tokenize_calm: "\<not> panics (template_tokenize src)"
proof -
  have "\<not> panics (tokenize_loop cs cur depth)" for cs cur depth
    by (induction cs cur depth rule: tokenize_loop.induct) (auto simp: panics_rbind panics_Inl)
  then show ?thesis
    by (simp add: template_tokenize_def)
qed

lemma find_char_found: "find_char c s = Some k \<Longrightarrow> k < length s \<and> s ! k = c"
proof -
  have "c \<in> set s \<Longrightarrow> length (takeWhile (\<lambda>x. x \<noteq> c) s) < length s \<and> s ! length (takeWhile (\<lambda>x. x \<noteq> c) s) = c"
    by (induction s) auto
  then show "find_char c s = Some k \<Longrightarrow> ?thesis"
    by (auto simp: find_char_def split: if_splits)
qed

lemma split_name_coded:
  assumes "split_name token = (nm, body)" "coded token"
  shows "coded body"
proof (cases "find_char (ch CHR '':'') token")
  case (Some k)
  then show ?thesis
    using assms find_char_found [OF Some] coded_drop [of token "k + 1"]
    by (auto simp: split_name_def starts_body_def split: if_splits)
qed (use assms in \<open>simp add: split_name_def\<close>)

lemma find_count_prefix_found:
  "find_count_prefix body = Some idx \<Longrightarrow> idx + 1 < length body \<and> body ! (idx + 1) = ch CHR ''('' \<and> (coded_from f body \<longrightarrow> \<not> (f \<and> idx = 0))"
proof (induction body arbitrary: idx f rule: find_count_prefix.induct)
  case (1 c d cs)
  then show ?case
    by (auto split: if_splits)
qed simp_all

lemma parse_count_calm: "\<not> panics (parse_count rest)"
  by (auto simp: parse_count_def panics_rbind panics_Inl split: option.split)

lemma strip_group_calm: "\<not> panics (strip_group body)"
  using parse_count_calm by (auto simp: strip_group_def panics_rbind panics_Inl)

lemma parse_body_calm: "body \<noteq> [] \<Longrightarrow> \<not> panics (parse_body body order)"
  using parse_count_calm pic_calm
  by (auto simp: parse_body_def panics_rbind panics_Inl Let_def split: list.split option.split prod.split)

lemma inner_coded:
  assumes "coded body" "k < length body" "body ! k = ch CHR ''(''" "strip_group (drop k body) = Ok (inner, count)"
    "template_tokenize inner = Ok ts"
  shows "list_all coded ts"
proof -
  have "coded (drop (k + 1) body)"
    using coded_drop [OF assms(1), of "k + 1"] assms(2,3) by (simp add: starts_body_def)
  then have "coded inner"
    using assms(4) coded_take by (auto simp: strip_group_def)
  then show ?thesis
    using assms(5) tokenize_coded [of inner "[]" 0 ts] by (simp add: template_tokenize_def)
qed

lemma tokens_calm: "list_all coded ts \<Longrightarrow> \<not> panics (parse_tokens ts offset order auto)"
proof (induction ts offset order auto rule: parse_tokens.induct)
  case (2 token tokens offset order auto)
  show ?case
  proof (cases "order_control token")
    case None
    obtain nm body where split: "split_name token = (nm, body)"
      by (cases "split_name token")
    note coded = split_name_coded [OF split]
    show ?thesis
    proof (cases "body = []")
      case ne: False
      show ?thesis
      proof (cases "find_count_prefix body")
        case (Some idx)
        note found = find_count_prefix_found [OF Some, of True]
        have "take idx body \<noteq> []"
          using found coded "2.prems" by auto
        moreover have "list_all coded ts" if "strip_group (drop (idx + 1) body) = Ok (inner, count)" "template_tokenize inner = Ok ts"
          for inner count ts
          using inner_coded [OF _ _ _ that] found coded "2.prems" by auto
        ultimately show ?thesis
          using 2 None split ne Some parse_body_calm [of "take idx body"] strip_group_calm tokenize_calm
          by (subst parse_tokens.simps)
            (auto simp: panics_rbind panics_Inl Let_def simp del: parse_tokens.simps split: prod.split)
      next
        case none: None
        have "list_all coded ts" if "starts_with (lit ''('') body" "strip_group body = Ok (inner, count)" "template_tokenize inner = Ok ts"
          for inner count ts
          using inner_coded [of body 0, OF _ _ _ _ that(3)] that(1,2) ne coded "2.prems"
          by (cases body) (auto simp: starts_with_def)
        then show ?thesis
          using 2 None split ne none parse_body_calm [of body] strip_group_calm tokenize_calm
          by (subst parse_tokens.simps)
            (auto simp: panics_rbind panics_Inl Let_def simp del: parse_tokens.simps split: prod.split)
      qed
    qed (use None split in \<open>simp add: panics_Inl\<close>)
  qed (use 2 in simp)
qed simp

lemma template_calm: "coded src \<Longrightarrow> \<not> panics (template_parse src)"
  using tokens_calm tokenize_calm tokenize_coded [of src "[]" 0]
  by (auto simp: template_parse_def from_fields_def panics_rbind template_tokenize_def)

section \<open>Specs\<close>

lemma spec_calm: "coded spec \<Longrightarrow> \<not> panics (parse_spec sd spec format)"
  using template_calm copybook_calm json_calm
  by (auto simp: parse_spec_def panics_Inl Let_def)

lemma rmap_calm: "list_all (\<lambda>x. \<not> panics (f x)) xs \<Longrightarrow> \<not> panics (rmap f xs)"
  by (induction xs) (auto simp: panics_rbind)

definition coded_entry :: "rstr \<times> json_value \<Rightarrow> bool" where
  "coded_entry entry = (case snd entry of JvString s \<Rightarrow> coded s | JvOther s \<Rightarrow> True)"

lemma variant_calm: "coded_entry entry \<Longrightarrow> \<not> panics (parse_variant sd entry)"
  using spec_calm json_calm
  by (auto simp: parse_variant_def coded_entry_def panics_map_err split: prod.splits json_value.splits)

text \<open>
  C31. Parsing a spec panics only for a template with a count prefix without a code: when no \<open>/(\<close>
  stands at the start of the text or after a blank, a colon or an opening parenthesis, every text
  in every format (given or detected) gives a layout or an error, and so does a spec of several
  record types whose inline specs are of this kind.
\<close>

theorem parsing_panics_only_if:
  assumes "coded spec" "list_all coded_entry (case sd_multi sd src of None \<Rightarrow> [] | Some raw \<Rightarrow> rs_records raw)"
  shows "\<not> panics (parse_spec sd spec format) \<and> \<not> panics (multi_parse sd src)"
proof
  show "\<not> panics (parse_spec sd spec format)"
    using assms(1) by (rule spec_calm)
  show "\<not> panics (multi_parse sd src)"
  proof (cases "sd_multi sd src")
    case (Some raw)
    then have "\<not> panics (rmap (parse_variant sd) (rs_records raw))"
      using assms(2) variant_calm by (intro rmap_calm) (auto simp: list_all_iff)
    then show ?thesis
      using Some by (auto simp: multi_parse_def panics_rbind panics_Inl split: option.split)
  qed (simp add: multi_parse_def panics_Inl)
qed

lemma parsing_panics_only_if_witness:
  "\<exists>sd. \<not> panics (parse_spec sd (lit ''n:9(3) lines:C/(sku:A3 H2)'') None)
     \<and> \<not> panics (multi_parse sd (lit ''{}''))"
proof -
  obtain sd :: serde where "sd_multi sd (lit ''{}'') = Some
      \<lparr> rs_offset = 0, rs_width = 1, rs_records = [(lit ''H'', JvString (lit ''t:A1 (a:C)2''))], rs_default = None \<rparr>"
    using that [of "undefined\<lparr> sd_multi := \<lambda>_. Some
      \<lparr> rs_offset = 0, rs_width = 1, rs_records = [(lit ''H'', JvString (lit ''t:A1 (a:C)2''))], rs_default = None \<rparr> \<rparr>"] by simp
  then show ?thesis
    by (intro exI [of _ sd] parsing_panics_only_if) (simp_all add: coded_entry_def starts_body_def is_white_def)
qed

text \<open>
  Without a code the parser indexes the empty text: the detected format of this spec is a
  template, and parsing it panics.
\<close>

theorem bare_count_prefix_panics: "panics (parse_spec sd (lit ''lines:/(sku:A3)'') None)"
  by code_simp

end
