(* ===== verification/Locality.thy ===== *)
theory Locality
  imports Scan RoundTrip
begin

text \<open>
  What a result depends on: decoding a record depends on its bytes up to the end of the fields
  only, and a failing read reports the first record that cannot be read or decoded, by its number
  in its source, whatever comes after it.
\<close>

section \<open>The bytes of a record\<close>

abbreviation same_upto :: "nat \<Rightarrow> bytes \<Rightarrow> bytes \<Rightarrow> bool" where
  "same_upto n bs bs' \<equiv> take n bs' = take n bs"

lemma same_upto_less: "same_upto n bs bs' \<Longrightarrow> m \<le> n \<Longrightarrow> same_upto m bs bs'"
  by (metis min.absorb_iff1 take_take)

lemma same_upto_fits: "same_upto n bs bs' \<Longrightarrow> m \<le> n \<Longrightarrow> m \<le> length bs' \<longleftrightarrow> m \<le> length bs"
  by (metis length_take min.bounded_iff)

lemma slice_upto: "same_upto n bs bs' \<Longrightarrow> pos + w \<le> n \<Longrightarrow> slice bs' pos w = slice bs pos w"
  using same_upto_fits [of n bs bs' "pos + w"] same_upto_less [of n bs bs' "pos + w"] take_drop [of w pos bs] take_drop [of w pos bs']
  by (simp add: slice_def get_slice_def add.commute)

lemma walk_upto:
  "decode_fields c bs enc fs base shift fin sc = Ok (out, fin', sc') \<Longrightarrow>
   fin \<le> fin' \<and> (same_upto fin' bs bs' \<longrightarrow> decode_fields c bs' enc fs base shift fin sc = Ok (out, fin', sc'))"
  "decode_field c bs enc f pos sc = Ok (v, consumed, sc') \<Longrightarrow>
   same_upto (pos + consumed) bs bs' \<Longrightarrow> decode_field c bs' enc f pos sc = Ok (v, consumed, sc')"
  "decode_items c bs enc f n k cursor sc = Ok (items, cursor', sc') \<Longrightarrow>
   cursor \<le> cursor' \<and> (same_upto cursor' bs bs' \<longrightarrow> decode_items c bs' enc f n k cursor sc = Ok (items, cursor', sc'))"
  "decode_one c bs enc f pos sc = Ok (v, consumed, sc') \<Longrightarrow>
   same_upto (pos + consumed) bs bs' \<Longrightarrow> decode_one c bs' enc f pos sc = Ok (v, consumed, sc')"
proof (induction c bs enc fs base shift fin sc and c bs enc f pos sc and c bs enc f n k cursor sc and c bs enc f pos sc
    arbitrary: out fin' sc' and v consumed sc' and items cursor' sc' and v consumed sc'
    rule: decode_fields_decode_field_decode_items_decode_one.induct)
  case (2 c bs enc f fs base shift fin sc)
  let ?pos = "base + f_offset f + shift"
  obtain v consumed sc1 where d: "decode_field c bs enc f ?pos sc = Ok (v, consumed, sc1)"
    using 2(4) by (auto simp: Let_def)
  let ?shift = "shift + (consumed - reserved_width f)" and ?fin = "max fin (?pos + consumed)"
  have same: "same_upto n bs bs' \<Longrightarrow> ?pos + consumed \<le> n \<Longrightarrow> decode_field c bs' enc f ?pos sc = Ok (v, consumed, sc1)" for n
    using 2(1) [OF refl d] same_upto_less by blast
  show ?case
  proof (cases "is_pad f")
    case True
    then have r: "decode_fields c bs enc fs base ?shift ?fin sc1 = Ok (out, fin', sc')"
      using 2(4) d by (simp add: Let_def)
    then show ?thesis
      using 2(2) [OF refl d [THEN trans, OF refl] _ _ refl refl True r] same True by (auto simp: Let_def)
  next
    case False
    then obtain out' where r: "decode_fields c bs enc fs base ?shift ?fin (scope_insert f v sc1) = Ok (out', fin', sc')"
      and out: "out = (f_name f, v) # out'"
      using 2(4) d by (auto simp: Let_def)
    then show ?thesis
      using 2(3) [OF refl d _ _ refl refl False r] same False by (auto simp: Let_def)
  qed
next
  case (3 c bs enc f pos sc)
  then obtain count where n: "decode_count f sc = Ok count"
    by auto
  show ?case
  proof (cases count)
    case None
    then show ?thesis
      using 3 n by simp
  next
    case (Some k)
    then obtain items cursor where r: "decode_items c bs enc f k k pos sc = Ok (items, cursor, sc')" "v = VList items" "consumed = cursor - pos"
      using 3(3) n by auto
    then have "pos \<le> cursor" "same_upto cursor bs bs' \<Longrightarrow> decode_items c bs' enc f k k pos sc = Ok (items, cursor, sc')"
      using 3(2) [OF n Some r(1)] by blast+
    then show ?thesis
      using 3(4) n Some r(2,3) by simp
  qed
next
  case (5 c bs enc f n k cursor sc)
  obtain v consumed sc1 where d: "decode_one c bs enc f cursor sc = Ok (v, consumed, sc1)" "consumed \<noteq> 0"
    using 5(3) by (auto split: if_splits)
  then obtain items' where r: "decode_items c bs enc f n k (cursor + consumed) sc1 = Ok (items', cursor', sc')" "items = v # items'"
    using 5(3) by auto
  have IH: "cursor + consumed \<le> cursor'" "same_upto cursor' bs bs' \<Longrightarrow> decode_items c bs' enc f n k (cursor + consumed) sc1 = Ok (items', cursor', sc')"
    using 5(2) [OF d(1) refl refl d(2) r(1)] by blast+
  moreover have "same_upto cursor' bs bs' \<Longrightarrow> decode_one c bs' enc f cursor sc = Ok (v, consumed, sc1)"
    using 5(1) [OF d(1)] same_upto_less IH(1) by blast
  ultimately show ?case
    using d(2) r(2) by auto
next
  case (6 c bs enc f pos sc)
  show ?case
  proof (cases "\<exists>cs. f_kind f = KGroup cs")
    case True
    then obtain cs where cs: "f_kind f = KGroup cs"
      by blast
    then obtain pairs fin where r: "decode_fields c bs enc cs pos 0 pos sc = Ok (pairs, fin, sc')" "v = VStruct pairs" "consumed = fin - pos"
      using 6(2) by auto
    then have "pos \<le> fin" "same_upto fin bs bs' \<Longrightarrow> decode_fields c bs' enc cs pos 0 pos sc = Ok (pairs, fin, sc')"
      using 6(1) [OF cs r(1)] by blast+
    then show ?thesis
      using 6(3) cs r(2,3) by simp
  next
    case False
    then have leaf: "decode_one c bs enc f pos sc
        = rbind (slice bs pos (f_width f)) (\<lambda>s. rbind (decode_leaf c f s enc) (\<lambda>v. Ok (v, f_width f, sc)))" for bs
      by (auto split: field_kind.split)
    have "consumed = f_width f"
      using 6(2) unfolding leaf by auto
    then show ?thesis
      using 6(2) slice_upto [OF 6(3)] unfolding leaf by simp
  qed
qed simp_all

text \<open>
  C32. Decoding depends on the fields only: the walk over a record ends at some byte, and any other
  record with the same bytes up to there, or up to the record length if that is longer, decodes to
  the same values, whatever follows. So padding and filler behind the last field have no influence,
  with tables of variable length too.
\<close>

theorem decoding_depends_on_extent:
  assumes "decode_record c l bs enc = Ok vs"
  shows "\<exists>n sc. decode_seq c bs enc (l_fields l) 0 Map.empty = Ok (vs, n, sc) \<and>
    (\<forall>bs'. take (max n (l_record_len l)) bs' = take (max n (l_record_len l)) bs \<longrightarrow> decode_record c l bs' enc = Ok vs)"
proof -
  obtain n sc where d: "decode_fields c bs enc (l_fields l) 0 0 0 Map.empty = Ok (vs, n, sc)"
    and len: "l_variable l \<or> l_record_len l \<le> length bs"
    using assms by (auto simp: decode_record_def decode_seq_def check_record_len_def split: if_splits)
  have "decode_record c l bs' enc = Ok vs" if same: "same_upto (max n (l_record_len l)) bs bs'" for bs'
    using walk_upto(1) [OF d, of bs'] same_upto_less [OF same, of n] same_upto_fits [OF same, of "l_record_len l"] len
    by (auto simp: decode_record_def decode_seq_def check_record_len_def)
  then show ?thesis
    using d by (auto simp: decode_seq_def)
qed

definition table_layout :: layout where
  "table_layout =
     \<lparr> l_record_len = 1,
       l_fields = [Field [78] 0 1 (KBinary Big False) None None None,
                   Field [84] 1 1 (KBinary Big False) None (Some [110]) None],
       l_variable = True \<rparr>"

theorem decoding_depends_on_extent_witness:
  "\<exists>c. decode_record c table_layout [2, 5, 6, 0xFF, 0xFF] Ascii = Ok [([78], VInt 2), ([84], VList [VInt 5, VInt 6])]"
proof -
  fix c
  have "decode_record c table_layout [2, 5, 6, 0] Ascii = Ok [([78], VInt 2), ([84], VList [VInt 5, VInt 6])]"
    by code_simp
  moreover have "rmap_value (\<lambda>(vs, n, sc). n) (decode_seq c [2, 5, 6, 0] Ascii (l_fields table_layout) 0 Map.empty) = Ok 3"
    "l_record_len table_layout = 1"
    by code_simp+
  ultimately show ?thesis
    using decoding_depends_on_extent [of c table_layout "[2, 5, 6, 0]" Ascii] by (intro exI [of _ c]) (auto simp: rmap_value_def)
qed

section \<open>Errors name their record\<close>

text \<open>The state of a stream that has delivered the given records.\<close>

fun after_records :: "stream_state \<Rightarrow> bytes list \<Rightarrow> stream_state option" where
  "after_records st [] = Some st"
| "after_records st (r # rs) =
     (case stream_next st of (Some (Inr b), st') \<Rightarrow> if b = r then after_records st' rs else None | _ \<Rightarrow> None)"

text \<open>The failure of the next record, the \<open>n\<close>-th of its source: it cannot be read or not be decoded.\<close>

definition failure :: "(bytes \<Rightarrow> error + 'row) \<Rightarrow> rstr \<Rightarrow> nat \<Rightarrow> stream_state \<Rightarrow> worker_error option" where
  "failure dec label n st =
     (case stream_next st of
        (Some (Inl e), _) \<Rightarrow> Some (InSource label e)
      | (Some (Inr b), _) \<Rightarrow> (case dec b of Inl e \<Rightarrow> Some (InRecord label n e) | Inr row \<Rightarrow> None)
      | (None, _) \<Rightarrow> None)"

lemma read_source_failure:
  "after_records st recs = Some st' \<Longrightarrow> rmap dec recs = Ok rows \<Longrightarrow> failure dec label (i + length recs + 1) st' = Some err \<Longrightarrow>
   read_source dec label i st = Inl err"
proof (induction recs arbitrary: st i rows)
  case Nil
  then show ?case
    by (subst read_source.simps) (auto simp: failure_def map_err_def split: prod.splits option.splits sum.splits)
next
  case (Cons r recs)
  then obtain st1 row rows' where "stream_next st = (Some (Inr r), st1)" "after_records st1 recs = Some st'"
    "dec r = Ok row" "rmap dec recs = Ok rows'"
    by (auto split: prod.splits option.splits sum.splits if_splits)
  then show ?case
    using Cons.IH [of st1 rows' "i + 1"] Cons.prems(3) by (subst read_source.simps) (simp add: map_err_def)
qed

lemma read_sources_append:
  "read_sources dec rc xs = Inr rows \<Longrightarrow> read_sources dec rc (xs @ ys) = rmap_value ((@) rows) (read_sources dec rc ys)"
proof (induction xs arbitrary: rows)
  case Nil
  then show ?case
    by (cases "read_sources dec rc ys") (simp_all add: rmap_value_def)
next
  case (Cons x xs)
  then show ?case
    by (cases "read_sources dec rc ys") (fastforce simp: rmap_value_def)+
qed

text \<open>
  C33. A failing read names the record at fault: when all sources before one can be read, and of that
  one the first records can be read and decoded but the next one cannot, then reading everything at
  once and reading batch by batch both end with the error of that record, with the label of its
  source and its number there, however the records fall into batches and whatever comes after.
\<close>

theorem first_failure_is_reported:
  assumes "rc_sources rc = xs @ src # ys" "read_sources dec rc xs = Inr done" "open_stream rc src = Inr st"
    "after_records st recs = Some st'" "rmap dec recs = Ok rows" "failure dec (fst src) (length recs + 1) st' = Some err"
  shows "read_sources dec rc (rc_sources rc) = Inl err \<and>
    (\<exists>k. \<forall>fuel > k. run_batches (next_batch dec rc) fuel start_producer = Some (Inl err))"
proof -
  have "read_source dec (fst src) 0 st = Inl err"
    using read_source_failure [OF assms(4,5), of "fst src" 0] assms(6) by simp
  then have "read_sources dec rc (rc_sources rc) = Inl err"
    using read_sources_append [OF assms(2), of "src # ys"] assms(1,3) by (simp add: rmap_value_def)
  then show ?thesis
    using batches_read_sources [of dec rc] by auto
qed

definition digit_layout :: layout where
  "digit_layout =
     \<lparr> l_record_len = 1, l_fields = [Field [68] 0 1 (KInt False SUnsigned) None None None], l_variable = False \<rparr>"

definition digit_files :: read_config where
  "digit_files = sample_config\<lparr> rc_rec_len := 1, rc_framing := Newline,
     rc_sources := [([97], Inr [Piece 49 [10, 50]]), ([98], Inr [Piece 51 [10, 120], Piece 10 [52], Fail (IoFailure [])])] \<rparr>"

theorem first_failure_is_reported_witness:
  "\<exists>c k. \<forall>fuel > k. run_batches (next_batch (decode_row c digit_layout Ascii) digit_files) fuel start_producer
     = Some (Inl (InRecord [98] 2 (InvalidNumeric [120])))"
proof -
  fix c
  let ?dec = "decode_row c digit_layout Ascii" and ?src = "([98 :: nat], Inr [Piece (51 :: 8 word) [10, 120], Piece 10 [52], Fail (IoFailure [])])"
  let ?st = "\<lambda>es. SNewline es False (max_record_bytes default_limits)"
  have srcs: "rc_sources digit_files = [([97], Inr [Piece 49 [10, 50]])] @ ?src # []"
    by (simp add: digit_files_def)
  have pre: "read_sources ?dec digit_files [([97], Inr [Piece 49 [10, 50]])] = Inr [[VInt 1], [VInt 2]]"
    by code_simp
  have st: "open_stream digit_files ?src = Inr (?st [Piece 51 [10, 120], Piece 10 [52], Fail (IoFailure [])])"
    "after_records (?st [Piece 51 [10, 120], Piece 10 [52], Fail (IoFailure [])]) [[51]] = Some (?st [Piece 120 [], Piece 10 [52], Fail (IoFailure [])])"
    by code_simp+
  have rows: "rmap ?dec [[51]] = Ok [[VInt 3]]"
    by code_simp
  have "?dec [120] = Err (InvalidNumeric [120])"
    by code_simp
  moreover have "stream_next (?st [Piece 120 [], Piece 10 [52], Fail (IoFailure [])]) = (Some (Inr [120]), ?st [Piece 52 [], Fail (IoFailure [])])"
    by code_simp
  ultimately have "failure ?dec (fst ?src) (length [[51 :: 8 word]] + 1) (?st [Piece 120 [], Piece 10 [52], Fail (IoFailure [])]) = Some (InRecord [98] 2 (InvalidNumeric [120]))"
    by (simp add: failure_def)
  then show ?thesis
    using first_failure_is_reported [OF srcs pre st rows] by blast
qed

end
