(* ===== verification/Examples.thy ===== *)
theory Examples
  imports Specs
begin

text \<open>
  The example queries of the catalog (\<open>vgi.example_queries\<close> and \<open>vgi.executable_examples\<close> of
  \<open>lib.rs\<close> and \<open>scalar/\<close>), run on the model, and which text in EBCDIC survives.
\<close>

section \<open>Queries\<close>

text \<open>
  A call of \<open>unpack_fixed\<close>, a call of \<open>pack_fixed\<close>, and packing what was unpacked, each with its spec
  and its byte encoding.
\<close>

datatype example =
    Unpack bytes rstr encoding
  | Pack pairs rstr encoding
  | Repack bytes rstr encoding

datatype outcome = Row pairs | Blob bytes

definition unpack_fixed :: "serde \<Rightarrow> chrono \<Rightarrow> bytes \<Rightarrow> rstr \<Rightarrow> encoding \<Rightarrow> error + pairs" where
  "unpack_fixed sd c rec spec enc = rbind (parse_spec sd spec None) (\<lambda>l. decode_record c l rec enc)"

definition pack_fixed :: "serde \<Rightarrow> chrono \<Rightarrow> pairs \<Rightarrow> rstr \<Rightarrow> encoding \<Rightarrow> error + bytes" where
  "pack_fixed sd c vs spec enc = rbind (parse_spec sd spec None) (\<lambda>l. encode_record c l vs enc)"

definition run_example :: "serde \<Rightarrow> chrono \<Rightarrow> example \<Rightarrow> error + outcome" where
  "run_example sd c ex =
     (case ex of
        Unpack rec spec enc \<Rightarrow> rmap_value Row (unpack_fixed sd c rec spec enc)
      | Pack vs spec enc \<Rightarrow> rmap_value Blob (pack_fixed sd c vs spec enc)
      | Repack rec spec enc \<Rightarrow> rbind (unpack_fixed sd c rec spec enc) (\<lambda>vs. rmap_value Blob (pack_fixed sd c vs spec enc)))"

definition text_bytes :: "string \<Rightarrow> bytes" where
  "text_bytes s = utf8 (lit s)"

definition text_pair :: "string \<Rightarrow> string \<Rightarrow> rstr \<times> fval" where
  "text_pair nm s = (lit nm, VText (lit s))"

section \<open>The examples\<close>

definition unpack_examples :: "example list" where
  "unpack_examples =
     [Unpack (text_bytes ''JohnDoe 12345'') (lit ''A8 A5'') Ascii,
      Unpack (text_bytes ''ACME      NY 100'') (lit ''A10 A3 A3'') Ascii]"

definition unpack_examples_with_encoding :: "example list" where
  "unpack_examples_with_encoding =
     [Unpack (text_bytes ''JohnDoe 12345'') (lit ''A8 A5'') Ascii,
      Unpack (text_bytes ''JohnDoe '' @ [0, 0, 0, 0x2A]) (lit ''A8 N'') Ebcdic]"

definition pack_examples :: "example list" where
  "pack_examples =
     [Pack [text_pair ''name'' ''Jo'', text_pair ''code'' ''X1''] (lit ''A2 A2'') Ascii,
      Repack (text_bytes ''JohnDoe 12345'') (lit ''A8 A5'') Ascii]"

definition pack_examples_with_encoding :: "example list" where
  "pack_examples_with_encoding =
     [Pack [text_pair ''name'' ''Jo'', (lit ''id'', VInt 7)] (lit ''A2 N'') Ebcdic,
      Repack (text_bytes ''Jo'' @ [0, 0, 0, 7]) (lit ''A2 N'') Ebcdic]"

definition schema_examples :: "example list" where
  "schema_examples =
     [Unpack (text_bytes ''JohnDoe  00042'') (lit ''A8 N'') Ascii,
      Pack [text_pair ''name'' ''Jo'', (lit ''id'', VInt 7)] (lit ''A2 N'') Ascii]"

definition executable_examples :: "example list" where
  "executable_examples =
     [Unpack (text_bytes ''JohnDoe  00042'') (lit ''name:A8 qty:9(5)'') Ascii,
      Repack (text_bytes ''JohnDoe  00042'') (lit ''name:A8 qty:9(5)'') Ascii]"

text \<open>
  What the example queries of the catalog give, each computed by the model. Eight of them do what
  their descriptions say or show, four do not: the three structs with fields of other names are
  refused, since the fields of the specs are unnamed; text of an ASCII record read as EBCDIC is not
  the name it shows; packing what was unpacked under EBCDIC is refused, because the text is not
  ASCII; and the executable round trip gives another record than it started from, since the quantity
  does not start where the spec puts it.
\<close>

theorem catalog_examples:
  "map (run_example sd c) unpack_examples =
     [Ok (Row [text_pair ''field_1'' ''JohnDoe'', text_pair ''field_2'' ''12345'']),
      Ok (Row [text_pair ''field_1'' ''ACME'', text_pair ''field_2'' ''NY'', text_pair ''field_3'' ''100''])] \<and>
   map (run_example sd c) unpack_examples_with_encoding =
     [Ok (Row [text_pair ''field_1'' ''JohnDoe'', text_pair ''field_2'' ''12345'']),
      Ok (Row [(lit ''field_1'', VText [65533, 63, 65533, 62, 65533, 63, 65533, 65533]), (lit ''field_2'', VInt 42)])] \<and>
   map (run_example sd c) pack_examples =
     [Err (MissingFields [lit ''field_1'', lit ''field_2''] [lit ''name'', lit ''code'']), Ok (Blob (text_bytes ''JohnDoe 12345''))] \<and>
   map (run_example sd c) pack_examples_with_encoding =
     [Err (MissingFields [lit ''field_1'', lit ''field_2''] [lit ''name'', lit ''id'']), Err (TextNoFit 4 2)] \<and>
   map (run_example sd c) schema_examples =
     [Ok (Row [text_pair ''field_1'' ''JohnDoe'', (lit ''field_2'', VInt 540028976)]),
      Err (MissingFields [lit ''field_1'', lit ''field_2''] [lit ''name'', lit ''id''])] \<and>
   map (run_example sd c) executable_examples =
     [Ok (Row [text_pair ''name'' ''JohnDoe'', (lit ''qty'', VInt 4)]), Ok (Blob (text_bytes ''JohnDoe 00004''))]"
proof (intro conjI)
  show "map (run_example sd c) unpack_examples =
     [Ok (Row [text_pair ''field_1'' ''JohnDoe'', text_pair ''field_2'' ''12345'']),
      Ok (Row [text_pair ''field_1'' ''ACME'', text_pair ''field_2'' ''NY'', text_pair ''field_3'' ''100''])]"
    by code_simp
  show "map (run_example sd c) unpack_examples_with_encoding =
     [Ok (Row [text_pair ''field_1'' ''JohnDoe'', text_pair ''field_2'' ''12345'']),
      Ok (Row [(lit ''field_1'', VText [65533, 63, 65533, 62, 65533, 63, 65533, 65533]), (lit ''field_2'', VInt 42)])]"
    by code_simp
  show "map (run_example sd c) pack_examples =
     [Err (MissingFields [lit ''field_1'', lit ''field_2''] [lit ''name'', lit ''code'']), Ok (Blob (text_bytes ''JohnDoe 12345''))]"
    by code_simp
  show "map (run_example sd c) pack_examples_with_encoding =
     [Err (MissingFields [lit ''field_1'', lit ''field_2''] [lit ''name'', lit ''id'']), Err (TextNoFit 4 2)]"
    by code_simp
  show "map (run_example sd c) schema_examples =
     [Ok (Row [text_pair ''field_1'' ''JohnDoe'', (lit ''field_2'', VInt 540028976)]),
      Err (MissingFields [lit ''field_1'', lit ''field_2''] [lit ''name'', lit ''id''])]"
    by code_simp
  show "map (run_example sd c) executable_examples =
     [Ok (Row [text_pair ''name'' ''JohnDoe'', (lit ''qty'', VInt 4)]), Ok (Blob (text_bytes ''JohnDoe 00004''))]"
    by code_simp
qed

section \<open>Text in EBCDIC\<close>


text \<open>
  The letter e with acute, 0x51 in code page 037, is decoded to U+FFFD in a field of one byte, which
  does not fit; two bytes that happen to transcode to the UTF-8 form of the letter come back.
\<close>

theorem acute_text:
  "(let l = Layout.layout.make 1 [Field nm 0 1 (KText JLeft False 32) None None None] False in
      decode_record c l [0x51] Ebcdic = Ok [(nm, VText [0xFFFD])] \<and>
      encode_record c l [(nm, VText [0xFFFD])] Ebcdic = Err (TextNoFit 3 1)) \<and>
   (let l = Layout.layout.make 2 [Field nm 0 2 (KText JLeft False 32) None None None] False in
      decode_record c l [0x66, 0xB4] Ebcdic = Ok [(nm, VText [0xE9])] \<and>
      encode_record c l [(nm, VText [0xE9])] Ebcdic = Ok [0x66, 0xB4])"
proof -
  have "utf8_lossy (map to_ascii_byte [0x51]) = [0xFFFD]" "utf8_lossy (map to_ascii_byte [0x66, 0xB4]) = [0xE9]"
    "length (utf8 [0xFFFD]) = 3" "length (utf8 [0xE9]) = 2" "map to_ebcdic_byte (utf8 [0xE9]) = [0x66, 0xB4]"
    by code_simp+
  then show ?thesis
    by (simp add: Layout.layout.make_def decode_record_def decode_seq_def check_record_len_def decode_count_def slice_def get_slice_def
        decode_leaf_def to_ascii_def is_pad_def decode_slice_def encode_record_def encode_seq_def encode_count_def encode_leaf_def
        justify_pad_def maybe_ebcdic_def eq_ignore_ascii_case_def encode_slice_def put_def ensure_def Let_def)
qed

end
