(* ===== verification/Registry.thy ===== *)
theory Registry
  imports Declared
begin

text \<open>
  What a worker consists of (\<open>build_worker\<close> and \<open>catalog_name\<close> of \<open>lib.rs\<close>, and the \<open>register\<close>
  functions of \<open>scalar/\<close>, \<open>table/\<close>, \<open>buffering/\<close>, \<open>copy_from.rs\<close> and \<open>copy_to.rs\<close>): the functions and
  formats in the order of their registration, with the arguments they declare.
\<close>

section \<open>Registration\<close>

datatype entry_kind = ScalarFunction | TableFunction | BufferingFunction | CopyFromFormat | CopyToFormat

record entry =
  en_kind :: entry_kind
  en_name :: rstr
  en_args :: "arg_spec list"

definition entry_of :: "entry_kind \<Rightarrow> string \<Rightarrow> arg_spec list \<Rightarrow> entry" where
  "entry_of kind nm args = \<lparr> en_kind = kind, en_name = lit nm, en_args = args \<rparr>"

definition register_scalars :: "entry list" where
  "register_scalars =
     [entry_of ScalarFunction ''unpack_fixed'' (unpack_args False),
      entry_of ScalarFunction ''unpack_fixed'' (unpack_args True),
      entry_of ScalarFunction ''pack_fixed'' (pack_args False),
      entry_of ScalarFunction ''pack_fixed'' (pack_args True),
      entry_of ScalarFunction ''unpack_multi'' (unpack_multi_args False),
      entry_of ScalarFunction ''unpack_multi'' (unpack_multi_args True)]"

definition register_tables :: "entry list" where
  "register_tables =
     [entry_of TableFunction ''read_fixed'' read_fixed_args,
      entry_of TableFunction ''read_multi'' read_multi_args,
      entry_of TableFunction ''describe_fixed'' describe_fixed_args,
      entry_of TableFunction ''describe_multi'' describe_multi_args]"

definition register_buffering :: "entry list" where
  "register_buffering =
     [entry_of BufferingFunction ''write_fixed'' write_fixed_args,
      entry_of BufferingFunction ''write_multi'' write_multi_args]"

definition register_copy_from :: "entry list" where
  "register_copy_from = [entry_of CopyFromFormat ''fixed'' copy_from_args]"

definition register_copy_to :: "entry list" where
  "register_copy_to = [entry_of CopyToFormat ''fixed_out'' copy_to_args]"

text \<open>The variables of the process: \<open>None\<close> inside is a value that is not Unicode.\<close>

type_synonym variables = "rstr \<rightharpoonup> rstr option"

definition catalog_name :: "variables \<Rightarrow> rstr \<times> variables" where
  "catalog_name vars =
     (let key = lit ''VGI_WORKER_CATALOG_NAME'';
          vars = (if vars key = None then vars(key \<mapsto> Some (lit ''fixed'')) else vars)
      in (case vars key of Some (Some s) \<Rightarrow> s | _ \<Rightarrow> lit ''fixed'', vars))"

record worker =
  wk_entries :: "entry list"
  wk_catalog :: rstr

definition build_worker :: "variables \<Rightarrow> worker \<times> variables" where
  "build_worker vars =
     (case catalog_name vars of (nm, vars) \<Rightarrow>
       (\<lparr> wk_entries = register_scalars @ register_tables @ register_buffering @ register_copy_from @ register_copy_to,
          wk_catalog = nm \<rparr>, vars))"

section \<open>Facts\<close>

definition positional :: "entry \<Rightarrow> int list" where
  "positional e = filter (\<lambda>p. 0 \<le> p) (map as_pos (en_args e))"

text \<open>
  The overloads of a function differ in their number of positional arguments, which are numbered
  from 0 without gaps; argument names of an entry are distinct.
\<close>

lemma entries_resolve:
  "(let es = wk_entries (fst (build_worker vars)) in
    distinct (map (\<lambda>e. (en_kind e, en_name e, length (positional e))) es) \<and>
    list_all (\<lambda>e. positional e = map int [0..<length (positional e)] \<and> distinct (map as_name (en_args e))) es)"
proof -
  have "distinct (map (\<lambda>e. (en_kind e, en_name e, length (positional e)))
      (register_scalars @ register_tables @ register_buffering @ register_copy_from @ register_copy_to))"
    by code_simp
  moreover have "list_all (\<lambda>e. positional e = map int [0..<length (positional e)] \<and> distinct (map as_name (en_args e)))
      (register_scalars @ register_tables @ register_buffering @ register_copy_from @ register_copy_to)"
    by code_simp
  ultimately show ?thesis
    by (simp add: build_worker_def Let_def split: prod.split)
qed

lemma catalog_name_stable: "catalog_name (snd (catalog_name vars)) = catalog_name vars"
  by (simp add: catalog_name_def Let_def)

end
