(* ===== verification/Crypto.thy ===== *)
theory Crypto
  imports Prelude
begin

text \<open>
  The crypto provider of the browser build (\<open>wasm/crypto.rs\<close>): contexts that collect data in pieces
  and give a digest or a MAC. The hash functions are those of the crates \<open>sha2\<close> and \<open>hmac\<close>, a
  parameter: a fresh state, absorbing data, and the result.
\<close>

section \<open>The hash crates\<close>

record 'h hash_lib =
  hl_sha :: 'h
  hl_hmac :: "bytes \<Rightarrow> 'h"
  hl_update :: "'h \<Rightarrow> bytes \<Rightarrow> 'h"
  hl_finalize :: "'h \<Rightarrow> bytes"

text \<open>What the crates promise: the result depends on the data only, not on its pieces.\<close>

definition hash_laws :: "'h hash_lib \<Rightarrow> (bytes \<Rightarrow> bytes) \<Rightarrow> (bytes \<Rightarrow> bytes \<Rightarrow> bytes) \<Rightarrow> bool" where
  "hash_laws lib sha mac \<longleftrightarrow>
     (\<forall>ds. hl_finalize lib (foldl (hl_update lib) (hl_sha lib) ds) = sha (concat ds)) \<and>
     (\<forall>secret ds. hl_finalize lib (foldl (hl_update lib) (hl_hmac lib secret) ds) = mac secret (concat ds))"

section \<open>Contexts\<close>

datatype digest_algorithm = Sha256 | OtherDigest

datatype (plugins only: code size) crypto_error = NotSupported string

text \<open>\<open>Sha256Ctx\<close> and \<open>HmacCtx\<close>: the running state and the last result.\<close>

record 'h hash_ctx =
  hx_inner :: 'h
  hx_out :: bytes

definition ctx_update :: "'h hash_lib \<Rightarrow> bytes \<Rightarrow> 'h hash_ctx \<Rightarrow> 'h hash_ctx" where
  "ctx_update lib data ctx = ctx\<lparr> hx_inner := hl_update lib (hx_inner ctx) data \<rparr>"

text \<open>\<open>mem::take\<close> leaves a fresh hash in the context, \<open>mem::replace\<close> a MAC under the empty key.\<close>

definition digest_finish :: "'h hash_lib \<Rightarrow> 'h hash_ctx \<Rightarrow> bytes \<times> 'h hash_ctx" where
  "digest_finish lib ctx =
     (let out = hl_finalize lib (hx_inner ctx) in (out, \<lparr> hx_inner = hl_sha lib, hx_out = out \<rparr>))"

definition hmac_finish :: "'h hash_lib \<Rightarrow> 'h hash_ctx \<Rightarrow> bytes \<times> 'h hash_ctx" where
  "hmac_finish lib ctx =
     (let out = hl_finalize lib (hx_inner ctx) in (out, \<lparr> hx_inner = hl_hmac lib [], hx_out = out \<rparr>))"

section \<open>The provider\<close>

definition provider_digest :: "'h hash_lib \<Rightarrow> digest_algorithm \<Rightarrow> crypto_error + 'h hash_ctx" where
  "provider_digest lib algorithm =
     (case algorithm of
        Sha256 \<Rightarrow> Inr \<lparr> hx_inner = hl_sha lib, hx_out = replicate 32 0 \<rparr>
      | _ \<Rightarrow> Inl (NotSupported ''unsupported digest algorithm''))"

definition provider_hmac :: "'h hash_lib \<Rightarrow> digest_algorithm \<Rightarrow> bytes \<Rightarrow> crypto_error + 'h hash_ctx" where
  "provider_hmac lib algorithm secret =
     (case algorithm of
        Sha256 \<Rightarrow> Inr \<lparr> hx_inner = hl_hmac lib secret, hx_out = replicate 32 0 \<rparr>
      | _ \<Rightarrow> Inl (NotSupported ''unsupported hmac algorithm''))"

definition provider_sign :: "bytes \<Rightarrow> crypto_error + unit" where
  "provider_sign pem = Inl (NotSupported ''RS256 signing not supported (S3/R2 does not need it)'')"

section \<open>Using a context\<close>

text \<open>A request is signed by updates with its parts and one \<open>finish\<close>.\<close>

definition digest_of :: "'h hash_lib \<Rightarrow> bytes list \<Rightarrow> 'h hash_ctx \<Rightarrow> bytes \<times> 'h hash_ctx" where
  "digest_of lib ds ctx = digest_finish lib (fold (ctx_update lib) ds ctx)"

definition hmac_of :: "'h hash_lib \<Rightarrow> bytes list \<Rightarrow> 'h hash_ctx \<Rightarrow> bytes \<times> 'h hash_ctx" where
  "hmac_of lib ds ctx = hmac_finish lib (fold (ctx_update lib) ds ctx)"

lemma fold_update: "hx_inner (fold (ctx_update lib) ds ctx) = foldl (hl_update lib) (hx_inner ctx) ds"
  by (induction ds arbitrary: ctx) (simp_all add: ctx_update_def)

text \<open>
  A digest context gives the hash of all its data, however it comes in pieces, and can be used
  again. A MAC context gives the MAC of its data under its key once: used again, it has the empty key.
\<close>

lemma contexts_hash_their_data:
  assumes "hash_laws lib sha mac" "provider_digest lib Sha256 = Inr d" "provider_hmac lib Sha256 secret = Inr h"
  shows "fst (digest_of lib ds d) = sha (concat ds) \<and>
    fst (digest_of lib es (snd (digest_of lib ds d))) = sha (concat es) \<and>
    fst (hmac_of lib ds h) = mac secret (concat ds) \<and>
    fst (hmac_of lib es (snd (hmac_of lib ds h))) = mac [] (concat es)"
  using assms
  by (auto simp: digest_of_def hmac_of_def digest_finish_def hmac_finish_def provider_digest_def provider_hmac_def fold_update
      hash_laws_def Let_def)

end
