(* ===== verification/Bench.thy ===== *)
theory Bench
  imports Harness Writer Meta
begin

text \<open>
  The load tests of the wasm crate (\<open>fixedformat-wasm/src/lib.rs\<close>, feature \<open>bench\<close>) and the checks of
  its browser file system: generated files of fixed-width records are written, scanned through the
  production path, once or by several threads, and counted. Timings and the texts that report them
  are left out, and so are the mount and the directory calls whose results the code ignores. A
  directory that cannot be made is reported as a failed write. The threads of a scan share nothing, so a round is the list of their results in the
  order in which they are joined.
\<close>

section \<open>Mounting the file system of the browser\<close>

text \<open>
  \<open>bf_backend\<close> creates the backend (\<open>None\<close> is the null pointer), \<open>bf_directory\<close> mounts it; both are
  foreign functions, as the file operations are.
\<close>

record ('fs, 'backend) browser_fs =
  bf_backend :: "'fs \<Rightarrow> 'backend option \<times> 'fs"
  bf_directory :: "rstr \<Rightarrow> 'backend \<Rightarrow> 'fs \<Rightarrow> int \<times> 'fs"
  bf_write :: "rstr \<Rightarrow> bytes \<Rightarrow> 'fs \<Rightarrow> bool \<times> 'fs"
  bf_read :: "rstr \<Rightarrow> 'fs \<Rightarrow> bytes option"
  bf_length :: "rstr \<Rightarrow> 'fs \<Rightarrow> nat option"

definition mount_opfs :: "('fs, 'backend) browser_fs \<Rightarrow> 'fs \<Rightarrow> int \<times> 'fs" where
  "mount_opfs lib fs =
     (case bf_backend lib fs of
        (None, fs) \<Rightarrow> (- 1, fs)
      | (Some backend, fs) \<Rightarrow> bf_directory lib (lit ''/opfs'') backend fs)"

text \<open>\<open>Once\<close>: the flag says whether a mount was tried.\<close>

definition ensure_opfs_mounted :: "('fs, 'backend) browser_fs \<Rightarrow> bool \<times> 'fs \<Rightarrow> bool \<times> 'fs" where
  "ensure_opfs_mounted lib st =
     (case st of (tried, fs) \<Rightarrow> if tried then (tried, fs) else (True, snd (mount_opfs lib fs)))"

definition all_bytes :: bytes where
  "all_bytes = map byte_of [0..<256]"

definition opfs_selftest :: "('fs, 'backend) browser_fs \<Rightarrow> 'fs \<Rightarrow> int \<times> 'fs" where
  "opfs_selftest lib fs =
     (let path = lit ''/opfs/selftest.bin''; fs = snd (mount_opfs lib fs) in
      case bf_write lib path all_bytes fs of
        (False, fs) \<Rightarrow> (- 2, fs)
      | (True, fs) \<Rightarrow>
          (case bf_read lib path fs of
             None \<Rightarrow> (- 3, fs)
           | Some back \<Rightarrow> if back \<noteq> all_bytes then (- 4, fs) else (int (length back), fs)))"

definition opfs_probe :: "('fs, 'backend) browser_fs \<Rightarrow> rstr \<Rightarrow> bool \<times> 'fs \<Rightarrow> int \<times> bool \<times> 'fs" where
  "opfs_probe lib path st =
     (case ensure_opfs_mounted lib st of (tried, fs) \<Rightarrow>
        (case bf_length lib path fs of
           Some n \<Rightarrow> (wrap_i32 (int n), tried, fs)
         | None \<Rightarrow>
             (case bf_write lib path all_bytes fs of
                (True, fs) \<Rightarrow> (0, tried, fs)
              | (False, fs) \<Rightarrow> (- 1, tried, fs))))"

section \<open>Generated files\<close>

text \<open>\<open>{:0w}\<close> and \<open>{:<w}\<close>\<close>

definition fmt_zero :: "nat \<Rightarrow> nat \<Rightarrow> rstr" where
  "fmt_zero w n = replicate (w - length (nat_str n)) (ch CHR ''0'') @ nat_str n"

definition fmt_left :: "nat \<Rightarrow> rstr \<Rightarrow> rstr" where
  "fmt_left w s = s @ replicate (w - length s) (ch CHR '' '')"

definition sku_text :: "nat \<Rightarrow> rstr" where
  "sku_text n = lit ''SKU'' @ fmt_zero 6 (n mod 1000000)"

definition name_text :: "nat \<Rightarrow> rstr" where
  "name_text n = lit ''ITEM-NAME-'' @ fmt_zero 8 (n mod 100000000)"

definition bench_record :: "nat \<Rightarrow> rstr" where
  "bench_record n =
     fmt_zero 8 (n mod 100000000)
     @ fmt_left 12 (sku_text n)
     @ fmt_left 24 (name_text n)
     @ fmt_zero 6 (n mod 999999)
     @ fmt_zero 11 (n * 37 mod 100000000000)"

definition BENCH_SPEC :: rstr where
  "BENCH_SPEC = lit ''id:9(8) sku:A12 name:A24 qty:9(6) amount:9(9)V99''"

definition BENCH_RECLEN :: nat where
  "BENCH_RECLEN = 61"

definition bench_spec :: "int \<Rightarrow> rstr" where
  "bench_spec k =
     (if k = 1 then lit ''id:9(8) sku:A12 name:A24 qty:9(6) amount:9(11)''
      else if k = 2 then lit ''id:A8 sku:A12 name:A24 qty:A6 amount:A11''
      else BENCH_SPEC)"

text \<open>The text of the file with number \<open>f\<close>: its records are numbered on through all files, in the 32-bit
  \<open>usize\<close> of wasm (and \<open>id * 37\<close> does not leave the 64 bits of \<open>id\<close>).\<close>

definition bench_file :: "nat \<Rightarrow> nat \<Rightarrow> rstr" where
  "bench_file records_per_file f =
     concat (map (\<lambda>r. bench_record ((f * records_per_file + r) mod 2 ^ 32) @ [10]) [0..<records_per_file])"

definition bench_path :: "rstr \<Rightarrow> nat \<Rightarrow> rstr" where
  "bench_path dir f = dir @ lit ''/part'' @ fmt_zero 3 f @ lit ''.dat''"

section \<open>The load tests\<close>

datatype bench_error = BadConfig | BenchRpc rpc_error

definition bench_scan_local :: "'store env \<Rightarrow> rstr list \<Rightarrow> rstr \<Rightarrow> nat \<Rightarrow> rpc_error + (nat \<times> nat)" where
  "bench_scan_local env ps spec batch_rows = bench_scan_opts env ps spec batch_rows []"

definition write_bench_file :: "'store env \<Rightarrow> rstr \<Rightarrow> rstr \<Rightarrow> rpc_error + nat" where
  "write_bench_file env path text = map_err (WriteFailed path) (rmap_value (\<lambda>_. length (utf8 text)) (ev_write env path (utf8 text)))"

text \<open>\<open>total_bytes\<close> is a 32-bit counter; the parallel test does not report batches.\<close>

record bench_report =
  br_rows :: nat
  br_batches :: nat
  br_bytes :: nat

definition bench_opfs_inner :: "'store env \<Rightarrow> nat \<Rightarrow> nat \<Rightarrow> rpc_error + bench_report" where
  "bench_opfs_inner env files records_per_file =
     (let path = bench_path (lit ''/opfs/bench'') in
      rbind (rmap (\<lambda>f. write_bench_file env (path f) (bench_file records_per_file f)) [0..<files]) (\<lambda>sizes.
      rbind (bench_scan_local env (map path [0..<files]) BENCH_SPEC 2048) (\<lambda>(rows, batches).
      Inr \<lparr> br_rows = rows, br_batches = batches, br_bytes = sum_list sizes mod 2 ^ 32 \<rparr>)))"

definition thread_dir :: "rstr \<Rightarrow> nat \<Rightarrow> rstr" where
  "thread_dir root t = root @ lit ''/t'' @ nat_str t"

definition thread_paths :: "rstr \<Rightarrow> nat \<Rightarrow> nat \<Rightarrow> rstr list" where
  "thread_paths root files_per_thread t = map (bench_path (thread_dir root t)) [0..<files_per_thread]"

text \<open>One round: every thread scans its own files; the rows of all are added.\<close>

definition bench_round :: "(nat \<Rightarrow> rpc_error + (nat \<times> nat)) \<Rightarrow> nat \<Rightarrow> rpc_error + nat" where
  "bench_round scan threads = rmap_value (\<lambda>rs. sum_list (map fst rs)) (rmap scan [0..<threads])"

fun bench_rounds :: "(rpc_error + nat) \<Rightarrow> nat \<Rightarrow> nat \<Rightarrow> rpc_error + nat" where
  "bench_rounds round 0 rows = Inr rows"
| "bench_rounds round (Suc k) rows = rbind round (bench_rounds round k)"

text \<open>\<open>mkdir\<close> creates the directory of a thread.\<close>

definition bench_parallel_inner :: "'store env \<Rightarrow> (rstr \<Rightarrow> io_error + unit) \<Rightarrow> nat \<Rightarrow> nat \<Rightarrow> nat \<Rightarrow> int \<Rightarrow> int \<Rightarrow> rpc_error + bench_report" where
  "bench_parallel_inner env mkdir threads files_per_thread records_per_file spec_id repeats =
     (let root = lit ''/opfs/par''; rounds = nat (max repeats 1) in
      rbind (rmap (\<lambda>t.
          rbind (map_err (WriteFailed (thread_dir root t)) (mkdir (thread_dir root t))) (\<lambda>_.
          rmap_value sum_list (rmap (\<lambda>f.
              write_bench_file env (bench_path (thread_dir root t) f) (bench_file records_per_file (t * files_per_thread + f)))
            [0..<files_per_thread]))) [0..<threads]) (\<lambda>sizes.
      rbind (bench_rounds (bench_round (\<lambda>t. bench_scan_local env (thread_paths root files_per_thread t) (bench_spec spec_id) 2048) threads)
              rounds 0) (\<lambda>rows.
      Inr \<lparr> br_rows = rows, br_batches = 0, br_bytes = sum_list sizes mod 2 ^ 32 \<rparr>)))"

definition bench_parallel_s3_inner :: "'store env \<Rightarrow> nat \<Rightarrow> nat \<Rightarrow> int \<Rightarrow> rstr \<Rightarrow> bench_error + nat" where
  "bench_parallel_s3_inner env threads files_per_thread spec_id cfg =
     (case split_char (ch CHR ''|'') cfg of
        [endpoint, bucket, prefix, key_id, secret] \<Rightarrow>
          let overrides =
                [(lit ''aws_access_key_id'', key_id), (lit ''aws_secret_access_key'', secret), (lit ''aws_region'', lit ''auto''),
                 (lit ''aws_endpoint'', endpoint), (lit ''aws_virtual_hosted_style_request'', lit ''false'')];
              root = lit ''s3://'' @ bucket @ lit ''/'' @ prefix
          in map_err BenchRpc (bench_round (\<lambda>t.
               bench_scan_opts env (thread_paths root files_per_thread t) (bench_spec spec_id) 2048 overrides) threads)
      | _ \<Rightarrow> Inl BadConfig)"

section \<open>What a generated record holds\<close>

definition bench_fields :: "int \<Rightarrow> nat \<Rightarrow> (field \<times> bytes \<times> fval) list" where
  "bench_fields k n =
     (let num = n mod 100000000; sku = sku_text n; nm = name_text n; qty = n mod 999999; amount = n * 37 mod 100000000000;
          text = KText JLeft True 32; int = KInt False SUnsigned
      in [(Field (lit ''id'') 0 8 (if k = 2 then text else int) None None None, utf8 (fmt_zero 8 num),
             if k = 2 then VText (fmt_zero 8 num) else VInt (of_nat num)),
          (Field (lit ''sku'') 8 12 text None None None, utf8 (fmt_left 12 sku), VText sku),
          (Field (lit ''name'') 20 24 text None None None, utf8 (fmt_left 24 nm), VText nm),
          (Field (lit ''qty'') 44 6 (if k = 2 then text else int) None None None, utf8 (fmt_zero 6 qty),
             if k = 2 then VText (fmt_zero 6 qty) else VInt (of_nat qty)),
          (Field (lit ''amount'') 50 11 (if k = 1 then int else if k = 2 then text else KDecimal 11 2 RDisplay SUnsigned) None None None,
             utf8 (fmt_zero 11 amount),
             if k = 1 then VInt (of_nat amount) else if k = 2 then VText (fmt_zero 11 amount) else VDecimal (of_nat amount) 2)])"

definition bench_layout :: "int \<Rightarrow> layout" where
  "bench_layout k = \<lparr> l_record_len = 61, l_fields = map fst (bench_fields k 0), l_variable = False \<rparr>"

lemma bench_spec_layout: "parse_spec sd (bench_spec k) None = Ok (bench_layout k)"
proof -
  have "parse_spec sd (bench_spec 1) None = Ok (bench_layout 1)" "parse_spec sd (bench_spec 2) None = Ok (bench_layout 2)"
    "parse_spec sd BENCH_SPEC None = Ok (bench_layout 0)"
    by code_simp+
  moreover have "bench_layout k = bench_layout 0" if "k \<noteq> 1" "k \<noteq> 2"
    using that by (simp add: bench_layout_def bench_fields_def)
  ultimately show ?thesis
    by (auto simp: bench_spec_def)
qed

lemma fmt_zero_padded: "fmt_zero w n = padded w (int n)"
  by (simp add: fmt_zero_def padded_def)

lemma fmt_zero_digits: "list_all is_ascii_digit (fmt_zero w n)"
  by (simp add: fmt_zero_padded padded_digits)

lemma fmt_zero_length: "0 < w \<Longrightarrow> n < 10 ^ w \<Longrightarrow> length (fmt_zero w n) = w"
  by (simp add: fmt_zero_padded padded_length)

lemma digits_ascii: "list_all is_ascii_digit s \<Longrightarrow> is_ascii s"
  using digit_lt by (auto simp: is_ascii_def list_all_iff)

lemma leaf_decodes:
  assumes "leaf_ok c f v" "encode_leaf c f 0 [] v enc = Ok bs"
  shows "length bs = f_width f \<and> decode_leaf c f bs enc = Ok v"
  using leaf_roundtrip [OF assms(1), of enc] assms(2) by (auto simp: put_def ensure_def)

lemma text_leaf:
  assumes "is_ascii s" "0 \<notin> set s" "s \<noteq> []" "is_ascii_digit (last s)" "length s \<le> w"
  shows "leaf_ok c (Field nm off w (KText JLeft True 32) None None None) (VText s)"
    "encode_leaf c (Field nm off w (KText JLeft True 32) None None None) 0 [] (VText s) Ascii = Ok (utf8 (fmt_left w s))"
proof -
  have "list_all is_scalar s" "last s \<noteq> 32"
    using assms(1,4) by (auto simp: is_ascii_def list_all_iff is_scalar_def is_ascii_digit_def)
  then show "leaf_ok c (Field nm off w (KText JLeft True 32) None None None) (VText s)"
    using assms by (simp add: leaf_ok_def text_ok_def length_utf8_ascii)
  have "utf8 (fmt_left w s) = utf8 s @ replicate (w - length s) 32"
    using assms(1) by (simp add: fmt_left_def utf8_ascii is_ascii_def byte_of_def)
  then show "encode_leaf c (Field nm off w (KText JLeft True 32) None None None) 0 [] (VText s) Ascii = Ok (utf8 (fmt_left w s))"
    using assms(1,5) by (simp add: encode_leaf_def justify_pad_def length_utf8_ascii maybe_ebcdic_def put_def ensure_def Let_def)
qed

lemma digit_leaf:
  assumes "0 < w" "w \<le> 18" "n < 10 ^ w"
  shows "leaf_ok c (Field nm off w (KInt False SUnsigned) None None None) (VInt (int n))"
    "encode_leaf c (Field nm off w (KInt False SUnsigned) None None None) 0 [] (VInt (int n)) Ascii = Ok (utf8 (fmt_zero w n))"
    "leaf_ok c (Field nm off w (KDecimal w s RDisplay SUnsigned) None None None) (VDecimal (int n) s)"
    "encode_leaf c (Field nm off w (KDecimal w s RDisplay SUnsigned) None None None) 0 [] (VDecimal (int n) s) Ascii
       = Ok (utf8 (fmt_zero w n))"
    "leaf_ok c (Field nm off w (KText JLeft True 32) None None None) (VText (fmt_zero w n))"
    "encode_leaf c (Field nm off w (KText JLeft True 32) None None None) 0 [] (VText (fmt_zero w n)) Ascii = Ok (utf8 (fmt_zero w n))"
proof -
  have ok: "display_ok w SUnsigned (int n)"
    using assms by (simp add: display_ok_def)
  have "(10 :: nat) ^ w \<le> 10 ^ 18"
    using assms(2) by (intro power_increasing) simp_all
  then have small: "n < 10 ^ 18"
    using assms(3) by simp
  show "leaf_ok c (Field nm off w (KInt False SUnsigned) None None None) (VInt (int n))"
    "leaf_ok c (Field nm off w (KDecimal w s RDisplay SUnsigned) None None None) (VDecimal (int n) s)"
    using ok small assms(1) by (simp_all add: leaf_ok_def)
  have bytes: "encode_display_int (int n) w sgnd SUnsigned = Ok (utf8 (fmt_zero w n))" for sgnd
    using encode_display_int_eq [OF ok, of sgnd] utf8_ascii [OF digits_ascii [OF fmt_zero_digits [of w n]]]
    by (simp add: display_text_def fmt_zero_padded)
  have len: "length (utf8 (fmt_zero w n)) = w" "length (fmt_zero w n) = w"
    using assms fmt_zero_length length_utf8_ascii [OF digits_ascii [OF fmt_zero_digits]] by simp_all
  show "encode_leaf c (Field nm off w (KInt False SUnsigned) None None None) 0 [] (VInt (int n)) Ascii = Ok (utf8 (fmt_zero w n))"
    "encode_leaf c (Field nm off w (KDecimal w s RDisplay SUnsigned) None None None) 0 [] (VDecimal (int n) s) Ascii
       = Ok (utf8 (fmt_zero w n))"
    using bytes len
    by (simp_all add: encode_leaf_def as_i128_def as_decimal_def rescale_def encode_display_decimal_def maybe_ebcdic_def put_def ensure_def Let_def)
  have ne: "fmt_zero w n \<noteq> []"
    by (simp add: fmt_zero_def)
  have "is_ascii_digit (last (fmt_zero w n))" "0 \<notin> set (fmt_zero w n)"
    using fmt_zero_digits [of w n] ne by (auto simp: list_all_iff is_ascii_digit_def)
  then show "leaf_ok c (Field nm off w (KText JLeft True 32) None None None) (VText (fmt_zero w n))"
    "encode_leaf c (Field nm off w (KText JLeft True 32) None None None) 0 [] (VText (fmt_zero w n)) Ascii = Ok (utf8 (fmt_zero w n))"
    using text_leaf [OF digits_ascii [OF fmt_zero_digits], of w n] ne len(2) by (simp_all add: fmt_left_def)
qed

text \<open>Fields in a row, each with its bytes and the value they give.\<close>

fun laid_out :: "chrono \<Rightarrow> encoding \<Rightarrow> nat \<Rightarrow> (field \<times> bytes \<times> fval) list \<Rightarrow> bool" where
  "laid_out c enc start [] = True"
| "laid_out c enc start ((f, bs, v) # ts) =
     (f_offset f = start \<and> f_occurs f = None \<and> f_depending_on f = None \<and> \<not> is_pad f \<and> (\<nexists>cs. f_kind f = KGroup cs)
      \<and> length bs = f_width f \<and> decode_leaf c f bs enc = Ok v \<and> laid_out c enc (start + f_width f) ts)"

lemma laid_out_decodes:
  "laid_out c enc (length pre) ts \<Longrightarrow>
   \<exists>fin' sc'. decode_fields c (pre @ concat (map (\<lambda>(f, bs, v). bs) ts)) enc (map fst ts) 0 0 fin sc
     = Ok (map (\<lambda>(f, bs, v). (f_name f, v)) ts, fin', sc')"
proof (induction ts arbitrary: pre fin sc)
  case (Cons t ts)
  obtain f bs v where t: "t = (f, bs, v)"
    by (cases t)
  let ?all = "pre @ concat (map (\<lambda>(f, bs, v). bs) (t # ts))"
  have f: "f_offset f = length pre" "f_occurs f = None" "f_depending_on f = None" "\<not> is_pad f" "\<nexists>cs. f_kind f = KGroup cs"
    "length bs = f_width f" "decode_leaf c f bs enc = Ok v" "laid_out c enc (length (pre @ bs)) ts"
    using Cons.prems by (auto simp: t)
  have "slice ?all (length pre) (f_width f) = Ok bs"
    using f(6) by (simp add: t slice_def get_slice_def)
  moreover have "decode_one c ?all enc f (length pre) sc
      = rbind (slice ?all (length pre) (f_width f)) (\<lambda>s. rbind (decode_leaf c f s enc) (\<lambda>v. Ok (v, f_width f, sc)))"
    using f(5) by (auto split: field_kind.split)
  ultimately have "decode_field c ?all enc f (length pre) sc = Ok (v, f_width f, sc)"
    using f(2,3,7) by (simp add: decode_count_def)
  then have "decode_fields c ?all enc (map fst (t # ts)) 0 0 fin sc
      = rbind (decode_fields c ((pre @ bs) @ concat (map (\<lambda>(f, bs, v). bs) ts)) enc (map fst ts) 0 0 (max fin (length pre + f_width f)) (scope_insert f v sc))
          (\<lambda>(out, fin, sc). Ok ((f_name f, v) # out, fin, sc))"
    using f(1-4) by (simp add: t reserved_width_def Let_def)
  then show ?case
    using Cons.IH [OF f(8), of "max fin (length pre + f_width f)" "scope_insert f v sc"] by (auto simp: t)
qed simp

lemma fmt_left_ascii: "is_ascii s \<Longrightarrow> is_ascii (fmt_left w s)"
  by (auto simp: fmt_left_def is_ascii_def)

lemma label_text:
  assumes "is_ascii p" "0 \<notin> set p"
  shows "is_ascii (p @ fmt_zero w n)" "0 \<notin> set (p @ fmt_zero w n)" "p @ fmt_zero w n \<noteq> []"
    "is_ascii_digit (last (p @ fmt_zero w n))"
proof -
  have ne: "fmt_zero w n \<noteq> []" and dig: "list_all is_ascii_digit (fmt_zero w n)"
    using fmt_zero_digits by (simp_all add: fmt_zero_def)
  show "is_ascii (p @ fmt_zero w n)"
    using assms(1) digits_ascii [OF dig] by (auto simp: is_ascii_def list_all_iff)
  show "0 \<notin> set (p @ fmt_zero w n)" "p @ fmt_zero w n \<noteq> []" "is_ascii_digit (last (p @ fmt_zero w n))"
    using assms(2) dig ne by (auto simp: list_all_iff is_ascii_digit_def)
qed

lemma label_texts:
  "is_ascii (sku_text n)" "0 \<notin> set (sku_text n)" "sku_text n \<noteq> []" "is_ascii_digit (last (sku_text n))" "length (sku_text n) = 9"
  "is_ascii (name_text n)" "0 \<notin> set (name_text n)" "name_text n \<noteq> []" "is_ascii_digit (last (name_text n))" "length (name_text n) = 18"
proof -
  have a: "is_ascii (lit ''SKU'')" "0 \<notin> set (lit ''SKU'' :: rstr)" "is_ascii (lit ''ITEM-NAME-'')" "0 \<notin> set (lit ''ITEM-NAME-'' :: rstr)"
    "length (lit ''SKU'' :: rstr) = 3" "length (lit ''ITEM-NAME-'' :: rstr) = 10"
    by code_simp+
  show "is_ascii (sku_text n)" "0 \<notin> set (sku_text n)" "sku_text n \<noteq> []" "is_ascii_digit (last (sku_text n))"
    "is_ascii (name_text n)" "0 \<notin> set (name_text n)" "name_text n \<noteq> []" "is_ascii_digit (last (name_text n))"
    unfolding sku_text_def name_text_def using label_text [OF a(1,2)] label_text [OF a(3,4)] by blast+
  show "length (sku_text n) = 9" "length (name_text n) = 18"
    by (simp_all add: sku_text_def name_text_def fmt_zero_length)
qed

lemma leaf_laid:
  assumes "leaf_ok c (Field nm off w kind None None rf) v" "encode_leaf c (Field nm off w kind None None rf) 0 [] v Ascii = Ok bs"
    "\<nexists>b. kind = KPad b" "\<nexists>cs. kind = KGroup cs"
  shows "laid_out c Ascii off ((Field nm off w kind None None rf, bs, v) # ts) = laid_out c Ascii (off + w) ts"
  using leaf_decodes [OF assms(1,2)] assms(3-) by (auto simp: is_pad_def split: field_kind.split)

lemmas text_laid = leaf_laid [OF text_leaf]
lemmas digits_laid =
  leaf_laid [OF digit_leaf(1,2)] leaf_laid [OF digit_leaf(3,4)] leaf_laid [OF digit_leaf(5,6)]

lemma bench_laid_out: "laid_out c Ascii 0 (bench_fields k n)"
  unfolding bench_fields_def Let_def
  by (cases "k = 1"; cases "k = 2"; simp add: digits_laid text_laid label_texts del: laid_out.simps(2))

text \<open>The bytes of the record, and the row that the worker decodes.\<close>

lemma bench_bytes: "concat (map (\<lambda>(f, bs, v). bs) (bench_fields k n)) = utf8 (bench_record n)"
  by (simp add: bench_fields_def bench_record_def utf8_append Let_def)

lemma bench_record_chars: "\<forall>c \<in> set (bench_record n). 32 \<le> c \<and> c < 128"
proof -
  have d: "\<forall>c \<in> set (fmt_zero w m). 32 \<le> c \<and> c < 128" for w m
    using fmt_zero_digits [of w m] by (auto simp: list_all_iff is_ascii_digit_def)
  have "list_all (\<lambda>c. 32 \<le> c \<and> c < 128) (lit ''SKU'' :: rstr)" "list_all (\<lambda>c. 32 \<le> c \<and> c < 128) (lit ''ITEM-NAME-'' :: rstr)"
    by code_simp+
  then show ?thesis
    using d unfolding bench_record_def sku_text_def name_text_def fmt_left_def list_all_iff by (auto simp: ball_Un)
qed

lemma bench_record_length: "length (bench_record n) = 61"
  by (simp add: bench_record_def fmt_zero_length fmt_left_def label_texts)

lemma bench_record_bytes:
  "length (utf8 (bench_record n)) = 61" "\<forall>b \<in> set (utf8 (bench_record n)). 32 \<le> b \<and> b < 128"
proof -
  have a: "is_ascii (bench_record n)"
    using bench_record_chars [of n] by (auto simp: is_ascii_def list_all_iff)
  show "length (utf8 (bench_record n)) = 61"
    using length_utf8_ascii [OF a] bench_record_length by simp
  show "\<forall>b \<in> set (utf8 (bench_record n)). 32 \<le> b \<and> b < 128"
    using bench_record_chars [of n] by (auto simp: utf8_ascii [OF a] word_le_nat_alt word_less_nat_alt)
qed

lemma bench_layout_fields: "map fst (bench_fields k n) = l_fields (bench_layout k)"
  by (simp add: bench_layout_def bench_fields_def Let_def)

definition bench_row :: "int \<Rightarrow> nat \<Rightarrow> pairs" where
  "bench_row k n = map (\<lambda>(f, bs, v). (f_name f, v)) (bench_fields k n)"

lemma bench_decodes: "decode_record c (bench_layout k) (utf8 (bench_record n)) Ascii = Ok (bench_row k n)"
proof -
  have "check_record_len (bench_layout k) (length (utf8 (bench_record n))) = Ok ()"
    by (simp add: check_record_len_def bench_record_bytes bench_layout_def ensure_def)
  then show ?thesis
    using laid_out_decodes [of c Ascii "[]" "bench_fields k n" 0 Map.empty] bench_laid_out
    by (auto simp: decode_record_def decode_seq_def bench_bytes bench_layout_fields bench_row_def)
qed

section \<open>Scanning generated files\<close>

lemma bench_newline_fits: "newline_fits (map (\<lambda>n. utf8 (bench_record n)) ns)"
proof -
  have "10 \<notin> set (utf8 (bench_record n)) \<and> last (utf8 (bench_record n)) \<noteq> 13" for n
  proof -
    have "last (utf8 (bench_record n)) \<in> set (utf8 (bench_record n))"
      using bench_record_bytes(1) [of n] by (intro last_in_set) auto
    then show ?thesis
      using bench_record_bytes(2) [of n] by fastforce
  qed
  then show ?thesis
    by (auto simp: newline_fits_def list_all_iff)
qed

lemma lines_fit_line: "10 \<notin> set r \<Longrightarrow> lines_fit cap n (r @ 10 # rest) \<longleftrightarrow> n + length r \<le> cap \<and> lines_fit cap 0 rest"
  by (induction r arbitrary: n) auto

lemma lines_fit_assembled:
  "list_all (\<lambda>r. 10 \<notin> set r \<and> length r \<le> cap) recs \<Longrightarrow> lines_fit cap 0 (assemble recs Newline)"
  by (induction recs) (auto simp: assemble_def lines_fit_line)

text \<open>What is read of an uncompressed file of lines whose first four bytes arrive at once.\<close>

lemma open_lines:
  assumes "rc_framing rc = Newline" "rc_compression rc = None" "sound raw" "source_data raw = assemble recs Newline"
    "case raw of Piece b bs # _ \<Rightarrow> 3 \<le> length bs | _ \<Rightarrow> False" "detect (assemble recs Newline) = NoCompression"
    "newline_fits recs" "list_all (\<lambda>r. length r \<le> max_record_bytes (rc_limits rc)) recs"
  shows "\<exists>st. open_stream rc (label, Inr raw) = Inr st \<and> drain st = Ok recs"
proof -
  obtain b bs es where raw: "raw = Piece b bs # es" "3 \<le> length bs"
    using assms(5) by (auto split: list.splits event.splits)
  then have "detect (b # bs) = NoCompression"
    using detect_prefix [of "b # bs" "source_data es"] assms(4,6) by simp
  then have plain: "decompress_reader (rc_codecs rc) raw None (max_decompressed_bytes (rc_limits rc)) = Ok raw"
    using raw(1) by (simp add: decompress_reader_def peek_def read_error_def)
  have "records (source_data raw) Newline n = Ok recs" for n
    using records_assembled [of 1 Newline "[recs]"] assms(4,7) by (simp add: framing_fits_simps records_def)
  moreover have "within_cap Newline n (max_record_bytes (rc_limits rc)) (source_data raw)" for n
    using assms(4,7,8) lines_fit_assembled [of "max_record_bytes (rc_limits rc)" recs]
    by (auto simp: within_cap_def newline_fits_def list_all_iff)
  ultimately have "streamed raw Newline (rc_rec_len rc) (max_record_bytes (rc_limits rc)) = Ok recs"
    using streamed_records [OF assms(3), of Newline "rc_rec_len rc" "max_record_bytes (rc_limits rc)"] by (simp add: same_records_def)
  then show ?thesis
    using plain assms(1,2) by (auto simp: streamed_def open_stream_def map_err_def ve_def)
qed

text \<open>A run succeeds when the sources are read, their rows decode, and every batch of such rows is built.\<close>

lemma bench_push_ok:
  assumes "\<forall>xs. list_all P xs \<longrightarrow> (\<exists>a. build xs = Inr a)" "list_all P (bn_pending b)" "P row"
  shows "\<exists>b'. bench_push m build row b = Inr b' \<and> list_all P (bn_pending b')"
  using assms by (auto simp: bench_push_def Let_def dest!: spec [of _ "bn_pending b @ [row]"])

lemma bench_source_ok:
  assumes "\<forall>xs. list_all P xs \<longrightarrow> (\<exists>a. build xs = Inr a)"
  shows "drain st = Ok recs \<Longrightarrow> rmap dec recs = Ok rows \<Longrightarrow> list_all P rows \<Longrightarrow> list_all P (bn_pending b) \<Longrightarrow>
    \<exists>b'. bench_source m build dec label i st b = Inr b' \<and> list_all P (bn_pending b')"
proof (induction "state_size st" arbitrary: st i recs rows b rule: less_induct)
  case less
  obtain r st' where n: "stream_next st = (r, st')"
    by (cases "stream_next st")
  show ?case
  proof (cases r)
    case None
    then show ?thesis
      using less.prems n by (simp add: bench_source.simps [of m])
  next
    case (Some x)
    then obtain s recs' where x: "x = Ok s" "drain st' = Ok recs'" "recs = s # recs'"
      using less.prems(1) n by (auto simp: drain.simps [of st] split: sum.splits)
    then obtain row rows' where row: "dec s = Ok row" "rmap dec recs' = Ok rows'" "rows = row # rows'"
      using less.prems(2) by auto
    obtain b' where b': "bench_push m build row b = Inr b'" "list_all P (bn_pending b')"
      using bench_push_ok [OF assms less.prems(4)] less.prems(3) row(3) by auto
    show ?thesis
      using less.hyps [of st' recs' rows' b' "i + 1"] stream_next_size n Some x row b' less.prems(3)
      by (simp add: bench_source.simps [of m] map_err_def)
  qed
qed

lemma bench_sources_ok:
  assumes "\<forall>xs. list_all P xs \<longrightarrow> (\<exists>a. build xs = Inr a)"
  shows "list_all (\<lambda>src. \<exists>st recs rows. open_stream rc src = Inr st \<and> drain st = Ok recs \<and> rmap dec recs = Ok rows \<and> list_all P rows) srcs
    \<Longrightarrow> list_all P (bn_pending b) \<Longrightarrow> \<exists>b'. bench_sources m build dec rc srcs b = Inr b' \<and> list_all P (bn_pending b')"
proof (induction srcs arbitrary: b)
  case (Cons src srcs)
  then obtain st recs rows where "open_stream rc src = Inr st" "drain st = Ok recs" "rmap dec recs = Ok rows" "list_all P rows"
    by auto
  moreover from bench_source_ok [OF assms this(2-4) Cons.prems(2)]
  obtain b' where "bench_source m build dec (fst src) 0 st b = Inr b'" "list_all P (bn_pending b')"
    by blast
  ultimately show ?case
    using Cons.IH [of b'] Cons.prems(1) by simp
qed simp

text \<open>Rows of generated records are built into batches.\<close>

definition bench_schema :: "int \<Rightarrow> afield list" where
  "bench_schema k =
     [AField (lit ''id'') (if k = 2 then TUtf8 else TInt 64) True, AField (lit ''sku'') TUtf8 True, AField (lit ''name'') TUtf8 True,
      AField (lit ''qty'') (if k = 2 then TUtf8 else TInt 64) True,
      AField (lit ''amount'') (if k = 1 then TInt 64 else if k = 2 then TUtf8 else TDecimal128 11 2) True]"

lemma bench_layout_schema: "layout_fields (bench_layout k) = Inr (bench_schema k)"
proof -
  have "layout_fields (bench_layout 0) = Inr (bench_schema 0)" "layout_fields (bench_layout 1) = Inr (bench_schema 1)"
    "layout_fields (bench_layout 2) = Inr (bench_schema 2)"
    by code_simp+
  moreover have "bench_layout k = bench_layout 0" "bench_schema k = bench_schema 0" if "k \<noteq> 1" "k \<noteq> 2"
    using that by (simp_all add: bench_layout_def bench_fields_def bench_schema_def)
  ultimately show ?thesis
    by (cases "k = 1"; cases "k = 2") simp_all
qed

definition is_bench_row :: "int \<Rightarrow> fval list \<Rightarrow> bool" where
  "is_bench_row k row \<longleftrightarrow> (\<exists>n. row = map snd (bench_row k n))"

lemma bench_cell:
  assumes "is_bench_row k row" "i < 5"
  shows "fits lossless (af_type (bench_schema k ! i)) (take_values [0..<5] row ! i)"
    "item_count (take_values [0..<5] row ! i) = 0"
proof -
  have five: "[0..<5] = [0, 1, 2, 3, 4]" and i: "i = 0 \<or> i = 1 \<or> i = 2 \<or> i = 3 \<or> i = 4"
    using assms(2) by (auto simp: upt_rec numeral_eq_Suc)
  show "fits lossless (af_type (bench_schema k ! i)) (take_values [0..<5] row ! i)"
    "item_count (take_values [0..<5] row ! i) = 0"
    using assms(1) i by (auto simp: five is_bench_row_def bench_row_def bench_fields_def bench_schema_def lossless_def Let_def)
qed

text \<open>Arrow has the decimals of the benchmark's specs and accepts the batches it documents.\<close>

definition bench_arrow :: "arrow_lib \<Rightarrow> bool" where
  "bench_arrow ar \<longleftrightarrow> al_decimal ar 11 2 \<and> accepts_batches ar"

lemma bench_builds:
  assumes "bench_arrow ar" "list_all (is_bench_row k) rows"
  shows "\<exists>a. build_batch ar (bench_schema k) [0..<length (bench_schema k)] rows = Inr a"
proof -
  let ?s = "bench_schema k" and ?cs = "columns_of [0..<5] rows"
  have len: "length ?s = 5" "length ?cs = 5"
    by (simp_all add: bench_schema_def columns_of_def)
  have "build_batch ar ?s [0..<5] rows = build_children ar ?s ?cs"
    using len(1) assms(1) by (intro build_batch_children) (simp_all add: bench_schema_def bench_arrow_def)
  moreover have "\<forall>f \<in> set ?s. storable ar (af_type f)"
    using assms(1) by (simp add: bench_schema_def output_type_def bench_arrow_def)
  moreover have "fits_all lossless (af_type (?s ! i)) (?cs ! i) \<and> sum_list (map item_count (?cs ! i)) < 2 ^ 31" if "i < 5" for i
  proof -
    have col: "?cs ! i = map (\<lambda>row. take_values [0..<5] row ! i) rows"
      using that by (simp add: columns_of_def)
    have "sum_list (map item_count (?cs ! i)) = 0"
      using bench_cell(2) [OF _ that] assms(2) by (auto simp: col list_all_iff sum_list_eq_0_iff)
    then have "sum_list (map item_count (?cs ! i)) < 2 ^ 31"
      by (metis zero_less_numeral zero_less_power)
    then show ?thesis
      using bench_cell(1) [OF _ that] assms(2) by (simp add: col fits_all_iff list_all_iff)
  qed
  ultimately show ?thesis
    using build_reads_back(2) [of ?s ar ?cs] len by auto
qed

text \<open>
  The file system gives back what was written: the file is opened and read without I/O errors,
  its first four bytes at once.
\<close>

definition reads_back :: "'store env \<Rightarrow> rstr \<Rightarrow> bytes \<Rightarrow> bool" where
  "reads_back env path body \<longleftrightarrow>
     (case ev_open env (SLocal path) of
        Inl e \<Rightarrow> False
      | Inr raw \<Rightarrow> sound raw \<and> source_data raw = body \<and> (case raw of Piece b bs # _ \<Rightarrow> 3 \<le> length bs | _ \<Rightarrow> False))"

definition bench_lines :: "nat list \<Rightarrow> bytes" where
  "bench_lines ns = assemble (map (\<lambda>n. utf8 (bench_record n)) ns) Newline"

lemma bench_lines_plain: "ns \<noteq> [] \<Longrightarrow> detect (bench_lines ns) = NoCompression"
proof -
  assume "ns \<noteq> []"
  then obtain n ns' where ns: "ns = n # ns'"
    by (cases ns) auto
  let ?r = "utf8 (bench_record n)"
  have r: "length ?r = 61" "\<forall>b \<in> set ?r. 32 \<le> b \<and> b < 128"
    by (rule bench_record_bytes)+
  have "detect (bench_lines ns) = detect ?r"
    using detect_prefix [of ?r] r(1) by (simp add: ns bench_lines_def assemble_def)
  also have "\<dots> = NoCompression"
  proof -
    have at: "32 \<le> ?r ! i \<and> ?r ! i < 128" if "i < 4" for i
      using r that by simp
    have "?r ! 1 \<noteq> 0x8b" "?r ! 1 \<noteq> 0xb5"
      using at [of 1] by auto
    moreover have "?r ! 1 = 0xb5" if "take 4 ?r = [0x28, 0xb5, 0x2f, 0xfd]"
      using arg_cong [OF that, of "\<lambda>xs. xs ! 1"] by simp
    ultimately show ?thesis
      by (auto simp: detect_def)
  qed
  finally show ?thesis .
qed

lemma bench_file_bytes:
  "utf8 (bench_file n f) = bench_lines (map (\<lambda>r. (f * n + r) mod 2 ^ 32) [0..<n])"
proof -
  have ch10: "utf8 [10] = [10]"
    by code_simp
  have "utf8 (concat (map (\<lambda>r. g r @ [10]) xs)) = concat (map (\<lambda>r. utf8 (g r) @ [10]) xs)" for g and xs :: "nat list"
  proof (induction xs)
    case Nil
    then show ?case
      by (simp add: utf8_def)
  next
    case (Cons x xs)
    then show ?case
      using utf8_append [of "g x" "10 # concat (map (\<lambda>r. g r @ [10]) xs)"]
        utf8_append [of "[10]" "concat (map (\<lambda>r. g r @ [10]) xs)"] by (simp add: ch10)
  qed
  then show ?thesis
    by (simp add: bench_file_def bench_lines_def assemble_def comp_def)
qed

lemma split_once_none: "ch CHR '':'' \<notin> set s \<Longrightarrow> split_once (lit ''://'') s = None"
  by (induction s) (auto simp: split_once.simps starts_with_def)

lemma local_paths: "list_all (\<lambda>p. ch CHR '':'' \<notin> set p) ps \<Longrightarrow> rmap (classify ul) ps = Inr (map Local ps)"
proof (induction ps)
  case (Cons p ps)
  then have "split_once (lit ''://'') p = None"
    by (intro split_once_none) simp
  then have "classify ul p = Inr (Local p)"
    unfolding classify_def by (simp del: list.map)
  then show ?case
    using Cons by simp
qed simp

lemma local_sources: "resolve_sources env ov (map Local ps) = Inr (map SLocal ps)"
  by (induction ps) (simp_all add: resolve_sources_def)

lemma bench_opens:
  assumes "reads_back env p (bench_lines ns)" "ns \<noteq> []" "rc_framing rc = Newline" "rc_compression rc = None" "rc_limits rc = default_limits"
  shows "\<exists>st. open_stream rc (p, ev_open env (SLocal p)) = Inr st \<and> drain st = Ok (map (\<lambda>n. utf8 (bench_record n)) ns)"
proof -
  obtain raw where "ev_open env (SLocal p) = Inr raw" "sound raw" "source_data raw = bench_lines ns"
    "case raw of Piece b bs # _ \<Rightarrow> 3 \<le> length bs | _ \<Rightarrow> False"
    using assms(1) by (auto simp: reads_back_def split: sum.splits)
  then show ?thesis
    using open_lines [OF assms(3,4), of raw "map (\<lambda>n. utf8 (bench_record n)) ns" p] bench_newline_fits bench_lines_plain [OF assms(2)] assms(5)
    by (simp add: bench_lines_def list_all_iff bench_record_bytes default_limits_def)
qed

lemma bench_rows: "rmap (decode_row c (bench_layout k) Ascii) (map (\<lambda>n. utf8 (bench_record n)) ns) = Ok (map (\<lambda>n. map snd (bench_row k n)) ns)"
  by (induction ns) (simp_all add: decode_row_def bench_decodes)

lemma bench_scan_ok:
  assumes "list_all (\<lambda>p. ch CHR '':'' \<notin> set p) ps" "list_all2 (\<lambda>p ns. ns \<noteq> [] \<and> reads_back env p (bench_lines ns)) ps nss"
    "bench_arrow (ev_arrow env)"
  defines "n \<equiv> sum_list (map length nss)"
  shows "bench_scan_opts env ps (bench_spec k) m ov = Inr (n, (n + max m 1 - 1) div max m 1)"
proof -
  let ?rc = "bench_config env (map SLocal ps)" and ?dec = "decode_row (ev_chrono env) (bench_layout k) Ascii"
    and ?build = "\<lambda>rows. map_err ArrowFailed (build_batch (ev_arrow env) (bench_schema k) [0..<length (bench_schema k)] rows)"
    and ?start = "\<lparr> bn_pending = [], bn_total = 0, bn_batches = 0 \<rparr>"
  have rc: "rc_framing ?rc = Newline" "rc_compression ?rc = None" "rc_limits ?rc = default_limits"
    "rc_sources ?rc = map (\<lambda>p. (p, ev_open env (SLocal p))) ps"
    by (simp_all add: bench_config_def opened_def source_label_def)
  have read: "list_all2 (\<lambda>src rows. \<exists>st recs. open_stream ?rc src = Inr st \<and> drain st = Ok recs \<and> rmap ?dec recs = Ok rows)
      (rc_sources ?rc) (map (map (\<lambda>n. map snd (bench_row k n))) nss)"
    unfolding rc(4) list_all2_map1 list_all2_map2
    using assms(2) by (rule list_all2_mono) (use bench_opens [OF _ _ rc(1-3)] bench_rows in blast)
  have all: "list_all (\<lambda>src. \<exists>st recs rows. open_stream ?rc src = Inr st \<and> drain st = Ok recs \<and> rmap ?dec recs = Ok rows
      \<and> list_all (is_bench_row k) rows) (rc_sources ?rc)"
    using assms(2) bench_opens [OF _ _ rc(1-3)] bench_rows
    by (fastforce simp: rc(4) list_all_iff list_all2_conv_all_nth in_set_conv_nth is_bench_row_def)
  have built: "\<forall>xs. list_all (is_bench_row k) xs \<longrightarrow> (\<exists>a. ?build xs = Inr a)"
    using bench_builds [of "ev_arrow env" k] assms(3) by (fastforce simp: map_err_def)
  obtain b where b: "bench_sources (max m 1) ?build ?dec ?rc (rc_sources ?rc) ?start = Inr b" "list_all (is_bench_row k) (bn_pending b)"
    using bench_sources_ok [OF built all, of ?start "max m 1"] by auto
  obtain rows_read n_batches where fin: "bench_finish ?build b = Inr (rows_read, n_batches)"
    using built b(2) by (fastforce simp: bench_finish_def)
  have "bench_inv (max m 1) ?start"
    by (simp add: bench_inv_def)
  from bench_sources_counts [OF this b(1)] read_sources_drained [OF read]
  have "bench_inv (max m 1) b" "bn_total b = n"
    by (auto simp: n_def length_concat comp_def)
  from bench_finish_counts [OF this(1) fin] this(2)
  have "bench_finish ?build b = Inr (n, (n + max m 1 - 1) div max m 1)"
    using fin by simp
  moreover have "bench_scan_opts env ps (bench_spec k) m ov
      = worker_step (rbind (bench_sources (max m 1) ?build ?dec ?rc (rc_sources ?rc) ?start) (bench_finish ?build))"
    unfolding bench_scan_opts_def bench_spec_layout local_paths [OF assms(1)] local_sources Let_def
    by (simp add: bench_layout_schema ve_def map_err_def local_sources)
  ultimately show ?thesis
    using b(1) by (simp add: map_err_def)
qed

section \<open>Properties\<close>

lemma bench_file_length: "length (utf8 (bench_file n f)) = n * 62"
  by (simp add: bench_file_bytes bench_lines_def assemble_def length_concat comp_def bench_record_bytes map_replicate_const sum_list_replicate)

lemma bench_path_local: "ch CHR '':'' \<notin> set dir \<Longrightarrow> ch CHR '':'' \<notin> set (bench_path dir f)"
  using fmt_zero_digits [of 3 f] by (auto simp: bench_path_def list_all_iff is_ascii_digit_def)

lemma thread_dir_local: "ch CHR '':'' \<notin> set root \<Longrightarrow> ch CHR '':'' \<notin> set (thread_dir root t)"
  using nat_str_digits [of t] by (auto simp: thread_dir_def list_all_iff is_ascii_digit_def)

lemma bench_files_ok:
  assumes "0 < n" "ch CHR '':'' \<notin> set dir" "bench_arrow (ev_arrow env)"
    "\<forall>f < files. reads_back env (bench_path dir f) (utf8 (bench_file n (start + f)))"
  shows "bench_scan_local env (map (bench_path dir) [0..<files]) (bench_spec k) 2048 = Inr (files * n, (files * n + 2047) div 2048)"
proof -
  let ?nss = "map (\<lambda>f. map (\<lambda>r. ((start + f) * n + r) mod 2 ^ 32) [0..<n]) [0..<files]"
  have "list_all2 (\<lambda>p ns. ns \<noteq> [] \<and> reads_back env p (bench_lines ns)) (map (bench_path dir) [0..<files]) ?nss"
    using assms(1,4) by (auto simp: list_all2_conv_all_nth bench_file_bytes)
  moreover have "list_all (\<lambda>p. ch CHR '':'' \<notin> set p) (map (bench_path dir) [0..<files])"
    using bench_path_local [OF assms(2)] by (simp add: list_all_iff)
  moreover have "sum_list (map length ?nss) = files * n"
    by (simp add: comp_def map_replicate_const sum_list_replicate)
  ultimately show ?thesis
    using bench_scan_ok [of "map (bench_path dir) [0..<files]" env ?nss k 2048 "[]"] assms(3) by (simp add: bench_scan_local_def)
qed

text \<open>
  Every generated record is 61 bytes long under its line feed and decodes, under each of the three
  specs of the load test, to the numbers and texts it was made of.
\<close>

theorem bench_record_decodes:
  "parse_spec sd (bench_spec k) None = Ok (bench_layout k) \<and> l_record_len (bench_layout k) = BENCH_RECLEN
   \<and> length (utf8 (bench_record n)) = BENCH_RECLEN
   \<and> decode_record c (bench_layout k) (utf8 (bench_record n)) Ascii = Ok (bench_row k n)"
  using bench_decodes by (simp add: bench_spec_layout bench_record_bytes BENCH_RECLEN_def) (simp add: bench_layout_def)

text \<open>
  The load test counts all records of its files and the batches of 2048 they fill, provided that
  the files are written and read back and that Arrow has DECIMAL(11,2) and accepts well-shaped batches.
\<close>

theorem load_test_counts:
  assumes "0 < n" "bench_arrow (ev_arrow env)"
    "\<forall>f < files. ev_write env (bench_path (lit ''/opfs/bench'') f) (utf8 (bench_file n f)) = Inr ()"
    "\<forall>f < files. reads_back env (bench_path (lit ''/opfs/bench'') f) (utf8 (bench_file n f))"
  shows "bench_opfs_inner env files n = Inr \<lparr> br_rows = files * n, br_batches = (files * n + 2047) div 2048,
    br_bytes = files * n * 62 mod 2 ^ 32 \<rparr>"
proof -
  let ?dir = "lit ''/opfs/bench'' :: rstr"
  have "rmap (\<lambda>f. write_bench_file env (bench_path ?dir f) (bench_file n f)) [0..<files] = Inr (map (\<lambda>_. n * 62) [0..<files])"
    using assms(3) by (intro rmap_eqI) (auto simp: write_bench_file_def map_err_def bench_file_length)
  moreover have "bench_scan_local env (map (bench_path ?dir) [0..<files]) BENCH_SPEC 2048 = Inr (files * n, (files * n + 2047) div 2048)"
    using bench_files_ok [OF assms(1) _ assms(2), of ?dir files 0 0] assms(4) by (simp add: bench_spec_def)
  ultimately show ?thesis
    unfolding bench_opfs_inner_def Let_def by (simp add: map_replicate_const sum_list_replicate mult.assoc)
qed

theorem load_test_counts_witness:
  "\<forall>e :: unit env. bench_opfs_inner (e\<lparr> ev_open := (\<lambda>_. Inr [Piece (hd (utf8 (bench_file 1 0))) (tl (utf8 (bench_file 1 0)))]),
     ev_write := (\<lambda>_ _. Inr ()), ev_arrow := accepting_arrow \<rparr>) 1 1
   = Inr \<lparr> br_rows = 1, br_batches = 1, br_bytes = 62 \<rparr>"
proof
  fix e :: "unit env"
  have "utf8 (bench_file 1 0) \<noteq> []" "length (utf8 (bench_file 1 0)) = 62"
    using bench_file_length [of 1 0] by auto
  then show "bench_opfs_inner (e\<lparr> ev_open := (\<lambda>_. Inr [Piece (hd (utf8 (bench_file 1 0))) (tl (utf8 (bench_file 1 0)))]),
     ev_write := (\<lambda>_ _. Inr ()), ev_arrow := accepting_arrow \<rparr>) 1 1
   = Inr \<lparr> br_rows = 1, br_batches = 1, br_bytes = 62 \<rparr>"
    using load_test_counts [of 1 "e\<lparr> ev_open := (\<lambda>_. Inr [Piece (hd (utf8 (bench_file 1 0))) (tl (utf8 (bench_file 1 0)))]),
     ev_write := (\<lambda>_ _. Inr ()), ev_arrow := accepting_arrow \<rparr>" 1]
    by (simp add: reads_back_def sound_def bench_arrow_def accepting_accepts) (simp add: accepting_arrow_def)
qed

text \<open>Each thread of the parallel test scans its own files; every round counts the same rows.\<close>

lemma bench_rounds_constant: "bench_rounds (Inr n) (Suc k) rows = Inr n"
  by (induction k arbitrary: rows) simp_all

theorem parallel_test_counts:
  assumes "0 < n" "bench_arrow (ev_arrow env)" "\<forall>t < threads. mkdir (thread_dir (lit ''/opfs/par'') t) = Inr ()"
    "\<forall>t < threads. \<forall>f < files. let p = bench_path (thread_dir (lit ''/opfs/par'') t) f; text = utf8 (bench_file n (t * files + f)) in
       ev_write env p text = Inr () \<and> reads_back env p text"
  shows "bench_parallel_inner env mkdir threads files n k repeats
    = Inr \<lparr> br_rows = threads * (files * n), br_batches = 0, br_bytes = threads * (files * n * 62) mod 2 ^ 32 \<rparr>"
proof -
  let ?root = "lit ''/opfs/par'' :: rstr"
  have w: "rmap (\<lambda>f. write_bench_file env (bench_path (thread_dir ?root t) f) (bench_file n (t * files + f))) [0..<files]
      = Inr (map (\<lambda>_. n * 62) [0..<files])" if "t < threads" for t
    using assms(4) that by (intro rmap_eqI) (auto simp: write_bench_file_def map_err_def bench_file_length Let_def)
  have sizes: "rmap (\<lambda>t. rbind (map_err (WriteFailed (thread_dir ?root t)) (mkdir (thread_dir ?root t))) (\<lambda>_.
      rmap_value sum_list (rmap (\<lambda>f. write_bench_file env (bench_path (thread_dir ?root t) f) (bench_file n (t * files + f))) [0..<files])))
      [0..<threads] = Inr (map (\<lambda>_. files * n * 62) [0..<threads])"
    using assms(3) w by (intro rmap_eqI) (auto simp: map_err_def map_replicate_const sum_list_replicate)
  have "ch CHR '':'' \<notin> set (thread_dir ?root t)" for t
    by (rule thread_dir_local) simp
  then have "bench_scan_local env (thread_paths ?root files t) (bench_spec k) 2048 = Inr (files * n, (files * n + 2047) div 2048)"
    if "t < threads" for t
    using bench_files_ok [OF assms(1) _ assms(2), of "thread_dir ?root t" files "t * files" k] assms(4) that
    by (auto simp: thread_paths_def Let_def)
  then have "rmap (\<lambda>t. bench_scan_local env (thread_paths ?root files t) (bench_spec k) 2048) [0..<threads]
      = Inr (map (\<lambda>_. (files * n, (files * n + 2047) div 2048)) [0..<threads])"
    by (intro rmap_eqI) simp_all
  then have round: "bench_round (\<lambda>t. bench_scan_local env (thread_paths ?root files t) (bench_spec k) 2048) threads = Inr (threads * (files * n))"
    by (simp add: bench_round_def map_replicate_const sum_list_replicate)
  obtain m where "nat (max repeats 1) = Suc m"
    by (metis Suc_pred max.cobounded2 zero_less_nat_eq zero_less_one order_less_le_trans)
  then show ?thesis
    unfolding bench_parallel_inner_def Let_def sizes round
    by (simp only: bench_rounds_constant rbind_Inr) (simp add: map_replicate_const sum_list_replicate)
qed

text \<open>
  A file that the probe creates is found, with its 256 bytes, by the next probe, when the file
  system keeps what is written.
\<close>

theorem probe_finds_file:
  assumes "\<forall>bs fs fs'. bf_write lib path bs fs = (True, fs') \<longrightarrow> bf_length lib path fs' = Some (length bs)"
    "bf_length lib path (snd (ensure_opfs_mounted lib st)) = None" "opfs_probe lib path st = (0, st')"
  shows "opfs_probe lib path st' = (256, st')"
proof -
  obtain tried fs where e: "ensure_opfs_mounted lib st = (tried, fs)" "tried"
    by (cases st; cases "fst st") (auto simp: ensure_opfs_mounted_def)
  then obtain fs' where w: "bf_write lib path all_bytes fs = (True, fs')" "st' = (True, fs')"
    using assms(2,3) by (auto simp: opfs_probe_def split: prod.splits bool.splits)
  then have "bf_length lib path fs' = Some 256"
    using assms(1) by (auto simp: all_bytes_def)
  then show ?thesis
    by (simp add: w(2) opfs_probe_def ensure_opfs_mounted_def wrap_i32_def)
qed

text \<open>The self-test does not report a failed mount: its code is never the -1 of the mount.\<close>

theorem selftest_hides_mount:
  "fst (opfs_selftest lib fs) \<in> {256, - 2, - 3, - 4}"
  by (auto simp: opfs_selftest_def all_bytes_def Let_def split: prod.split bool.split option.split)

end
