(* ===== verification/Backends.thy ===== *)
theory Backends
  imports Cloud Stream MultiRecord
begin

text \<open>
  What the two builds of the program put behind their common interfaces: the stores of the browser
  build (\<open>build_store_with_opts\<close> of \<open>cloud.rs\<close> for wasm32), the zstd codec of both
  (\<open>zstd_codec.rs\<close>), and the visitor that keeps the record types of a spec in order
  (\<open>OrderedRecords\<close> of \<open>multirecord.rs\<close>).
\<close>

section \<open>Stores of the browser build\<close>

text \<open>
  The builders of the crate \<open>object_store\<close>. \<open>sl_key\<close> is \<open>ObjectStoreScheme::parse\<close> followed by
  \<open>ObjPath::parse\<close>, \<open>sl_option\<close> the parser of option names, \<open>sl_base\<close> the URL before its path. The
  injected transport and crypto provider are part of the builders.
\<close>

record ('builder, 'key, 'store) store_lib =
  sl_key :: "url \<Rightarrow> io_error + rstr"
  sl_s3 :: "rstr \<Rightarrow> 'builder"
  sl_option :: "rstr \<Rightarrow> 'key option"
  sl_set :: "'builder \<Rightarrow> 'key \<Rightarrow> rstr \<Rightarrow> 'builder"
  sl_build :: "'builder \<Rightarrow> io_error + 'store"
  sl_base :: "url \<Rightarrow> rstr"
  sl_http :: "rstr \<Rightarrow> io_error + 'store"

fun configure :: "('builder, 'key, 'store) store_lib \<Rightarrow> options \<Rightarrow> 'builder \<Rightarrow> 'builder" where
  "configure lib [] b = b"
| "configure lib ((k, v) # opts) b =
     configure lib opts (case sl_option lib k of Some key \<Rightarrow> sl_set lib b key v | None \<Rightarrow> b)"

definition browser_store :: "('builder, 'key, 'store) store_lib \<Rightarrow> url \<Rightarrow> options \<Rightarrow> cloud_error + ('store \<times> rstr)" where
  "browser_store lib u opts =
     rbind (map_err StoreFailed (sl_key lib u)) (\<lambda>path.
     if u_scheme u \<in> set s3_schemes then
       rmap_value (\<lambda>store. (store, path)) (map_err StoreFailed (sl_build lib (configure lib opts (sl_s3 lib (u_text u)))))
     else if u_scheme u \<in> set http_schemes then
       rmap_value (\<lambda>store. (store, path)) (map_err StoreFailed (sl_http lib (sl_base lib u)))
     else Inl (UnsupportedScheme (u_scheme u) (u_text u)))"

text \<open>The options that the builder knows, under their keys; several names may stand for one key.\<close>

definition known_options :: "('builder, 'key, 'store) store_lib \<Rightarrow> options \<Rightarrow> ('key \<times> rstr) list" where
  "known_options lib opts = List.map_filter (\<lambda>(k, v). map_option (\<lambda>key. (key, v)) (sl_option lib k)) opts"

lemma known_options_simps [simp]:
  "known_options lib [] = []"
  "known_options lib ((k, v) # opts) = (case sl_option lib k of Some key \<Rightarrow> [(key, v)] | None \<Rightarrow> []) @ known_options lib opts"
  "known_options lib (xs @ ys) = known_options lib xs @ known_options lib ys"
  by (simp_all add: known_options_def List.map_filter_def split: option.split)

lemma configure_append: "configure lib (xs @ ys) b = configure lib ys (configure lib xs b)"
  by (induction lib xs b rule: configure.induct) simp_all

text \<open>Unknown options change nothing, and of the others the last one for a key is in force.\<close>

lemma configure_last:
  assumes "\<And>b key v key'. conf (sl_set lib b key v) key' = (if key' = key then Some v else conf b key')"
  shows "conf (configure lib opts b) key = (case map_of (rev (known_options lib opts)) key of Some v \<Rightarrow> Some v | None \<Rightarrow> conf b key)"
  by (induction opts arbitrary: b) (auto simp: assms map_add_def split: option.split)

text \<open>
  A store of the browser build is made with the options of the secret and the named ones; where a
  named option sets a key, its last value is in force whatever the secret says, and elsewhere the
  secret's. \<open>conf\<close> reads the configuration of a builder, which keeps the last value set.
\<close>

theorem browser_options_precedence:
  assumes "\<And>b key v key'. conf (sl_set lib b key v) key' = (if key' = key then Some v else conf b key')"
    "u_scheme u \<in> set s3_schemes" "build_store env secrets (browser_store lib) u overrides = Inr (store, path)"
  shows "\<exists>b. sl_build lib b = Inr store \<and> sl_key lib u = Inr path \<and>
    (\<forall>key. conf b key =
       (case map_of (rev (known_options lib overrides)) key of
          Some v \<Rightarrow> Some v
        | None \<Rightarrow> (case map_of (rev (known_options lib (s3_options secrets u))) key of
                    Some v \<Rightarrow> Some v | None \<Rightarrow> conf (sl_s3 lib (u_text u)) key)))"
proof -
  let ?b = "configure lib (s3_options secrets u @ overrides) (sl_s3 lib (u_text u))"
  have "u_scheme u \<notin> set http_schemes" "secret_type_for u = Some (lit ''s3'')"
    using assms(2) by (auto simp: s3_schemes_def http_schemes_def secret_type_for_def)
  then have "browser_store lib u (s3_options secrets u @ overrides) = Inr (store, path)"
    using assms(3) by (simp add: build_store_def)
  then have "sl_build lib ?b = Inr store" "sl_key lib u = Inr path"
    using assms(2) by (auto simp: browser_store_def map_err_def rmap_value_def split: sum.splits)
  moreover have "conf ?b key =
       (case map_of (rev (known_options lib overrides)) key of
          Some v \<Rightarrow> Some v
        | None \<Rightarrow> (case map_of (rev (known_options lib (s3_options secrets u))) key of
                    Some v \<Rightarrow> Some v | None \<Rightarrow> conf (sl_s3 lib (u_text u)) key))" for key
    by (simp add: configure_last [of conf, OF assms(1)] map_add_def split: option.split)
  ultimately show ?thesis
    by blast
qed

text \<open>No path that the program accepts ends in the error for other schemes.\<close>

theorem browser_scheme_supported:
  "u_scheme u \<in> set REMOTE_SCHEMES \<Longrightarrow> browser_store lib u opts \<noteq> Inl (UnsupportedScheme s t)"
  by (auto simp: browser_store_def REMOTE_SCHEMES_def s3_schemes_def http_schemes_def map_err_def rmap_value_def rbind_def split: sum.splits)

section \<open>The zstd codec\<close>

text \<open>
  The crate \<open>zstd\<close> (native) or \<open>ruzstd\<close> (browser): a decoder over a reader, the limit of its window
  where there is one, the bytes it delivers, and the compressor.
\<close>

record 'decoder zstd_lib =
  zl_new :: "source \<Rightarrow> io_error + 'decoder"
  zl_window_log_max :: "nat \<Rightarrow> 'decoder \<Rightarrow> io_error + 'decoder"
  zl_output :: "'decoder \<Rightarrow> source"
  zl_encode :: "bytes \<Rightarrow> io_error + bytes"

definition ZSTD_WINDOW_LOG_MAX :: nat where
  "ZSTD_WINDOW_LOG_MAX = 27"

definition zstd_result :: "string \<Rightarrow> io_error + 'a \<Rightarrow> error + 'a" where
  "zstd_result label r = map_err (\<lambda>e. StreamErr (CodecError (lit label) e)) r"

definition native_decoder :: "'decoder zstd_lib \<Rightarrow> source \<Rightarrow> error + source" where
  "native_decoder lib reader =
     rbind (zstd_result ''zstd decode'' (zl_new lib reader)) (\<lambda>dec.
     rbind (zstd_result ''zstd decode'' (zl_window_log_max lib ZSTD_WINDOW_LOG_MAX dec)) (\<lambda>dec.
     Ok (zl_output lib dec)))"

definition browser_decoder :: "'decoder zstd_lib \<Rightarrow> source \<Rightarrow> error + source" where
  "browser_decoder lib reader = rmap_value (zl_output lib) (zstd_result ''zstd decode'' (zl_new lib reader))"

definition decode_all :: "(source \<Rightarrow> error + source) \<Rightarrow> bytes \<Rightarrow> error + bytes" where
  "decode_all decoder data =
     rbind (decoder (push_back data [])) (\<lambda>out. zstd_result ''zstd decode'' (read_to_end out))"

definition native_encode_all :: "'decoder zstd_lib \<Rightarrow> bytes \<Rightarrow> error + bytes" where
  "native_encode_all lib data = zstd_result ''zstd encode'' (zl_encode lib data)"

text \<open>The compressor of the browser build does not fail.\<close>

definition browser_encode_all :: "(bytes \<Rightarrow> bytes) \<Rightarrow> bytes \<Rightarrow> error + bytes" where
  "browser_encode_all compress_to_vec data = Ok (compress_to_vec data)"

lemma read_to_end_iff: "read_to_end src = Inr data \<longleftrightarrow> sound src \<and> source_data src = data"
  by (induction src arbitrary: data rule: read_to_end.induct) (auto simp: sound_def)

text \<open>
  Decoding a whole buffer succeeds exactly when its stream is decoded without an error, and gives
  the bytes of that stream; on the native build the limit of the window is in force for both.
\<close>

theorem decode_all_iff:
  "decode_all decoder data = Ok out
     \<longleftrightarrow> (\<exists>src. decoder (push_back data []) = Ok src \<and> sound src \<and> source_data src = out)"
proof (cases "decoder (push_back data [])")
  case (Inr src)
  have "zstd_result label r = Ok out \<longleftrightarrow> r = Inr out" for label and r :: "io_error + bytes"
    by (cases r) (simp_all add: zstd_result_def map_err_def)
  then show ?thesis
    using Inr read_to_end_iff [of src out] by (simp add: decode_all_def)
qed (simp add: decode_all_def)

section \<open>Record types in order\<close>

text \<open>\<open>visit_map\<close>: each item is the result of \<open>next_entry\<close>; the list ends where it gives \<open>None\<close>.\<close>

fun visit_map :: "('e + rstr \<times> json_value) list \<Rightarrow> (rstr \<times> json_value) list \<Rightarrow> 'e + (rstr \<times> json_value) list" where
  "visit_map [] out = Inr out"
| "visit_map (entry # entries) out = rbind entry (\<lambda>(k, v). visit_map entries (out @ [(k, v)]))"

text \<open>The entries are kept in order, repeated tags included.\<close>

theorem visit_map_keeps_order: "visit_map (map Inr kvs) out = Inr (out @ kvs)"
  by (induction kvs arbitrary: out) auto

end
