(* ===== verification/Spec2Isabelle.thy ===== *)
theory Spec2Isabelle
  imports CopybookFacts Declared Harness Wire Meta Session SpecPanic Locality
    Examples Registry Crypto Bench Backends
begin

text \<open>
  Verification of vgi-fixedformat, a DuckDB worker that reads and writes fixed-width records:
  mainframe files described by a COBOL copybook, a JSON spec or an \<open>unpack\<close> template. The source
  is under \<open>src/crates/\<close>: \<open>fixedformat-core\<close> (specs, layouts, codecs, framing, compression),
  \<open>fixedformat-worker\<close> (Arrow columns, table functions, sinks, object stores) and
  \<open>fixedformat-wasm\<close> (the browser build).

  \<^bold>\<open>The program.\<close> A spec text becomes a \<open>layout\<close>, a tree of fields with offsets and widths. A file is
  opened, decompressed and split into records; a record and its layout give a list of named
  values, and these become Arrow columns. The way back encodes values into record bytes, frames
  and compresses them, and writes a file or an object. Files with several record types have one
  layout per type, chosen by the bytes of a discriminator.

  \<^bold>\<open>Conventions.\<close> A \<open>Result\<close> is a sum, with one error constructor per error site and the constructor
  \<open>Panic\<close> for a panic; \<open>&mut\<close> state is passed and returned; a loop is a recursive function over
  what the loop consumes, so every operation is total. Bytes are \<open>8 word\<close>, texts are lists of
  scalar values, \<open>i64\<close> and \<open>i128\<close> are integers with the checks and wrapping of the code written out,
  floats are bit patterns. A \<open>usize\<close> is a natural number: lengths beyond 64 bits are outside the model, and
  so are allocations of more than \<open>isize::MAX\<close> bytes, which panic with a capacity overflow.

  \<^bold>\<open>Theories, in the order of the code.\<close>
  \<^item> \<open>Prelude\<close>, \<open>RustStr\<close>, \<open>Digits\<close>: results, fixed-width integers, lists; the parts of \<open>str\<close> in use
    (UTF-8 with its lossy decoder, trimming, parsing); decimal digit loops.
  \<^item> \<open>Ebcdic\<close>, \<open>Packed\<close>, \<open>Zoned\<close>, \<open>Edited\<close>, \<open>Floats\<close>, \<open>DateTime\<close>: one field format each
    (\<open>ebcdic.rs\<close>, \<open>packed.rs\<close>, \<open>zoned.rs\<close>, \<open>edited.rs\<close>, the float arithmetic, \<open>datetime.rs\<close>).
  \<^item> \<open>Layout\<close>, \<open>Decode\<close>, \<open>Encode\<close>: the layout tree (\<open>layout.rs\<close>, \<open>value.rs\<close>) and the two walks over it
    (\<open>decode.rs\<close>, \<open>encode.rs\<close>). \<open>FieldCodec\<close> and \<open>RoundTrip\<close> relate them: \<open>leaf_ok\<close> and \<open>conforms\<close> say
    which values a field and a layout represent, \<open>apart\<close> that fields do not overlap.
  \<^item> \<open>Pic\<close>, \<open>Copybook\<close>, \<open>Template\<close>, \<open>JsonSpec\<close>, \<open>MultiRecord\<close>: the front ends (\<open>copybook.rs\<close>,
    \<open>template.rs\<close>, \<open>jsonspec.rs\<close>, \<open>multirecord.rs\<close>, and \<open>parse_spec\<close>); \<open>Describe\<close>: \<open>describe.rs\<close>.
    \<open>Specs\<close> and \<open>CopybookFacts\<close> show what layouts they build.
  \<^item> \<open>Framing\<close>, \<open>Compression\<close>, \<open>Stream\<close>: \<open>framing.rs\<close>, \<open>compression.rs\<close>, \<open>stream.rs\<close>. A byte source is a
    list of events: a piece that arrives, an interrupted read, or an I/O error.
  \<^item> \<open>Arrow\<close>, \<open>Reader\<close>, \<open>Scan\<close>, \<open>Writer\<close>: the worker's \<open>arrow_map.rs\<close> and \<open>value_in.rs\<close>; \<open>reader.rs\<close> with
    its batches and resume points; projection and union columns; encoding and draining of batches.
    \<open>Batch\<close> holds the calls of Arrow's batch constructor and its contract; \<open>Session\<close> adds the scans that are
    interrupted and continued any number of times.
  \<^item> \<open>Hosts\<close>, \<open>Cloud\<close>: \<open>cloud.rs\<close> and \<open>table/mod.rs\<close>: the address parser of the standard library and
    the guard against internal hosts; path classification, secrets, store options, globs, and the
    reader that fetches an object in ranges.
  \<^item> \<open>Options\<close>, \<open>Handlers\<close>, \<open>Sinks\<close>: \<open>options.rs\<close> and the functions that DuckDB calls: \<open>table/\<close>,
    \<open>copy_from.rs\<close>, \<open>buffering/\<close>, \<open>copy_to.rs\<close>, \<open>scalar/\<close>; each with its binding, its secret lookups,
    its state and its steps. A call gets an environment record \<open>env\<close> with what it relies on.
  \<^item> \<open>Declared\<close>: the argument declarations of all functions and the vocabulary of the view
    \<open>spec_reference\<close>, against what the handlers read.
  \<^item> \<open>NoPanic\<close>, \<open>SpecPanic\<close>: which operations of reading, encoding and spec parsing can panic;
    \<open>Locality\<close>: which bytes a record depends on, and which record an error names.
  \<^item> \<open>Harness\<close>, \<open>Wire\<close>, \<open>Meta\<close>: the scan benchmark of \<open>lib.rs\<close> and the transport self-test; the calls
    through the browser of \<open>wasm/http.rs\<close>, with their peer \<open>src/wasm/vgi_http_lib.js\<close>; and the description
    texts of \<open>meta.rs\<close>.
  \<^item> \<open>Bench\<close>: the load tests of \<open>fixedformat-wasm/src/lib.rs\<close>, which generate files, scan them through
    the production path and count, and the mount and checks of the browser file system.
  \<^item> \<open>Backends\<close>: what the two builds put behind common interfaces: the stores of the browser build, the
    zstd codec (\<open>zstd_codec.rs\<close>); and the visitor that keeps the record types of a spec in order.
  \<^item> \<open>Registry\<close>, \<open>Crypto\<close>, \<open>Examples\<close>: the registered functions (\<open>build_worker\<close>), the hash contexts of
    \<open>wasm/crypto.rs\<close>, and the example queries of the catalog, run on the model.

  \<^bold>\<open>What is shown.\<close>
  \<^item> Round trips, from bottom to top: code page 037 is a bijection; packed, zoned and edited fields
    hold exactly the numbers that fit; a record of a layout without overlaps decodes to the values
    it was encoded from, with tables of variable length; layouts of templates, JSON specs and
    copybooks without \<open>REDEFINES\<close> have no overlaps; each framing mode gives back the records that
    fit it; files come back through compression, framing and decoding, for one and for several
    record types; an Arrow array reads back to its column; and what \<open>COPY TO\<close> writes \<open>COPY FROM\<close>
    reads, under the same options. The records that the load test generates decode under each of
    its specs to what they were made of, and its counts are the numbers of records and batches.
  \<^item> Refinement and equivalence: streaming yields the records of the whole-buffer framing however
    the bytes arrive; batches put together are the eager read, and the scan of \<open>read_fixed\<close> is the
    read of \<open>COPY FROM\<close>; a resumed scan continues where it stopped, and any number of interruptions
    lose and repeat no row; reading an object in ranges delivers the object; the level tree of a
    copybook is the one forest that nests its statements by their levels; the handlers do with the declared arguments what
    they do with all, and the declared defaults are what they do without.
  \<^item> Safety, bounds and types: the packed decoder accepts only well-formed fields; the
    decompression limit; records with descriptor words are exactly the payloads of the segments that
    the input consists of; layouts are tight and nesting is
    bounded; decoded records and the batches built of them have the announced types, and a scan fails with the errors of records only; the guard
    refuses exactly the internal networks; reading records never panics, encoding and spec parsing only in
    the situations named; a record depends on its bytes up to the end of its fields only; a failing
    read names the first record at fault. And where the code is not what it means to be: blocked files at the 16-bit
    limit, IPv6 hosts behind the guard, options that cannot override a secret or that no function
    declares, columns equal up to case, \<open>fixed\<close> framing with record types of different lengths, a
    count prefix without a code, formats that cannot render a value, decimals that wrap when they
    are moved to more decimals, EBCDIC text that is not UTF-8 once transcoded, synchronized items inside groups,
    record types of fillers only, examples of the catalog that fail.

  \<^bold>\<open>Interfaces.\<close> The locales \<open>transcoder\<close> (byte encodings), \<open>decimal_codec\<close> (signed decimals),
  \<open>record_framing\<close> (a writer and a reader of a mode), \<open>batches\<close> (a batch producer), \<open>byte_reader\<close> (a
  reader that delivers bytes in pieces), \<open>declared_options\<close> and \<open>declared_scan\<close> (what a function
  declares) state a contract once; each is interpreted on the code's own operations, and the
  properties rest on those interpretations.

  \<^bold>\<open>Fuel.\<close> Only three loops have it, those whose end depends on a parameter. \<open>run_batches\<close> calls a
  producer until it is exhausted: one call more than there are rows is enough, as its theorems
  state. \<open>drain_shards\<close> pages through the storage of the SDK: one page more than there are
  batches is enough. \<open>read_out\<close> is given the sizes of the buffers: one read more than there are
  bytes is enough. \<open>skip_records\<close> and the loops over occurrences count down what the code counts up.

  \<^bold>\<open>Parameters.\<close> Code outside the repository appears as arguments with named contracts: the calendar
  library (\<open>chrono\<close>), the JSON deserializers (\<open>serde\<close>), the compressors (\<open>codecs\<close>, \<open>stream_codecs\<close>, with
  \<open>codec_laws\<close> and \<open>stream_laws\<close>), URLs and percent encoding (\<open>url_lib\<close>), globs, the resolver, object
  stores (\<open>serves\<close>), the browser file system (\<open>browser_fs\<close>), the builders of stores and the
  zstd crates (\<open>store_lib\<close>, \<open>zstd_lib\<close>), the storage of the worker SDK (\<open>append_log\<close>), Arrow's checks and casts
  (\<open>arrow_lib\<close> with \<open>accepts_batches\<close>, \<open>ev_cast\<close>), the file system, what opening a source gives, and the synchronous request
  of the browser.

  \<^bold>\<open>Not modelled.\<close> The entry points and the documentation strings of the catalog (\<open>main.rs\<close>, most of
  \<open>lib.rs\<close>, the \<open>metadata\<close> of each function), which hold no computation; the tokio runtimes, which
  only wait; the timings of the load tests, their JSON reports and the copying of these into foreign buffers;
  memory exhaustion and the panics of oversized allocations; test modules.
\<close>

end
